(* ===== verification/Prelude.thy ===== *)
theory Prelude
  imports
    Complex_Main
    "HOL-Library.Word"
    "HOL-Library.Log_Nat"
    "HOL-Library.Multiset"
begin

text \<open>
  Shared ground of the development: bytes and results of fallible Go code, slice indexing,
  big-endian numbers (\<open>encoding/binary\<close>), the byte order of keys (\<open>bytes.Compare\<close>),
  \<open>math.Ceil(math.Log2(h))\<close>, \<open>sort.Sort\<close> with the contract of its \<open>Less\<close> methods,
  and Go maps built by appending to the slice under a key.
\<close>

section \<open>Bytes, results, panics\<close>

type_synonym byte = "8 word"
type_synonym bytes = "byte list"
type_synonym u16 = "16 word"
type_synonym u32 = "32 word"
type_synonym u64 = "64 word"

text \<open>
  The error values the code tells apart with \<open>errors.Is\<close>, and one constructor for each
  other place where an error is born. Wrapping with \<open>fmt.Errorf("...: %w", err)\<close> keeps
  the identity \<open>errors.Is\<close> looks at, so it is the identity here; message texts are dropped.
\<close>

datatype err =
    ErrNotFound            \<comment> \<open>\<open>leveldb.ErrNotFound\<close>\<close>
  | ErrLevelDB             \<comment> \<open>any other error of the database\<close>
  | ErrCBOR                \<comment> \<open>\<open>cbor.Marshal\<close> or \<open>cbor.Unmarshal\<close> failed\<close>
  | ErrProto               \<comment> \<open>a constructor of package \<open>proto\<close> refused its input\<close>
  | ErrSize                \<comment> \<open>a stored value has the wrong size\<close>
  | ErrPrefix              \<comment> \<open>a stored key has the wrong prefix\<close>
  | ErrParentNotFound      \<comment> \<open>\<open>chains.ErrParentNotFound\<close>\<close>
  | ErrRefNotFound         \<comment> \<open>\<open>chains.ErrRefNotFound\<close>\<close>
  | ErrInvalidAddress      \<comment> \<open>not an acceptable network address\<close>
  | ErrInvalidName         \<comment> \<open>a peer name that is not UTF-8\<close>
  | ErrSelfConnection      \<comment> \<open>connection of the node to itself\<close>
  | ErrHostile             \<comment> \<open>the peer is hostile\<close>
  | ErrImpossibleState     \<comment> \<open>a peer state outside the enumeration\<close>
  | ErrParse               \<comment> \<open>text that does not parse\<close>
  | ErrInvalidParam        \<comment> \<open>a command line parameter that is not acceptable\<close>
  | ErrArgument            \<comment> \<open>a trigger argument of the wrong type\<close>
  | ErrUnhandledTrigger    \<comment> \<open>a trigger no state permits or ignores\<close>

datatype 'a res = Ok 'a | Err err | Panic

fun bind_res :: "'a res \<Rightarrow> ('a \<Rightarrow> 'b res) \<Rightarrow> 'b res" where
  "bind_res (Ok x) f = f x"
| "bind_res (Err e) f = Err e"
| "bind_res Panic f = Panic"

fun is_ok :: "'a res \<Rightarrow> bool" where
  "is_ok (Ok _) = True"
| "is_ok _ = False"

lemma bind_res_cong [fundef_cong]:
  "m = m' \<Longrightarrow> (\<And>x. m' = Ok x \<Longrightarrow> f x = f' x) \<Longrightarrow> bind_res m f = bind_res m' f'"
  by (cases m') auto

lemma bind_res_eq_Ok: "bind_res m f = Ok y \<longleftrightarrow> (\<exists>x. m = Ok x \<and> f x = Ok y)"
  by (cases m) auto

lemma bind_res_eq_Err: "bind_res m f = Err e \<longleftrightarrow> m = Err e \<or> (\<exists>x. m = Ok x \<and> f x = Err e)"
  by (cases m) auto

lemma bind_res_eq_Panic: "bind_res m f = Panic \<longleftrightarrow> m = Panic \<or> (\<exists>x. m = Ok x \<and> f x = Panic)"
  by (cases m) auto

lemma is_ok_iff: "is_ok r \<longleftrightarrow> (\<exists>x. r = Ok x)"
  by (cases r) auto

lemma bind_res_Ok_right [simp]: "bind_res m Ok = m"
  by (cases m) auto

text \<open>A slice index: Go panics out of range.\<close>

definition slice_get :: "'a list \<Rightarrow> nat \<Rightarrow> 'a res" where
  "slice_get xs i = (if i < length xs then Ok (xs ! i) else Panic)"

lemma slice_get_Ok [simp]: "i < length xs \<Longrightarrow> slice_get xs i = Ok (xs ! i)"
  by (simp add: slice_get_def)

lemma slice_get_Panic [simp]: "length xs \<le> i \<Longrightarrow> slice_get xs i = Panic"
  by (simp add: slice_get_def)

text \<open>A loop over a slice that collects results and returns at the first failure.\<close>

fun mapM_res :: "('a \<Rightarrow> 'b res) \<Rightarrow> 'a list \<Rightarrow> 'b list res" where
  "mapM_res f [] = Ok []"
| "mapM_res f (x # xs) =
     bind_res (f x) (\<lambda>y. bind_res (mapM_res f xs) (\<lambda>ys. Ok (y # ys)))"

lemma mapM_res_cong [fundef_cong]:
  "xs = ys \<Longrightarrow> (\<And>x. x \<in> set ys \<Longrightarrow> f x = g x) \<Longrightarrow> mapM_res f xs = mapM_res g ys"
  by (induction ys arbitrary: xs) auto

lemma mapM_res_Ok: "(\<And>x. x \<in> set xs \<Longrightarrow> f x = Ok (g x)) \<Longrightarrow> mapM_res f xs = Ok (map g xs)"
  by (induction xs) auto

lemma mapM_res_eq_OkD: "mapM_res f xs = Ok ys \<Longrightarrow> list_all2 (\<lambda>x y. f x = Ok y) xs ys"
  by (induction xs arbitrary: ys) (auto simp: bind_res_eq_Ok)

section \<open>Operations that change a state\<close>

text \<open>
  A method with a pointer receiver: from the state before to the state after and the result.
  An error or a panic keeps what has been changed until then.
\<close>

type_synonym ('s, 'a) action = "'s \<Rightarrow> 's \<times> 'a res"

definition bind_act :: "('s, 'a) action \<Rightarrow> ('a \<Rightarrow> ('s, 'b) action) \<Rightarrow> ('s, 'b) action" where
  "bind_act m f s =
     (case m s of
        (s', Ok x) \<Rightarrow> f x s'
      | (s', Err e) \<Rightarrow> (s', Err e)
      | (s', Panic) \<Rightarrow> (s', Panic))"

definition return_act :: "'a \<Rightarrow> ('s, 'a) action" where
  "return_act x s = (s, Ok x)"

definition fail_act :: "err \<Rightarrow> ('s, 'a) action" where
  "fail_act e s = (s, Err e)"

text \<open>A call that only reads, and one that returns the changed state unless it fails.\<close>

definition reads :: "('s \<Rightarrow> 'a res) \<Rightarrow> ('s, 'a) action" where
  "reads f s = (s, f s)"

definition writes :: "('s \<Rightarrow> 's res) \<Rightarrow> ('s, unit) action" where
  "writes f s = (case f s of Ok s' \<Rightarrow> (s', Ok ()) | Err e \<Rightarrow> (s, Err e) | Panic \<Rightarrow> (s, Panic))"

named_theorems act_simps "evaluation of actions"

lemma bind_act_simps [act_simps]:
  "m s = (s', Ok x) \<Longrightarrow> bind_act m f s = f x s'"
  "m s = (s', Err e) \<Longrightarrow> bind_act m f s = (s', Err e)"
  "m s = (s', Panic) \<Longrightarrow> bind_act m f s = (s', Panic)"
  by (simp_all add: bind_act_def)

lemma return_act_simps [act_simps]: "return_act x s = (s, Ok x)"
  by (simp add: return_act_def)

lemma fail_act_simps [act_simps]: "fail_act e s = (s, Err e)"
  by (simp add: fail_act_def)

lemma bind_reads [act_simps]:
  "bind_act (reads f) g s =
     (case f s of Ok x \<Rightarrow> g x s | Err e \<Rightarrow> (s, Err e) | Panic \<Rightarrow> (s, Panic))"
  by (simp add: bind_act_def reads_def split: res.split)

lemma bind_writes [act_simps]:
  "bind_act (writes f) g s =
     (case f s of Ok s' \<Rightarrow> g () s' | Err e \<Rightarrow> (s, Err e) | Panic \<Rightarrow> (s, Panic))"
  by (simp add: bind_act_def writes_def split: res.split)

text \<open>A property of the state that every part of an action keeps.\<close>

definition keeps :: "('s \<Rightarrow> bool) \<Rightarrow> ('s, 'a) action \<Rightarrow> bool" where
  "keeps P m \<longleftrightarrow> (\<forall>s. P s \<longrightarrow> P (fst (m s)))"

lemma keepsD: "keeps P m \<Longrightarrow> P s \<Longrightarrow> P (fst (m s))"
  by (simp add: keeps_def)

lemma keeps_bind [intro]: "keeps P m \<Longrightarrow> (\<And>x. keeps P (f x)) \<Longrightarrow> keeps P (bind_act m f)"
  unfolding keeps_def bind_act_def by (fastforce split: res.split prod.split)

lemma keeps_return [intro, simp]: "keeps P (return_act x)"
  by (simp add: keeps_def return_act_def)

lemma keeps_fail [intro, simp]: "keeps P (fail_act e)"
  by (simp add: keeps_def fail_act_def)

lemma keeps_reads [intro, simp]: "keeps P (reads f)"
  by (simp add: keeps_def reads_def)

lemma keeps_writes: "(\<And>s s'. P s \<Longrightarrow> f s = Ok s' \<Longrightarrow> P s') \<Longrightarrow> keeps P (writes f)"
  by (simp add: keeps_def writes_def split: res.split)

end
