(* ===== verification/GoStd.thy ===== *)
theory GoStd
  imports Prelude "HOL-Library.List_Lexorder"
begin

text \<open>
  What the code uses of Go's standard library: \<open>encoding/binary\<close> (big-endian numbers),
  \<open>bytes.Compare\<close> (the order of \<open>HOL-Library.List_Lexorder\<close> on byte lists),
  \<open>math.Ceil(math.Log2(float64(h)))\<close>, \<open>sort.Sort\<close> over a \<open>Less\<close> method, maps whose
  values are slices grown by \<open>append\<close>, and addresses of package \<open>net/netip\<close>.
\<close>

section \<open>Big-endian numbers\<close>

fun be_bytes :: "nat \<Rightarrow> nat \<Rightarrow> bytes" where
  "be_bytes 0 n = []"
| "be_bytes (Suc k) n = be_bytes k (n div 256) @ [word_of_nat n]"

definition be_nat :: "bytes \<Rightarrow> nat" where
  "be_nat bs = foldl (\<lambda>a b. a * 256 + unat b) 0 bs"

lemma length_be_bytes [simp]: "length (be_bytes k n) = k"
  by (induction k arbitrary: n) auto

lemma be_nat_Nil [simp]: "be_nat [] = 0"
  by (simp add: be_nat_def)

lemma be_nat_snoc [simp]: "be_nat (bs @ [b]) = be_nat bs * 256 + unat b"
  by (simp add: be_nat_def)

lemma unat_byte_less: "unat (b :: byte) < 256"
  using unsigned_less [of b, where 'a = nat] by simp

lemma unat_u64_less: "unat (w :: u64) < 256 ^ 8"
  using unsigned_less [of w, where 'a = nat] by simp

lemma be_nat_bound: "be_nat bs < 256 ^ length bs"
proof (induction bs rule: rev_induct)
  case (snoc b bs)
  have "be_nat bs * 256 + unat b < (be_nat bs + 1) * 256"
    using unat_byte_less [of b] by simp
  also have "\<dots> \<le> 256 ^ length bs * 256"
    using snoc by (intro mult_right_mono) auto
  finally show ?case by (simp add: mult.commute)
qed simp

lemma be_nat_be_bytes: "be_nat (be_bytes k n) = n mod 256 ^ k"
proof (induction k arbitrary: n)
  case (Suc k)
  have "be_nat (be_bytes (Suc k) n) = (n div 256) mod 256 ^ k * 256 + n mod 256"
    by (simp add: Suc unat_of_nat)
  also have "\<dots> = n mod 256 ^ Suc k"
    by (simp add: mod_mult2_eq mult.commute)
  finally show ?case .
qed simp

lemma be_bytes_be_nat: "length bs = k \<Longrightarrow> be_bytes k (be_nat bs) = bs"
proof (induction k arbitrary: bs)
  case (Suc k)
  then obtain xs b where bs: "bs = xs @ [b]" and len: "length xs = k"
    by (metis length_Suc_conv_rev)
  have "(be_nat xs * 256 + unat b) div 256 = be_nat xs"
    using unat_byte_less [of b] by simp
  moreover have "unat (word_of_nat (be_nat xs * 256 + unat b) :: byte) = unat b"
    using unat_byte_less [of b] by (simp only: unat_of_nat) simp
  then have "word_of_nat (be_nat xs * 256 + unat b) = b"
    by (simp only: word_unat_eq_iff)
  ultimately show ?case
    using Suc.IH [OF len] by (simp add: bs)
qed simp

lemma be_nat_Cons: "be_nat (b # bs) = unat b * 256 ^ length bs + be_nat bs"
  by (induction bs rule: rev_induct) (auto simp: be_nat_def algebra_simps)

lemma be_nat_less_iff:
  "length xs = length ys \<Longrightarrow> be_nat xs < be_nat ys \<longleftrightarrow> xs < ys"
proof (induction xs ys rule: list_induct2)
  case (Cons x xs y ys)
  have bx: "be_nat xs < 256 ^ length ys" and by': "be_nat ys < 256 ^ length ys"
    using be_nat_bound [of xs] be_nat_bound [of ys] Cons.hyps by auto
  consider "x = y" | "x < y" | "y < x" by (rule linorder_cases)
  then show ?case
  proof cases
    case 1
    with Cons show ?thesis by (simp add: be_nat_Cons)
  next
    case 2
    then have "unat x + 1 \<le> unat y" by (simp add: word_less_nat_alt)
    then have "(unat x + 1) * 256 ^ length ys \<le> unat y * 256 ^ length ys"
      by (rule mult_right_mono) simp
    with bx have "be_nat (x # xs) < be_nat (y # ys)"
      using Cons.hyps by (simp add: be_nat_Cons)
    with 2 show ?thesis by simp
  next
    case 3
    then have "unat y + 1 \<le> unat x" by (simp add: word_less_nat_alt)
    then have "(unat y + 1) * 256 ^ length ys \<le> unat x * 256 ^ length ys"
      by (rule mult_right_mono) simp
    with by' have "be_nat (y # ys) < be_nat (x # xs)"
      using Cons.hyps by (simp add: be_nat_Cons)
    with 3 show ?thesis by auto
  qed
qed simp

text \<open>\<open>binary.BigEndian.PutUint64\<close> and \<open>Uint64\<close>; the latter panics on a short slice.\<close>

definition put_uint64 :: "u64 \<Rightarrow> bytes" where
  "put_uint64 w = be_bytes 8 (unat w)"

definition get_uint64 :: "bytes \<Rightarrow> u64 res" where
  "get_uint64 bs = (if length bs < 8 then Panic else Ok (word_of_nat (be_nat (take 8 bs))))"

lemma length_put_uint64 [simp]: "length (put_uint64 w) = 8"
  by (simp add: put_uint64_def)

lemma get_put_uint64 [simp]: "get_uint64 (put_uint64 w) = Ok w"
  using unat_u64_less [of w] by (simp add: get_uint64_def put_uint64_def be_nat_be_bytes)

lemma put_get_uint64: "length bs = 8 \<Longrightarrow> get_uint64 bs = Ok w \<Longrightarrow> put_uint64 w = bs"
proof -
  assume len: "length bs = 8" and w: "get_uint64 bs = Ok w"
  from len be_nat_bound [of bs] have "unat (word_of_nat (be_nat bs) :: u64) = be_nat bs"
    by (simp add: unat_of_nat)
  with len w be_bytes_be_nat [OF len] show "put_uint64 w = bs"
    by (auto simp: get_uint64_def put_uint64_def)
qed

lemma put_uint64_inject [simp]: "put_uint64 v = put_uint64 w \<longleftrightarrow> v = w"
  by (metis get_put_uint64 res.inject(1))

lemma put_uint64_less_iff: "put_uint64 v < put_uint64 w \<longleftrightarrow> v < w"
proof -
  have "be_nat (put_uint64 v) = unat v" for v :: u64
    using unat_u64_less [of v] by (simp add: put_uint64_def be_nat_be_bytes)
  then show ?thesis
    using be_nat_less_iff [of "put_uint64 v" "put_uint64 w"]
    by (simp add: word_less_nat_alt)
qed

section \<open>Rounding up a binary logarithm\<close>

text \<open>
  \<open>math.Ceil(math.Log2(float64(h)))\<close> for a 32-bit \<open>h > 0\<close>. Go computes \<open>Log2\<close> from the
  binary exponent, exactly at the powers of two; between two powers the double is at least
  \<open>2 ^ -31\<close> away from an integer, so rounding up gives the real ceiling, \<open>ceillog2\<close>.
\<close>

lemma less_ceillog2_iff: "0 < h \<Longrightarrow> l < ceillog2 h \<longleftrightarrow> 2 ^ l < h"
  using ceillog2_le_iff [of h l] by linarith

lemma ceillog2_code_rec [code]:
  "ceillog2 n = (if n \<le> 1 then 0 else Suc (ceillog2 ((n + 1) div 2)))"
proof (cases "n \<le> 1")
  case False
  have "l < ceillog2 n \<longleftrightarrow> l < Suc (ceillog2 ((n + 1) div 2))" for l
  proof (cases l)
    case 0
    with False show ?thesis by (simp add: less_ceillog2_iff)
  next
    case (Suc k)
    have "(2::nat) ^ Suc k < n \<longleftrightarrow> 2 ^ k < (n + 1) div 2"
      by (simp only: power_Suc) linarith
    with Suc False show ?thesis by (simp add: less_ceillog2_iff)
  qed
  then have "ceillog2 n = Suc (ceillog2 ((n + 1) div 2))"
    by (metis less_irrefl linorder_neqE_nat)
  with False show ?thesis by simp
qed simp

section \<open>Sorting with a \<open>Less\<close> method\<close>

text \<open>
  \<open>sort.Sort(x)\<close> permutes \<open>x\<close> so that no element is less than one before it; it does
  not say in which order it leaves elements that are not related by \<open>Less\<close>. The model is
  insertion sort. Where the code sorts a slice it built by ranging over a map, the order of
  the slice before sorting is arbitrary in the model too, so the results of the model are
  exactly the permutations \<open>sort.Sort\<close> may return.
\<close>

fun insert_by :: "('a \<Rightarrow> 'a \<Rightarrow> bool) \<Rightarrow> 'a \<Rightarrow> 'a list \<Rightarrow> 'a list" where
  "insert_by lt x [] = [x]"
| "insert_by lt x (y # ys) = (if lt y x then y # insert_by lt x ys else x # y # ys)"

fun sort_by :: "('a \<Rightarrow> 'a \<Rightarrow> bool) \<Rightarrow> 'a list \<Rightarrow> 'a list" where
  "sort_by lt [] = []"
| "sort_by lt (x # xs) = insert_by lt x (sort_by lt xs)"

lemma mset_insert_by [simp]: "mset (insert_by lt x xs) = add_mset x (mset xs)"
  by (induction xs) auto

lemma mset_sort_by [simp]: "mset (sort_by lt xs) = mset xs"
  by (induction xs) auto

lemma set_sort_by [simp]: "set (sort_by lt xs) = set xs"
  by (metis mset_sort_by set_mset_mset)

lemma length_sort_by [simp]: "length (sort_by lt xs) = length xs"
  by (metis mset_sort_by size_mset)

lemma sort_by_eq_Nil [simp]: "sort_by lt xs = [] \<longleftrightarrow> xs = []"
  by (metis length_0_conv length_sort_by)

lemma distinct_map_sort_by [simp]: "distinct (map f (sort_by lt xs)) = distinct (map f xs)"
  by (metis mset_eq_imp_distinct_iff mset_map mset_sort_by)

text \<open>What \<open>sort.Interface\<close> asks of a \<open>Less\<close> method: a strict weak order.\<close>

locale strict_weak_order =
  fixes lt :: "'a \<Rightarrow> 'a \<Rightarrow> bool"
  assumes less_asym: "lt x y \<Longrightarrow> \<not> lt y x"
    and less_split: "lt x z \<Longrightarrow> lt x y \<or> lt y z"

context strict_weak_order
begin

lemma not_less_trans: "\<not> lt y x \<Longrightarrow> \<not> lt z y \<Longrightarrow> \<not> lt z x"
  using less_split by blast

lemma sorted_insert_by:
  "sorted_wrt (\<lambda>x y. \<not> lt y x) xs \<Longrightarrow> sorted_wrt (\<lambda>x y. \<not> lt y x) (insert_by lt x xs)"
proof (induction xs)
  case (Cons y ys)
  have set_ins: "set (insert_by lt x ys) = insert x (set ys)"
    by (metis mset_insert_by set_mset_add_mset_insert set_mset_mset)
  show ?case
  proof (cases "lt y x")
    case True
    then have "\<forall>z \<in> set (insert_by lt x ys). \<not> lt z y"
      using Cons.prems less_asym by (simp add: set_ins)
    with True Cons show ?thesis by simp
  next
    case False
    then have "\<forall>z \<in> set ys. \<not> lt z x"
      using Cons.prems not_less_trans by auto
    with False Cons.prems show ?thesis by simp
  qed
qed simp

lemma sorted_sort_by: "sorted_wrt (\<lambda>x y. \<not> lt y x) (sort_by lt xs)"
  by (induction xs) (auto simp: sorted_insert_by)

lemma sort_by_head_least:
  assumes "sort_by lt xs = y # ys" and "x \<in> set xs"
  shows "\<not> lt x y"
proof -
  have "x \<in> set (y # ys)" using assms by (metis set_sort_by)
  moreover have "sorted_wrt (\<lambda>x y. \<not> lt y x) (y # ys)"
    using assms(1) sorted_sort_by by metis
  ultimately show ?thesis using less_asym by auto
qed

end

section \<open>Maps of slices\<close>

text \<open>\<open>m[k] = append(m[k], v)\<close> on a \<open>map[K][]V\<close>, kept as an association list.\<close>

fun append_at :: "'k \<Rightarrow> 'v \<Rightarrow> ('k \<times> 'v list) list \<Rightarrow> ('k \<times> 'v list) list" where
  "append_at k v [] = [(k, [v])]"
| "append_at k v ((k', vs) # m) =
     (if k' = k then (k', vs @ [v]) # m else (k', vs) # append_at k v m)"

fun group_by :: "('a \<Rightarrow> 'k) \<Rightarrow> ('a \<Rightarrow> 'v) \<Rightarrow> 'a list \<Rightarrow> ('k \<times> 'v list) list \<Rightarrow> ('k \<times> 'v list) list" where
  "group_by key val [] m = m"
| "group_by key val (x # xs) m = group_by key val xs (append_at (key x) (val x) m)"

lemma map_of_append_at:
  "map_of (append_at k v m) =
     (map_of m)(k \<mapsto> (case map_of m k of None \<Rightarrow> [v] | Some vs \<Rightarrow> vs @ [v]))"
  by (induction k v m rule: append_at.induct) (auto simp: fun_eq_iff)

lemma keys_append_at: "fst ` set (append_at k v m) = insert k (fst ` set m)"
  by (induction k v m rule: append_at.induct) auto

lemma distinct_append_at: "distinct (map fst m) \<Longrightarrow> distinct (map fst (append_at k v m))"
proof (induction k v m rule: append_at.induct)
  case (2 k v k' vs m)
  then show ?case
    using keys_append_at [of k v m] by auto
qed simp

lemma distinct_group_by: "distinct (map fst m) \<Longrightarrow> distinct (map fst (group_by key val xs m))"
  by (induction xs arbitrary: m) (auto simp: distinct_append_at)

lemma map_of_group_by:
  "map_of (group_by key val xs m) k =
     (let ys = map val (filter (\<lambda>x. key x = k) xs) in
      case map_of m k of None \<Rightarrow> (if ys = [] then None else Some ys) | Some vs \<Rightarrow> Some (vs @ ys))"
  by (induction xs arbitrary: m) (auto simp: map_of_append_at Let_def split: option.splits)

lemma group_by_entry:
  "(k, vs) \<in> set (group_by key val xs []) \<longleftrightarrow>
     vs = map val (filter (\<lambda>x. key x = k) xs) \<and> vs \<noteq> []"
proof -
  have "distinct (map fst (group_by key val xs []))"
    by (rule distinct_group_by) simp
  then have "(k, vs) \<in> set (group_by key val xs []) \<longleftrightarrow> map_of (group_by key val xs []) k = Some vs"
    by simp
  then show ?thesis
    by (auto simp: map_of_group_by Let_def split: if_splits)
qed

lemma keys_group_by: "fst ` set (group_by key val xs []) = key ` set xs"
proof -
  have "k \<in> fst ` set (group_by key val xs []) \<longleftrightarrow> k \<in> key ` set xs" for k
  proof -
    have "k \<in> fst ` set (group_by key val xs []) \<longleftrightarrow>
        map_of (group_by key val xs []) k \<noteq> None"
      by (metis domIff dom_map_of_conv_image_fst)
    also have "\<dots> \<longleftrightarrow> k \<in> key ` set xs"
      by (auto simp: map_of_group_by Let_def filter_empty_conv)
    finally show ?thesis .
  qed
  then show ?thesis by blast
qed

section \<open>Network addresses\<close>

text \<open>
  \<open>netip.Addr\<close>: the zero value, an IPv4 address, or an IPv6 address with its zone. \<open>==\<close>
  and \<open>Compare(...) == 0\<close> are equality of values.
\<close>

datatype addr = AddrZero | Addr4 u32 | Addr6 "128 word" string

fun Is4 :: "addr \<Rightarrow> bool" where
  "Is4 (Addr4 _) = True"
| "Is4 _ = False"

fun BitLen :: "addr \<Rightarrow> nat" where
  "BitLen AddrZero = 0"
| "BitLen (Addr4 _) = 32"
| "BitLen (Addr6 _ _) = 128"

fun AsSlice :: "addr \<Rightarrow> bytes" where
  "AsSlice AddrZero = []"
| "AsSlice (Addr4 w) = be_bytes 4 (unat w)"
| "AsSlice (Addr6 w _) = be_bytes 16 (unat w)"

text \<open>\<open>netip.AddrFromSlice\<close>: \<open>None\<close> is its false second result.\<close>

definition AddrFromSlice :: "bytes \<Rightarrow> addr option" where
  "AddrFromSlice bs =
     (if length bs = 4 then Some (Addr4 (word_of_nat (be_nat bs)))
      else if length bs = 16 then Some (Addr6 (word_of_nat (be_nat bs)) [])
      else None)"

text \<open>An IPv6 loopback is \<open>::1\<close>; an IPv4-mapped address is looked at as IPv4.\<close>

fun IsLoopback :: "addr \<Rightarrow> bool" where
  "IsLoopback AddrZero = False"
| "IsLoopback (Addr4 w) = (drop_bit 24 w = 127)"
| "IsLoopback (Addr6 w z) = (w = 1 \<or> drop_bit 24 w = 0xFFFF7F)"

record addr_port =
  ap_addr :: addr
  ap_port :: u16

text \<open>Addresses that survive a round trip through their bytes: valid, and without a zone.\<close>

fun plain :: "addr \<Rightarrow> bool" where
  "plain AddrZero = False"
| "plain (Addr4 _) = True"
| "plain (Addr6 _ z) = (z = [])"

lemma Is4_plain [simp]: "Is4 a \<Longrightarrow> plain a"
  by (cases a) auto

lemma be_nat_u32: "be_nat (be_bytes 4 (unat (w :: u32))) = unat w"
  using unsigned_less [of w, where 'a = nat] by (simp add: be_nat_be_bytes)

lemma be_nat_u128: "be_nat (be_bytes 16 (unat (w :: 128 word))) = unat w"
  using unsigned_less [of w, where 'a = nat] by (simp add: be_nat_be_bytes)

lemma length_AsSlice: "length (AsSlice a) = BitLen a div 8"
  by (cases a) auto

lemma AddrFromSlice_AsSlice: "plain a \<Longrightarrow> AddrFromSlice (AsSlice a) = Some a"
  by (cases a) (auto simp: AddrFromSlice_def be_nat_u32 be_nat_u128)

lemma AsSlice_inject: "plain a \<Longrightarrow> plain b \<Longrightarrow> AsSlice a = AsSlice b \<longleftrightarrow> a = b"
  by (metis AddrFromSlice_AsSlice option.inject)

lemma AsSlice_AddrFromSlice: "AddrFromSlice bs = Some a \<Longrightarrow> AsSlice a = bs \<and> plain a"
proof -
  assume a: "AddrFromSlice bs = Some a"
  have "be_nat bs < 256 ^ length bs" by (rule be_nat_bound)
  with a show ?thesis
    using be_bytes_be_nat [of bs "length bs"]
    by (auto simp: AddrFromSlice_def unat_of_nat split: if_splits)
qed

end
