(* ===== verification/LevelDB.thy ===== *)
theory LevelDB
  imports GoStd
begin

text \<open>
  The key-value store \<open>goleveldb\<close> as the two storages use it. It is not part of the
  repository, so its operations are a record of functions that every definition takes as an
  argument, and what its documentation promises of them is the predicate \<^term>\<open>leveldb_ok\<close>
  (the store answers what was written) and the predicate \<^term>\<open>leveldb_live\<close> (it does not
  fail). The state \<open>'db\<close> is a value: a snapshot of it is frozen by construction.
\<close>

datatype batch_op = BPut bytes bytes | BDelete bytes

type_synonym batch = "batch_op list"

record 'db leveldb =
  db_snapshot :: "'db \<Rightarrow> 'db res"
  db_get :: "'db \<Rightarrow> bytes \<Rightarrow> bytes res"
  db_write :: "'db \<Rightarrow> batch \<Rightarrow> 'db res"
  db_range :: "'db \<Rightarrow> bytes \<Rightarrow> bytes \<Rightarrow> (bytes \<times> bytes) list"

text \<open>What a read of \<open>k\<close> gives after a batch, from what it gave before.\<close>

fun batch_get :: "batch \<Rightarrow> bytes \<Rightarrow> bytes res \<Rightarrow> bytes res" where
  "batch_get [] k r = r"
| "batch_get (BPut k' v # ops) k r = batch_get ops k (if k' = k then Ok v else r)"
| "batch_get (BDelete k' # ops) k r = batch_get ops k (if k' = k then Err ErrNotFound else r)"

lemma batch_get_append [simp]:
  "batch_get (xs @ ys) k r = batch_get ys k (batch_get xs k r)"
  by (induction xs k r rule: batch_get.induct) auto

text \<open>
  Documented behaviour: a snapshot holds the contents at the moment it was taken; a batch is
  applied in order and as a whole; an iterator over \<open>util.Range{Start, Limit}\<close> yields the
  pairs with \<open>Start \<le> key < Limit\<close> in ascending key order.
\<close>

definition leveldb_ok :: "'db leveldb \<Rightarrow> bool" where
  "leveldb_ok L \<longleftrightarrow>
     (\<forall>db sn. db_snapshot L db = Ok sn \<longrightarrow> sn = db) \<and>
     (\<forall>db ops db' k. db_write L db ops = Ok db' \<longrightarrow>
        db_get L db' k = batch_get ops k (db_get L db k)) \<and>
     (\<forall>db s l. sorted_wrt (<) (map fst (db_range L db s l))) \<and>
     (\<forall>db s l k v. (k, v) \<in> set (db_range L db s l) \<longleftrightarrow>
        s \<le> k \<and> k < l \<and> db_get L db k = Ok v)"

definition leveldb_live :: "'db leveldb \<Rightarrow> bool" where
  "leveldb_live L \<longleftrightarrow>
     (\<forall>db. db_snapshot L db = Ok db) \<and>
     (\<forall>db ops. is_ok (db_write L db ops))"

definition db_empty :: "'db leveldb \<Rightarrow> 'db \<Rightarrow> bool" where
  "db_empty L db \<longleftrightarrow> (\<forall>k. db_get L db k = Err ErrNotFound)"

lemma leveldb_okD:
  assumes "leveldb_ok L"
  shows "db_snapshot L db = Ok sn \<Longrightarrow> sn = db"
    and "db_write L db ops = Ok db' \<Longrightarrow> db_get L db' k = batch_get ops k (db_get L db k)"
    and "sorted_wrt (<) (map fst (db_range L db s l))"
    and "(k, v) \<in> set (db_range L db s l) \<longleftrightarrow> s \<le> k \<and> k < l \<and> db_get L db k = Ok v"
proof -
  note ok = assms [unfolded leveldb_ok_def]
  show "db_snapshot L db = Ok sn \<Longrightarrow> sn = db"
    using ok [THEN conjunct1] by simp
  show "db_write L db ops = Ok db' \<Longrightarrow> db_get L db' k = batch_get ops k (db_get L db k)"
    using ok [THEN conjunct2, THEN conjunct1] by simp
  show "sorted_wrt (<) (map fst (db_range L db s l))"
    using ok [THEN conjunct2, THEN conjunct2, THEN conjunct1] by simp
  show "(k, v) \<in> set (db_range L db s l) \<longleftrightarrow> s \<le> k \<and> k < l \<and> db_get L db k = Ok v"
    using ok [THEN conjunct2, THEN conjunct2, THEN conjunct2] by simp
qed

lemma leveldb_liveD:
  assumes "leveldb_live L"
  shows "db_snapshot L db = Ok db" and "\<exists>db'. db_write L db ops = Ok db'"
  using assms unfolding leveldb_live_def is_ok_iff by blast+

text \<open>\<open>sn, err := db.GetSnapshot(); if err != nil { return ... }; defer sn.Release(); ...\<close>\<close>

definition with_snapshot :: "'db leveldb \<Rightarrow> 'db \<Rightarrow> ('db \<Rightarrow> 'a res) \<Rightarrow> 'a res" where
  "with_snapshot L db f = bind_res (db_snapshot L db) f"

lemma with_snapshot_OkD:
  "leveldb_ok L \<Longrightarrow> with_snapshot L db f = Ok y \<Longrightarrow> f db = Ok y"
  by (auto simp: with_snapshot_def bind_res_eq_Ok dest: leveldb_okD(1))

lemma with_snapshot_live [simp]: "leveldb_live L \<Longrightarrow> with_snapshot L db f = f db"
  by (simp add: with_snapshot_def leveldb_liveD)

section \<open>A store in memory\<close>

text \<open>
  A concrete instance of the interface, an association list whose first entry for a key
  counts: it shows that the predicates above can hold together, and the closed examples of
  the development evaluate on it.
\<close>

type_synonym mem = "(bytes \<times> bytes) list"

definition mem_get :: "mem \<Rightarrow> bytes \<Rightarrow> bytes res" where
  "mem_get m k = (case map_of m k of None \<Rightarrow> Err ErrNotFound | Some v \<Rightarrow> Ok v)"

fun mem_write :: "mem \<Rightarrow> batch \<Rightarrow> mem" where
  "mem_write m [] = m"
| "mem_write m (BPut k v # ops) = mem_write ((k, v) # m) ops"
| "mem_write m (BDelete k # ops) = mem_write (filter (\<lambda>p. fst p \<noteq> k) m) ops"

definition mem_range :: "mem \<Rightarrow> bytes \<Rightarrow> bytes \<Rightarrow> (bytes \<times> bytes) list" where
  "mem_range m s l =
     map (\<lambda>k. (k, case map_of m k of None \<Rightarrow> [] | Some v \<Rightarrow> v))
       (sort (remdups (filter (\<lambda>k. s \<le> k \<and> k < l) (map fst m))))"

definition mem_leveldb :: "mem leveldb" where
  "mem_leveldb =
     \<lparr>db_snapshot = Ok, db_get = mem_get, db_write = (\<lambda>m ops. Ok (mem_write m ops)),
      db_range = mem_range\<rparr>"

lemma map_of_filter_key:
  "map_of (filter (\<lambda>p. fst p \<noteq> k') m) k = (if k = k' then None else map_of m k)"
  by (induction m) auto

lemma mem_get_write: "mem_get (mem_write m ops) k = batch_get ops k (mem_get m k)"
  by (induction m ops rule: mem_write.induct)
     (auto simp: mem_get_def map_of_filter_key)

lemma mem_range_sorted: "sorted_wrt (<) (map fst (mem_range m s l))"
  by (simp add: mem_range_def comp_def strict_sorted_iff)

lemma mem_range_iff:
  "(k, v) \<in> set (mem_range m s l) \<longleftrightarrow> s \<le> k \<and> k < l \<and> map_of m k = Some v"
proof -
  have "map_of m k = Some v \<Longrightarrow> k \<in> fst ` set m"
    by (metis domI dom_map_of_conv_image_fst)
  moreover have "k \<in> fst ` set m \<longleftrightarrow> map_of m k \<noteq> None"
    by (metis domIff dom_map_of_conv_image_fst)
  ultimately show ?thesis
    unfolding mem_range_def by (cases "map_of m k") auto
qed

theorem mem_leveldb_ok: "leveldb_ok mem_leveldb"
proof -
  have "mem_get m k = Ok v \<longleftrightarrow> map_of m k = Some v" for m k v
    by (auto simp: mem_get_def split: option.splits)
  then show ?thesis
    by (simp add: leveldb_ok_def mem_leveldb_def mem_get_write mem_range_sorted mem_range_iff)
qed

theorem mem_leveldb_live: "leveldb_live mem_leveldb"
  by (simp add: leveldb_live_def mem_leveldb_def)

theorem mem_empty_ok: "db_empty mem_leveldb []"
  by (simp add: db_empty_def mem_leveldb_def mem_get_def)

end
