(* ===== verification/ChainsEntities.thy ===== *)
theory ChainsEntities
  imports LevelDB
begin

text \<open>
  The data of package \<open>chains\<close> (\<open>chains/entities.go\<close>, the records of
  \<open>chains/storage_entities.go\<close>, the scores of \<open>chains/utils.go\<close>) and the record of the
  third-party functions the package calls.

  A \<open>*big.Int\<close> is an \<^typ>\<open>int option\<close>, \<open>None\<close> for the nil pointer. A byte slice is a
  list; the code never tells a nil slice from an empty one. A \<open>proto.BlockID\<close> is a value of
  the type \<open>'id\<close>: the code compares it with \<open>==\<close> and converts it with the functions of the
  record below. Times are milliseconds.
\<close>

section \<open>Messages of package \<open>proto\<close>: the fields the code reads\<close>

record 'id proto_block =
  BlockID :: 'id
  BlockParent :: 'id
  BlockTimestamp :: u64
  BlockBaseTarget :: u64
  GeneratorPublicKey :: bytes

record 'id micro_block_inv =
  TotalBlockID :: 'id
  Reference :: 'id

section \<open>Stored records\<close>

record block =
  bHeight :: u32
  bTimestamp :: u64
  bScore :: "int option"
  bID :: bytes
  bParent :: bytes
  bGenerator :: bytes

record link =
  lHeight :: u32
  lBlockID :: bytes
  lParents :: "u64 list"

section \<open>Entities handed to callers\<close>

record 'id Block =
  BlkID :: 'id
  BlkParent :: 'id
  BlkHeight :: u32
  BlkGenerator :: bytes
  BlkScore :: "int option"
  BlkTimestamp :: int

record 'id Head =
  HeadID :: u64
  HeadBlockID :: 'id

record 'id Leash =
  LeashAddr :: addr
  LeashBlockID :: 'id

record Stats =
  Short :: int
  Long :: int

record 'id Fork =
  Longest :: bool
  HeadBlock :: 'id
  HeadTimestamp :: int
  HeadGenerator :: bytes
  HeadHeight :: u32
  ForkScore :: "int option"
  PeersCount :: int
  ForkPeers :: "addr list"
  LastCommonBlock :: 'id
  ForkLength :: int

record GeneratorStats =
  Generator :: bytes
  Blocks :: int

text \<open>
  \<open>a.Cmp(b)\<close> of two \<open>*big.Int\<close>: the sign of the difference. A pointer equals itself, so two
  nil pointers compare as equal; one nil pointer alone is dereferenced and panics.
\<close>

fun score_cmp :: "int option \<Rightarrow> int option \<Rightarrow> int res" where
  "score_cmp (Some a) (Some b) = Ok (if a < b then -1 else if a = b then 0 else 1)"
| "score_cmp None None = Ok 0"
| "score_cmp _ _ = Panic"

text \<open>
  The \<open>Less\<close> methods of \<open>byScoreAndPeersDesc\<close> and \<open>byBlocksCountDesc\<close>. \<open>Cmp\<close> inside the
  former panics when exactly one score is nil, and sorting a slice compares some nil score
  with some other one when it holds both: \<open>sort_forks\<close> is the whole call of \<open>sort.Sort\<close>.
\<close>

definition score_value :: "int option \<Rightarrow> int" where
  "score_value s = (case s of Some v \<Rightarrow> v | None \<Rightarrow> 0)"

definition fork_less :: "'id Fork \<Rightarrow> 'id Fork \<Rightarrow> bool" where
  "fork_less a b =
     (if score_value (ForkScore a) = score_value (ForkScore b)
      then length (ForkPeers a) > length (ForkPeers b)
      else score_value (ForkScore a) > score_value (ForkScore b))"

definition sort_forks :: "'id Fork list \<Rightarrow> 'id Fork list res" where
  "sort_forks r =
     (if (\<exists>f \<in> set r. ForkScore f = None) \<and> (\<exists>f \<in> set r. ForkScore f \<noteq> None) then Panic
      else Ok (sort_by fork_less r))"

definition generator_less :: "GeneratorStats \<Rightarrow> GeneratorStats \<Rightarrow> bool" where
  "generator_less a b \<longleftrightarrow> Blocks a > Blocks b"

interpretation fork_order: strict_weak_order fork_less
  by unfold_locales (auto simp: fork_less_def split: if_splits)

interpretation generator_order: strict_weak_order generator_less
  by unfold_locales (auto simp: generator_less_def)

section \<open>Scores\<close>

text \<open>\<open>math.MaxInt64\<close>, and \<open>maxBlockScore\<close>, which is \<open>2 ^ 64\<close>.\<close>

definition MaxInt64 :: nat where
  "MaxInt64 = 9223372036854775807"

definition maxBlockScore :: int where
  "maxBlockScore = 18446744073709551616"

definition calculateScore :: "u64 \<Rightarrow> int res" where
  "calculateScore baseTarget =
     (if baseTarget = 0 then Ok 0
      else if unat baseTarget > MaxInt64 then Panic
      else Ok (maxBlockScore div int (unat baseTarget)))"

definition calculateCumulativeScore :: "int option \<Rightarrow> u64 \<Rightarrow> int res" where
  "calculateCumulativeScore parentScore baseTarget =
     bind_res (calculateScore baseTarget) (\<lambda>s.
       case parentScore of None \<Rightarrow> Ok s | Some p \<Rightarrow> Ok (s + p))"

text \<open>
  A non-zero base target below \<open>2 ^ 63\<close> scores at least 2: \<open>2 ^ 64\<close> is divided by less
  than half of it.
\<close>

lemma calculateScore_ge_2:
  assumes "calculateScore bt = Ok s" and "bt \<noteq> 0"
  shows "2 \<le> s"
proof -
  have le: "unat bt \<le> MaxInt64" and s: "s = maxBlockScore div int (unat bt)"
    using assms by (auto simp: calculateScore_def split: if_splits)
  from \<open>bt \<noteq> 0\<close> have pos: "0 < unat bt"
    by (simp add: unat_gt_0)
  have "maxBlockScore div int MaxInt64 \<le> s"
    unfolding s using le pos
    by (intro zdiv_mono2) (simp add: maxBlockScore_def, simp_all only: of_nat_0_less_iff of_nat_le_iff)
  then show ?thesis
    by (simp add: maxBlockScore_def MaxInt64_def)
qed

lemma calculateScore_nonneg: "calculateScore bt = Ok s \<Longrightarrow> 0 \<le> s"
  using calculateScore_ge_2 [of bt s] by (cases "bt = 0") (auto simp: calculateScore_def)

section \<open>Third-party functions\<close>

text \<open>
  \<open>block_marshal\<close>, \dots: \<open>cbor.Marshal\<close> and \<open>cbor.Unmarshal\<close> of the two stored records.
  \<open>id_bytes\<close>: \<open>BlockID.Bytes\<close>; \<open>id_of_bytes\<close>: \<open>proto.NewBlockIDFromBytes\<close>; \<open>id_zero\<close>: the
  zero \<open>proto.BlockID\<close>. \<open>address_of_key\<close>: \<open>proto.NewAddressFromPublicKey\<close>;
  \<open>address_of_bytes\<close>: \<open>proto.NewAddressFromBytes\<close>. \<open>range_ids\<close> and \<open>range_addresses\<close>: the
  order in which \<open>for k := range m\<close> visits the keys of a map, which Go leaves open.
\<close>

record ('db, 'id) env =
  ldb :: "'db leveldb"
  block_marshal :: "block \<Rightarrow> bytes res"
  block_unmarshal :: "bytes \<Rightarrow> block res"
  link_marshal :: "link \<Rightarrow> bytes res"
  link_unmarshal :: "bytes \<Rightarrow> link res"
  id_bytes :: "'id \<Rightarrow> bytes"
  id_of_bytes :: "bytes \<Rightarrow> 'id res"
  id_zero :: 'id
  address_of_key :: "byte \<Rightarrow> bytes \<Rightarrow> bytes res"
  address_of_bytes :: "bytes \<Rightarrow> bytes res"
  range_ids :: "'id list \<Rightarrow> 'id list"
  range_addresses :: "bytes list \<Rightarrow> bytes list"

text \<open>
  What their documentation promises: decoding undoes encoding; block IDs are digests of 32 or
  signatures of 64 bytes; an address made from a key is a valid address; a range visits every
  key once.
\<close>

definition env_ok :: "('db, 'id) env \<Rightarrow> bool" where
  "env_ok E \<longleftrightarrow>
     leveldb_ok (ldb E) \<and>
     (\<forall>b buf. block_marshal E b = Ok buf \<longrightarrow> block_unmarshal E buf = Ok b) \<and>
     (\<forall>l buf. link_marshal E l = Ok buf \<longrightarrow> link_unmarshal E buf = Ok l) \<and>
     (\<forall>i. id_of_bytes E (id_bytes E i) = Ok i) \<and>
     (\<forall>bs i. id_of_bytes E bs = Ok i \<longrightarrow> id_bytes E i = bs) \<and>
     (\<forall>i. length (id_bytes E i) \<in> {32, 64}) \<and>
     (\<forall>s pk a. address_of_key E s pk = Ok a \<longrightarrow> address_of_bytes E a = Ok a) \<and>
     (\<forall>ks. mset (range_ids E ks) = mset ks) \<and>
     (\<forall>ks. mset (range_addresses E ks) = mset ks)"

text \<open>None of them fails on what the storage hands it.\<close>

definition env_live :: "('db, 'id) env \<Rightarrow> bool" where
  "env_live E \<longleftrightarrow>
     leveldb_live (ldb E) \<and>
     (\<forall>b. is_ok (block_marshal E b)) \<and>
     (\<forall>l. is_ok (link_marshal E l)) \<and>
     (\<forall>s pk. is_ok (address_of_key E s pk))"

lemma env_okD:
  assumes "env_ok E"
  shows "leveldb_ok (ldb E)"
    and "block_marshal E b = Ok buf \<Longrightarrow> block_unmarshal E buf = Ok b"
    and "link_marshal E l = Ok buf \<Longrightarrow> link_unmarshal E buf = Ok l"
    and "id_of_bytes E (id_bytes E i) = Ok i"
    and "id_of_bytes E bs = Ok i \<Longrightarrow> id_bytes E i = bs"
    and "length (id_bytes E i) = 32 \<or> length (id_bytes E i) = 64"
    and "address_of_key E s pk = Ok a \<Longrightarrow> address_of_bytes E a = Ok a"
    and "mset (range_ids E ks) = mset ks"
    and "mset (range_addresses E as) = mset as"
  using assms unfolding env_ok_def by simp_all

lemma env_liveD:
  assumes "env_live E"
  shows "leveldb_live (ldb E)"
    and "\<exists>buf. block_marshal E b = Ok buf"
    and "\<exists>buf. link_marshal E l = Ok buf"
    and "\<exists>a. address_of_key E s pk = Ok a"
  using assms unfolding env_live_def is_ok_iff by simp_all

text \<open>\<open>for k, v := range m\<close> over a map of slices: its entries in the order of the runtime.\<close>

definition range_map :: "('k list \<Rightarrow> 'k list) \<Rightarrow> ('k \<times> 'v list) list \<Rightarrow> ('k \<times> 'v list) list" where
  "range_map order m =
     map (\<lambda>k. (k, case map_of m k of None \<Rightarrow> [] | Some v \<Rightarrow> v)) (order (map fst m))"

lemma mset_range_map:
  assumes "\<And>ks. mset (order ks) = mset ks" and "distinct (map fst m)"
  shows "mset (range_map order m) = mset m"
proof -
  let ?f = "\<lambda>k. (k, case map_of m k of None \<Rightarrow> [] | Some v \<Rightarrow> v)"
  have "mset (range_map order m) = image_mset ?f (mset (order (map fst m)))"
    by (simp add: range_map_def)
  also have "\<dots> = image_mset ?f (mset (map fst m))"
    by (simp only: assms(1))
  also have "\<dots> = mset (map (?f \<circ> fst) m)"
    by (simp only: mset_map image_mset.compositionality)
  also have "map (?f \<circ> fst) m = m"
    using assms(2) by (auto intro!: map_idI)
  finally show ?thesis .
qed

lemma set_range_map:
  "(\<And>ks. mset (order ks) = mset ks) \<Longrightarrow> distinct (map fst m) \<Longrightarrow> set (range_map order m) = set m"
  by (metis mset_range_map mset_eq_setD)

lemma distinct_range_map:
  assumes "\<And>ks. mset (order ks) = mset ks" and "distinct (map fst m)"
  shows "distinct (map fst (range_map order m))"
  using mset_range_map [OF assms] assms(2) by (metis mset_eq_imp_distinct_iff mset_map)

end
