(* ===== verification/Keys.thy ===== *)
theory Keys
  imports ChainsEntities
begin

text \<open>
  The keys of the chains storage (\<open>chains/storage_entities.go\<close> and the constants of
  \<open>chains/storage.go\<close>): their encodings, the round trips, and that keys of different kinds
  never collide. The contract "an encoding of keys and its decoder" is the locale
  \<open>key_codec\<close>; the keys of the peers storage satisfy it too.
\<close>

section \<open>The contract of an encoding\<close>

locale key_codec =
  fixes valid :: "'k \<Rightarrow> bool"
    and enc :: "'k \<Rightarrow> bytes"
    and dec :: "bytes \<Rightarrow> 'k res"
  assumes dec_enc: "valid k \<Longrightarrow> dec (enc k) = Ok k"
    and dec_sound: "dec bs = Ok k \<Longrightarrow> valid k \<and> enc k = bs"

context key_codec
begin

lemma enc_inject: "valid k \<Longrightarrow> valid l \<Longrightarrow> enc k = enc l \<longleftrightarrow> k = l"
  using dec_enc by (metis res.inject(1))

lemma dec_eq_Ok_iff: "dec bs = Ok k \<longleftrightarrow> valid k \<and> bs = enc k"
  using dec_enc dec_sound by blast

lemma mapM_dec: "(\<And>k. k \<in> set ks \<Longrightarrow> valid k) \<Longrightarrow> mapM_res dec (map enc ks) = Ok ks"
  by (induction ks) (auto simp: dec_enc)

end

text \<open>An encoding that keeps an order, so that iterating over keys is iterating in that order.\<close>

locale ordered_key_codec = key_codec valid enc dec
  for valid :: "'k \<Rightarrow> bool" and enc :: "'k \<Rightarrow> bytes" and dec :: "bytes \<Rightarrow> 'k res" +
  fixes before :: "'k \<Rightarrow> 'k \<Rightarrow> bool"
  assumes enc_less: "valid k \<Longrightarrow> valid l \<Longrightarrow> enc k < enc l \<longleftrightarrow> before k l"

context ordered_key_codec
begin

lemma sorted_enc:
  assumes "\<And>k. k \<in> set ks \<Longrightarrow> valid k" and "sorted_wrt (<) (map enc ks)"
  shows "sorted_wrt before ks"
  using assms by (induction ks) (auto simp: enc_less)

end

section \<open>Constants\<close>

definition counterPrefix :: byte where "counterPrefix = 0"
definition blockPrefix :: byte where "blockPrefix = 1"
definition chainPrefix :: byte where "chainPrefix = 2"
definition leashPrefix :: byte where "leashPrefix = 3"
definition headToBlockPrefix :: byte where "headToBlockPrefix = 4"
definition blockToHeadPrefix :: byte where "blockToHeadPrefix = 5"

definition blocksCounter :: byte where "blocksCounter = 0"
definition headsCounter :: byte where "headsCounter = 1"

lemmas prefix_defs =
  counterPrefix_def blockPrefix_def chainPrefix_def leashPrefix_def
  headToBlockPrefix_def blockToHeadPrefix_def blocksCounter_def headsCounter_def

definition prefixSize :: nat where "prefixSize = 1"
definition uint64Size :: nat where "uint64Size = 8"
definition digestSize :: nat where "digestSize = 32"
definition signatureSize :: nat where "signatureSize = 64"

lemmas size_defs = prefixSize_def uint64Size_def digestSize_def signatureSize_def

section \<open>Encodings\<close>

definition idKeyBytes :: "('db, 'id) env \<Rightarrow> byte \<Rightarrow> 'id \<Rightarrow> bytes" where
  "idKeyBytes E prefix i = prefix # id_bytes E i"

definition numKeyBytes :: "byte \<Rightarrow> u64 \<Rightarrow> bytes" where
  "numKeyBytes prefix num = prefix # put_uint64 num"

definition numKeyFromBytes :: "bytes \<Rightarrow> (byte \<times> u64) res" where
  "numKeyFromBytes data =
     (if length data \<noteq> prefixSize + uint64Size then Panic
      else bind_res (slice_get data 0) (\<lambda>p.
           bind_res (get_uint64 (drop prefixSize data)) (\<lambda>n. Ok (p, n))))"

definition addrKeyBytes :: "addr \<Rightarrow> bytes" where
  "addrKeyBytes a = leashPrefix # AsSlice a"

definition addrKeyFromBytes :: "bytes \<Rightarrow> addr res" where
  "addrKeyFromBytes data =
     (if length data \<noteq> prefixSize + 4 \<and> length data \<noteq> prefixSize + 16 then Panic
      else bind_res (slice_get data 0) (\<lambda>p.
           if p \<noteq> leashPrefix then Panic
           else case AddrFromSlice (drop prefixSize data) of
                  None \<Rightarrow> Panic
                | Some a \<Rightarrow> Ok a))"

definition counterKey :: "byte \<Rightarrow> bytes" where
  "counterKey counterID = [counterPrefix, counterID]"

section \<open>Round trips\<close>

lemma numKey_roundtrip: "numKeyFromBytes (numKeyBytes p n) = Ok (p, n)"
  by (simp add: numKeyFromBytes_def numKeyBytes_def size_defs)

lemma numKeyFromBytes_sound:
  assumes "numKeyFromBytes bs = Ok (p, n)"
  shows "numKeyBytes p n = bs"
proof (cases bs)
  case (Cons b rest)
  with assms have "length rest = 8" "b = p" "get_uint64 rest = Ok n"
    by (auto simp: numKeyFromBytes_def size_defs bind_res_eq_Ok split: if_splits)
  with Cons show ?thesis
    using put_get_uint64 by (simp add: numKeyBytes_def)
qed (use assms in \<open>simp add: numKeyFromBytes_def size_defs\<close>)

lemma addrKey_roundtrip: "plain a \<Longrightarrow> addrKeyFromBytes (addrKeyBytes a) = Ok a"
  using AddrFromSlice_AsSlice [of a]
  by (cases a) (simp_all add: addrKeyFromBytes_def addrKeyBytes_def size_defs)

lemma addrKeyFromBytes_sound:
  assumes "addrKeyFromBytes bs = Ok a"
  shows "plain a \<and> addrKeyBytes a = bs"
proof (cases bs)
  case (Cons b rest)
  with assms have "b = leashPrefix" "AddrFromSlice rest = Some a"
    by (auto simp: addrKeyFromBytes_def size_defs split: if_splits option.splits)
  with Cons show ?thesis
    using AsSlice_AddrFromSlice [of rest a] by (simp add: addrKeyBytes_def)
qed (use assms in \<open>simp add: addrKeyFromBytes_def size_defs\<close>)

interpretation num_key: ordered_key_codec
  "\<lambda>_. True" "\<lambda>(p, n). numKeyBytes p n" numKeyFromBytes
  "\<lambda>(p, n) (q, m). p < q \<or> (p = q \<and> n < m)"
proof unfold_locales
  fix k :: "byte \<times> u64"
  show "numKeyFromBytes (case k of (p, n) \<Rightarrow> numKeyBytes p n) = Ok k"
    by (cases k) (simp add: numKey_roundtrip)
next
  fix bs :: bytes and k :: "byte \<times> u64"
  assume "numKeyFromBytes bs = Ok k"
  then show "True \<and> (case k of (p, n) \<Rightarrow> numKeyBytes p n) = bs"
    by (cases k) (simp add: numKeyFromBytes_sound)
next
  fix k l :: "byte \<times> u64"
  show "(case k of (p, n) \<Rightarrow> numKeyBytes p n) < (case l of (p, n) \<Rightarrow> numKeyBytes p n) \<longleftrightarrow>
      (case k of (p, n) \<Rightarrow> \<lambda>(q, m). p < q \<or> (p = q \<and> n < m)) l"
    by (cases k; cases l) (simp add: numKeyBytes_def put_uint64_less_iff)
qed

interpretation addr_key: key_codec plain addrKeyBytes addrKeyFromBytes
  by unfold_locales (simp_all add: addrKey_roundtrip addrKeyFromBytes_sound)

section \<open>Keys of different kinds are different\<close>

named_theorems key_simps "(in)equalities between the keys of the chains storage"

lemma numKey_eq_iff [key_simps]: "numKeyBytes p n = numKeyBytes q m \<longleftrightarrow> p = q \<and> n = m"
  by (simp add: numKeyBytes_def)

lemma idKey_eq_iff [key_simps]:
  "env_ok E \<Longrightarrow> idKeyBytes E p i = idKeyBytes E q j \<longleftrightarrow> p = q \<and> i = j"
  by (auto simp: idKeyBytes_def) (metis env_okD(4) res.inject(1))

lemma addrKey_eq_iff [key_simps]:
  "plain a \<Longrightarrow> plain b \<Longrightarrow> addrKeyBytes a = addrKeyBytes b \<longleftrightarrow> a = b"
  by (rule addr_key.enc_inject)

lemma counterKey_eq_iff [key_simps]: "counterKey c = counterKey d \<longleftrightarrow> c = d"
  by (simp add: counterKey_def)

lemma length_numKey [simp]: "length (numKeyBytes p n) = 9"
  by (simp add: numKeyBytes_def)

lemma idKey_neq_numKey [key_simps]: "env_ok E \<Longrightarrow> idKeyBytes E p i \<noteq> numKeyBytes q n"
  using env_okD(6) [of E i] by (auto simp: idKeyBytes_def numKeyBytes_def)

lemma numKey_neq_idKey [key_simps]: "env_ok E \<Longrightarrow> numKeyBytes q n \<noteq> idKeyBytes E p i"
  by (metis idKey_neq_numKey)

lemma addrKey_neq_numKey [key_simps]: "p \<noteq> leashPrefix \<Longrightarrow> addrKeyBytes a \<noteq> numKeyBytes p n"
  by (auto simp: addrKeyBytes_def numKeyBytes_def)

lemma numKey_neq_addrKey [key_simps]: "p \<noteq> leashPrefix \<Longrightarrow> numKeyBytes p n \<noteq> addrKeyBytes a"
  by (auto simp: addrKeyBytes_def numKeyBytes_def)

lemma addrKey_neq_idKey [key_simps]: "p \<noteq> leashPrefix \<Longrightarrow> addrKeyBytes a \<noteq> idKeyBytes E p i"
  by (auto simp: addrKeyBytes_def idKeyBytes_def)

lemma idKey_neq_addrKey [key_simps]: "p \<noteq> leashPrefix \<Longrightarrow> idKeyBytes E p i \<noteq> addrKeyBytes a"
  by (auto simp: addrKeyBytes_def idKeyBytes_def)

lemma counterKey_neq [key_simps]:
  "p \<noteq> counterPrefix \<Longrightarrow> counterKey c \<noteq> numKeyBytes p n"
  "p \<noteq> counterPrefix \<Longrightarrow> numKeyBytes p n \<noteq> counterKey c"
  "p \<noteq> counterPrefix \<Longrightarrow> counterKey c \<noteq> idKeyBytes E p i"
  "p \<noteq> counterPrefix \<Longrightarrow> idKeyBytes E p i \<noteq> counterKey c"
  "counterKey c \<noteq> addrKeyBytes a"
  "addrKeyBytes a \<noteq> counterKey c"
  by (auto simp: counterKey_def numKeyBytes_def idKeyBytes_def addrKeyBytes_def prefix_defs)

lemma prefix_neq [key_simps, simp]:
  "blockPrefix \<noteq> counterPrefix" "chainPrefix \<noteq> counterPrefix" "leashPrefix \<noteq> counterPrefix"
  "headToBlockPrefix \<noteq> counterPrefix" "blockToHeadPrefix \<noteq> counterPrefix"
  "blockPrefix \<noteq> chainPrefix" "chainPrefix \<noteq> blockPrefix"
  "blockPrefix \<noteq> leashPrefix" "chainPrefix \<noteq> leashPrefix"
  "headToBlockPrefix \<noteq> leashPrefix" "blockToHeadPrefix \<noteq> leashPrefix"
  "blockPrefix \<noteq> headToBlockPrefix" "headToBlockPrefix \<noteq> blockPrefix"
  "blockPrefix \<noteq> blockToHeadPrefix" "blockToHeadPrefix \<noteq> blockPrefix"
  "chainPrefix \<noteq> headToBlockPrefix" "headToBlockPrefix \<noteq> chainPrefix"
  "chainPrefix \<noteq> blockToHeadPrefix" "blockToHeadPrefix \<noteq> chainPrefix"
  "headToBlockPrefix \<noteq> blockToHeadPrefix" "blockToHeadPrefix \<noteq> headToBlockPrefix"
  "blocksCounter \<noteq> headsCounter" "headsCounter \<noteq> blocksCounter"
  by (simp_all add: prefix_defs)

text \<open>The first byte of a key tells what it is the key of.\<close>

lemma hd_keys [simp]:
  "hd (numKeyBytes p n) = p" "hd (idKeyBytes E p i) = p"
  "hd (addrKeyBytes a) = leashPrefix" "hd (counterKey c) = counterPrefix"
  by (simp_all add: numKeyBytes_def idKeyBytes_def addrKeyBytes_def counterKey_def)

end
