(* ===== verification/Storage.thy ===== *)
theory Storage
  imports Keys
begin

text \<open>
  \<open>chains/storage.go\<close>: the store of blocks, links, heads and leashes, method by method. A
  \<open>*storage\<close> is a value of the store \<open>'db\<close> with the functions \<^typ>\<open>('db, 'id) env\<close>; a method
  that writes returns the new store, a method that fails leaves it alone. A \<open>*leveldb.Batch\<close>
  is the list of the operations put into it so far.
\<close>

section \<open>Typed reads\<close>

definition getCounter :: "('db, 'id) env \<Rightarrow> 'db \<Rightarrow> byte \<Rightarrow> u64 res" where
  "getCounter E sn counterID =
     (case db_get (ldb E) sn (counterKey counterID) of
        Err ErrNotFound \<Rightarrow> Ok 0
      | Err e \<Rightarrow> Err e
      | Panic \<Rightarrow> Panic
      | Ok v \<Rightarrow> if length v \<noteq> uint64Size then Panic else get_uint64 v)"

definition getNumOfBlockID :: "('db, 'id) env \<Rightarrow> 'db \<Rightarrow> 'id \<Rightarrow> u64 res" where
  "getNumOfBlockID E sn i =
     bind_res (db_get (ldb E) sn (idKeyBytes E blockPrefix i)) (\<lambda>v.
     if length v \<noteq> uint64Size then Err ErrSize else get_uint64 v)"

definition getBlock :: "('db, 'id) env \<Rightarrow> 'db \<Rightarrow> u64 \<Rightarrow> block res" where
  "getBlock E sn num =
     bind_res (db_get (ldb E) sn (numKeyBytes blockPrefix num)) (block_unmarshal E)"

definition getLink :: "('db, 'id) env \<Rightarrow> 'db \<Rightarrow> u64 \<Rightarrow> link res" where
  "getLink E sn num =
     bind_res (db_get (ldb E) sn (numKeyBytes chainPrefix num)) (link_unmarshal E)"

definition getBlockByID :: "('db, 'id) env \<Rightarrow> 'db \<Rightarrow> 'id \<Rightarrow> block res" where
  "getBlockByID E sn i = bind_res (getNumOfBlockID E sn i) (getBlock E sn)"

definition getLinkByID :: "('db, 'id) env \<Rightarrow> 'db \<Rightarrow> 'id \<Rightarrow> link res" where
  "getLinkByID E sn i = bind_res (getNumOfBlockID E sn i) (getLink E sn)"

definition getLeash :: "('db, 'id) env \<Rightarrow> 'db \<Rightarrow> addr \<Rightarrow> 'id res" where
  "getLeash E sn a =
     bind_res (db_get (ldb E) sn (addrKeyBytes a)) (\<lambda>v.
     if length v \<noteq> digestSize \<and> length v \<noteq> signatureSize then Err ErrSize
     else id_of_bytes E v)"

definition getHeadByBlockNum :: "('db, 'id) env \<Rightarrow> 'db \<Rightarrow> u64 \<Rightarrow> u64 res" where
  "getHeadByBlockNum E sn blockNum =
     bind_res (db_get (ldb E) sn (numKeyBytes blockToHeadPrefix blockNum)) (\<lambda>v.
     if length v \<noteq> uint64Size then Err ErrSize else get_uint64 v)"

text \<open>
  The two parallel slices \<open>getHeads\<close> returns. The limit of the range is exclusive.
\<close>

definition getHeads :: "('db, 'id) env \<Rightarrow> 'db \<Rightarrow> (u64 list \<times> u64 list) res" where
  "getHeads E sn =
     bind_res
       (mapM_res
         (\<lambda>(k, v).
            bind_res (numKeyFromBytes k) (\<lambda>(prefix, num).
            if prefix \<noteq> headToBlockPrefix then Err ErrPrefix
            else bind_res (get_uint64 v) (\<lambda>bn. Ok (num, bn))))
         (db_range (ldb E) sn (numKeyBytes headToBlockPrefix 0)
            (numKeyBytes headToBlockPrefix (- 1))))
       (\<lambda>r. Ok (map fst r, map snd r))"

section \<open>Typed writes\<close>

definition putCounter :: "batch \<Rightarrow> byte \<Rightarrow> u64 \<Rightarrow> batch" where
  "putCounter batch counterID value = batch @ [BPut (counterKey counterID) (put_uint64 value)]"

definition putID :: "('db, 'id) env \<Rightarrow> batch \<Rightarrow> byte \<Rightarrow> 'id \<Rightarrow> u64 \<Rightarrow> batch" where
  "putID E batch prefix i num = batch @ [BPut (idKeyBytes E prefix i) (put_uint64 num)]"

definition putNum :: "batch \<Rightarrow> byte \<Rightarrow> u64 \<Rightarrow> u64 \<Rightarrow> batch" where
  "putNum batch prefix key value = batch @ [BPut (numKeyBytes prefix key) (put_uint64 value)]"

definition putBlock :: "('db, 'id) env \<Rightarrow> batch \<Rightarrow> u64 \<Rightarrow> block \<Rightarrow> batch res" where
  "putBlock E batch num b =
     bind_res (block_marshal E b) (\<lambda>buf. Ok (batch @ [BPut (numKeyBytes blockPrefix num) buf]))"

definition putLink :: "('db, 'id) env \<Rightarrow> batch \<Rightarrow> u64 \<Rightarrow> link \<Rightarrow> batch res" where
  "putLink E batch num l =
     bind_res (link_marshal E l) (\<lambda>buf. Ok (batch @ [BPut (numKeyBytes chainPrefix num) buf]))"

definition putLeash :: "('db, 'id) env \<Rightarrow> batch \<Rightarrow> addr \<Rightarrow> 'id \<Rightarrow> batch" where
  "putLeash E batch a i = batch @ [BPut (addrKeyBytes a) (id_bytes E i)]"

definition putNewHead :: "('db, 'id) env \<Rightarrow> 'db \<Rightarrow> batch \<Rightarrow> u64 \<Rightarrow> batch res" where
  "putNewHead E sn batch blockNum =
     bind_res (getCounter E sn headsCounter) (\<lambda>headsCnt.
     let headNum = headsCnt + 1;
         batch = putCounter batch headsCounter headNum;
         batch = putNum batch headToBlockPrefix headNum blockNum
     in Ok (putNum batch blockToHeadPrefix blockNum headNum))"

definition putHead :: "('db, 'id) env \<Rightarrow> 'db \<Rightarrow> batch \<Rightarrow> u64 \<Rightarrow> u64 \<Rightarrow> batch res" where
  "putHead E sn batch blockNum parentNum =
     (case getHeadByBlockNum E sn parentNum of
        Err ErrNotFound \<Rightarrow> putNewHead E sn batch blockNum
      | Err e \<Rightarrow> Err e
      | Panic \<Rightarrow> Panic
      | Ok headNum \<Rightarrow>
          let batch = batch @ [BDelete (numKeyBytes blockToHeadPrefix parentNum)];
              batch = putNum batch headToBlockPrefix headNum blockNum
          in Ok (putNum batch blockToHeadPrefix blockNum headNum))"

section \<open>Links: the ancestors at the distances 1, 2, 4, \dots\<close>

text \<open>
  \<open>int(math.Ceil(math.Log2(float64(h))))\<close>. For \<open>h = 0\<close> the logarithm is minus infinity and
  \<open>make\<close> panics on the negative capacity.
\<close>

definition maxParents :: "u32 \<Rightarrow> nat res" where
  "maxParents h = (if h = 0 then Panic else Ok (ceillog2 (unat h)))"

text \<open>The loop of \<open>putNewLinkForBlock\<close>: \<open>k\<close> rounds are left, \<open>l\<close> is the loop variable.\<close>

fun collectParents ::
  "('db, 'id) env \<Rightarrow> 'db \<Rightarrow> nat \<Rightarrow> nat \<Rightarrow> u64 \<Rightarrow> u64 list \<Rightarrow> u64 list res" where
  "collectParents E sn 0 l pn parents = Ok parents"
| "collectParents E sn (Suc k) l pn parents =
     (let parents = parents @ [pn] in
      bind_res (getLink E sn pn) (\<lambda>pl.
      collectParents E sn k (Suc l)
        (if length (lParents pl) > l then lParents pl ! l else pn) parents))"

definition putNewLinkForBlock ::
  "('db, 'id) env \<Rightarrow> 'db \<Rightarrow> batch \<Rightarrow> u64 \<Rightarrow> 'id \<Rightarrow> u32 \<Rightarrow> 'id \<Rightarrow> batch res" where
  "putNewLinkForBlock E sn batch num i h parentID =
     bind_res (getNumOfBlockID E sn parentID) (\<lambda>pn.
     bind_res (maxParents h) (\<lambda>n.
     bind_res (collectParents E sn n 0 pn []) (\<lambda>parents.
     putLink E batch num \<lparr>lHeight = h, lBlockID = id_bytes E i, lParents = parents\<rparr>)))"

section \<open>Putting blocks\<close>

definition newBlock ::
  "('db, 'id) env \<Rightarrow> byte \<Rightarrow> 'id proto_block \<Rightarrow> u32 \<Rightarrow> int option \<Rightarrow> block res" where
  "newBlock E scheme b height parentScore =
     bind_res (address_of_key E scheme (GeneratorPublicKey b)) (\<lambda>ga.
     bind_res (calculateCumulativeScore parentScore (BlockBaseTarget b)) (\<lambda>score.
     Ok \<lparr>bHeight = height, bTimestamp = BlockTimestamp b, bScore = Some score,
         bID = id_bytes E (BlockID b), bParent = id_bytes E (BlockParent b),
         bGenerator = ga\<rparr>))"

definition st_initialize ::
  "('db, 'id) env \<Rightarrow> byte \<Rightarrow> 'id proto_block \<Rightarrow> 'db \<Rightarrow> 'db res" where
  "st_initialize E scheme genesis db =
     with_snapshot (ldb E) db (\<lambda>sn.
     bind_res (getCounter E sn blocksCounter) (\<lambda>blocks.
     if blocks = 0 then
       bind_res (address_of_key E scheme (GeneratorPublicKey genesis)) (\<lambda>ga.
       bind_res (calculateScore (BlockBaseTarget genesis)) (\<lambda>score.
       let b = \<lparr>bHeight = 1, bTimestamp = BlockTimestamp genesis, bScore = Some score,
                bID = id_bytes E (BlockID genesis), bParent = [], bGenerator = ga\<rparr> in
       bind_res (putBlock E [] 1 b) (\<lambda>batch.
       let batch = putCounter batch blocksCounter 1;
           batch = putID E batch blockPrefix (BlockID genesis) 1;
           l = \<lparr>lHeight = 1, lBlockID = id_bytes E (BlockID genesis), lParents = []\<rparr> in
       bind_res (putLink E batch 1 l) (\<lambda>batch.
       let batch = putCounter batch headsCounter 1;
           batch = putNum batch headToBlockPrefix 1 1;
           batch = putNum batch blockToHeadPrefix 1 1
       in db_write (ldb E) db batch))))
     else Ok db))"

definition putProtoBlock ::
  "('db, 'id) env \<Rightarrow> byte \<Rightarrow> 'id proto_block \<Rightarrow> 'db \<Rightarrow> 'db res" where
  "putProtoBlock E scheme blk db =
     with_snapshot (ldb E) db (\<lambda>sn.
     bind_res (getCounter E sn blocksCounter) (\<lambda>n0.
     bind_res (getNumOfBlockID E sn (BlockParent blk)) (\<lambda>parentNum.
     bind_res (getBlock E sn parentNum) (\<lambda>parent.
     let n = n0 + 1;
         batch = putCounter [] blocksCounter n in
     bind_res (newBlock E scheme blk (bHeight parent + 1) (bScore parent)) (\<lambda>b.
     let batch = putID E batch blockPrefix (BlockID blk) n in
     bind_res (putBlock E batch n b) (\<lambda>batch.
     bind_res (putNewLinkForBlock E sn batch n (BlockID blk) (bHeight b) (BlockParent blk)) (\<lambda>batch.
     bind_res (putHead E sn batch n parentNum) (\<lambda>batch.
     db_write (ldb E) db batch))))))))"

definition putMicroBlock ::
  "('db, 'id) env \<Rightarrow> 'id micro_block_inv \<Rightarrow> 'db \<Rightarrow> 'db res" where
  "putMicroBlock E mb db =
     with_snapshot (ldb E) db (\<lambda>sn.
     bind_res (getCounter E sn blocksCounter) (\<lambda>n0.
     bind_res (getNumOfBlockID E sn (Reference mb)) (\<lambda>refNum.
     bind_res (getBlock E sn refNum) (\<lambda>ref.
     bind_res (id_of_bytes E (bParent ref)) (\<lambda>parentID.
     let n = n0 + 1;
         batch = putCounter [] blocksCounter n;
         b = \<lparr>bHeight = bHeight ref, bTimestamp = bTimestamp ref, bScore = bScore ref,
              bID = id_bytes E (TotalBlockID mb), bParent = bParent ref,
              bGenerator = bGenerator ref\<rparr>;
         batch = putID E batch blockPrefix (TotalBlockID mb) n in
     bind_res (putBlock E batch n b) (\<lambda>batch.
     bind_res (putNewLinkForBlock E sn batch n (TotalBlockID mb) (bHeight b) parentID) (\<lambda>batch.
     bind_res (putHead E sn batch n refNum) (\<lambda>batch.
     db_write (ldb E) db batch))))))))"

section \<open>Lookups\<close>

definition st_block :: "('db, 'id) env \<Rightarrow> 'db \<Rightarrow> 'id \<Rightarrow> block res" where
  "st_block E db i = with_snapshot (ldb E) db (\<lambda>sn. getBlockByID E sn i)"

definition st_hasBlock :: "('db, 'id) env \<Rightarrow> 'db \<Rightarrow> 'id \<Rightarrow> bool res" where
  "st_hasBlock E db i =
     with_snapshot (ldb E) db (\<lambda>sn.
     case getNumOfBlockID E sn i of
       Err ErrNotFound \<Rightarrow> Ok False
     | Err e \<Rightarrow> Err e
     | Panic \<Rightarrow> Panic
     | Ok _ \<Rightarrow> Ok True)"

text \<open>The loop of \<open>getAncestors\<close>: \<open>k\<close> rounds are left.\<close>

fun ancestorsLoop ::
  "('db, 'id) env \<Rightarrow> 'db \<Rightarrow> nat \<Rightarrow> u64 \<Rightarrow> 'id list \<Rightarrow> 'id list res" where
  "ancestorsLoop E sn 0 n r = Ok r"
| "ancestorsLoop E sn (Suc k) n r =
     bind_res (getLink E sn n) (\<lambda>l.
     bind_res (id_of_bytes E (lBlockID l)) (\<lambda>pid.
     let r = r @ [pid] in
     if lParents l = [] then Ok r
     else ancestorsLoop E sn k (lParents l ! 0) r))"

text \<open>\<open>make(..., 0, cnt)\<close> panics on a negative capacity.\<close>

definition getAncestors :: "('db, 'id) env \<Rightarrow> 'db \<Rightarrow> 'id \<Rightarrow> int \<Rightarrow> 'id list res" where
  "getAncestors E db i cnt =
     with_snapshot (ldb E) db (\<lambda>sn.
     bind_res (getNumOfBlockID E sn i) (\<lambda>n.
     if cnt < 0 then Panic
     else ancestorsLoop E sn (nat cnt) n []))"

text \<open>\<open>safeTimestamp\<close> and the conversion \<open>getBlocks\<close> and \<open>Linkage.block\<close> write out alike.\<close>

definition safeTimestamp :: "u64 \<Rightarrow> int res" where
  "safeTimestamp ts = (if unat ts < MaxInt64 then Ok (int (unat ts)) else Panic)"

definition toBlock :: "('db, 'id) env \<Rightarrow> block \<Rightarrow> 'id Block res" where
  "toBlock E b =
     bind_res (id_of_bytes E (bID b)) (\<lambda>bID'.
     bind_res (if bParent b \<noteq> [] then id_of_bytes E (bParent b) else Ok (id_zero E)) (\<lambda>pID.
     bind_res (address_of_bytes E (bGenerator b)) (\<lambda>ga.
     bind_res (safeTimestamp (bTimestamp b)) (\<lambda>ts.
     Ok \<lparr>BlkID = bID', BlkParent = pID, BlkHeight = bHeight b, BlkGenerator = ga,
         BlkScore = bScore b, BlkTimestamp = ts\<rparr>))))"

fun blocksLoop ::
  "('db, 'id) env \<Rightarrow> 'db \<Rightarrow> nat \<Rightarrow> u64 \<Rightarrow> 'id Block list \<Rightarrow> 'id Block list res" where
  "blocksLoop E sn 0 n r = Ok r"
| "blocksLoop E sn (Suc k) n r =
     bind_res (getBlock E sn n) (\<lambda>b.
     bind_res (toBlock E b) (\<lambda>bb.
     let r = r @ [bb] in
     if bParent b = [] then Ok r
     else bind_res (getLink E sn n) (\<lambda>l.
          bind_res (slice_get (lParents l) 0) (\<lambda>n'.
          blocksLoop E sn k n' r))))"

definition getBlocks :: "('db, 'id) env \<Rightarrow> 'db \<Rightarrow> 'id \<Rightarrow> int \<Rightarrow> 'id Block list res" where
  "getBlocks E db i cnt =
     with_snapshot (ldb E) db (\<lambda>sn.
     bind_res (getNumOfBlockID E sn i) (\<lambda>n.
     if cnt < 0 then Panic
     else blocksLoop E sn (nat cnt) n []))"

section \<open>The last common ancestor\<close>

text \<open>
  \<open>fastBackwardFarthest\<close>: the first argument after the store is \<open>i + 1\<close>. After a jump the
  loop goes on at the last index of the new link when \<open>i\<close> is out of its range.
\<close>

fun fastBackwardFarthest ::
  "('db, 'id) env \<Rightarrow> 'db \<Rightarrow> nat \<Rightarrow> link \<Rightarrow> link \<Rightarrow> link res" where
  "fastBackwardFarthest E sn 0 farthest other = Ok farthest"
| "fastBackwardFarthest E sn (Suc i) farthest other =
     (if lHeight farthest - push_bit i 1 \<ge> lHeight other
      then bind_res (slice_get (lParents farthest) i) (\<lambda>p.
           bind_res (getLink E sn p) (\<lambda>l.
           if length (lParents l) \<le> i
           then fastBackwardFarthest E sn (length (lParents l)) l other
           else fastBackwardFarthest E sn i l other))
      else fastBackwardFarthest E sn i farthest other)"

text \<open>
  The loop of \<open>lca\<close> that moves both links while their ancestors differ; its first argument
  after the store is \<open>i + 1\<close>. The index \<open>i\<close> is not checked against the new links.
\<close>

fun lcaLoop ::
  "('db, 'id) env \<Rightarrow> 'db \<Rightarrow> nat \<Rightarrow> link \<Rightarrow> link \<Rightarrow> (link \<times> link) res" where
  "lcaLoop E sn 0 farthest other = Ok (farthest, other)"
| "lcaLoop E sn (Suc i) farthest other =
     bind_res (slice_get (lParents farthest) i) (\<lambda>p.
     bind_res (slice_get (lParents other) i) (\<lambda>q.
     if p \<noteq> q
     then bind_res (getLink E sn p) (\<lambda>f.
          bind_res (getLink E sn q) (\<lambda>g.
          lcaLoop E sn i f g))
     else lcaLoop E sn i farthest other))"

definition st_lca :: "('db, 'id) env \<Rightarrow> 'db \<Rightarrow> 'id \<Rightarrow> 'id \<Rightarrow> 'id res" where
  "st_lca E db id1 id2 =
     with_snapshot (ldb E) db (\<lambda>sn.
     bind_res (getLinkByID E sn id1) (\<lambda>l1.
     bind_res (getLinkByID E sn id2) (\<lambda>l2.
     let (farthest, other) = (if lHeight l1 < lHeight l2 then (l2, l1) else (l1, l2)) in
     bind_res (fastBackwardFarthest E sn (length (lParents farthest)) farthest other) (\<lambda>farthest.
     if lBlockID farthest = lBlockID other then id_of_bytes E (lBlockID farthest)
     else bind_res (lcaLoop E sn (length (lParents farthest)) farthest other) (\<lambda>(f, g).
          bind_res (slice_get (lParents f) 0) (\<lambda>p.
          bind_res (getLink E sn p) (\<lambda>l. id_of_bytes E (lBlockID l))))))))"

section \<open>Leashes and heads\<close>

definition st_leash :: "('db, 'id) env \<Rightarrow> 'db \<Rightarrow> addr \<Rightarrow> 'id res" where
  "st_leash E db a = with_snapshot (ldb E) db (\<lambda>sn. getLeash E sn a)"

definition updateLeash :: "('db, 'id) env \<Rightarrow> addr \<Rightarrow> 'id \<Rightarrow> 'db \<Rightarrow> 'db res" where
  "updateLeash E a i db = db_write (ldb E) db (putLeash E [] a i)"

definition st_leashes :: "('db, 'id) env \<Rightarrow> 'db \<Rightarrow> 'id Leash list res" where
  "st_leashes E db =
     with_snapshot (ldb E) db (\<lambda>sn.
     mapM_res
       (\<lambda>(k, v).
          bind_res (addrKeyFromBytes k) (\<lambda>a.
          bind_res (id_of_bytes E v) (\<lambda>i. Ok \<lparr>LeashAddr = a, LeashBlockID = i\<rparr>)))
       (db_range (ldb E) sn (addrKeyBytes (Addr4 0)) (addrKeyBytes (Addr6 (- 1) []))))"

definition st_heads :: "('db, 'id) env \<Rightarrow> 'db \<Rightarrow> 'id Head list res" where
  "st_heads E db =
     with_snapshot (ldb E) db (\<lambda>sn.
     bind_res (getHeads E sn) (\<lambda>(heads, blocks).
     mapM_res
       (\<lambda>(h, bn).
          bind_res (getBlock E sn bn) (\<lambda>bl.
          bind_res (id_of_bytes E (bID bl)) (\<lambda>i. Ok \<lparr>HeadID = h, HeadBlockID = i\<rparr>)))
       (zip heads blocks)))"

end
