(* ===== verification/BlockGraph.thy ===== *)
theory BlockGraph
  imports Keys
begin

text \<open>
  The abstract state of package \<open>chains\<close>: a tree of numbered blocks. Number 1 is the genesis
  block; \<open>gPar\<close> is the parent (the block one height below), \<open>gRef\<close> the block a new one was
  built on (its parent for a key block, the referenced block for a micro-block), \<open>gHeads\<close>
  the block of each head, \<open>gLeash\<close> the block each peer is leashed to. Here are the tree's
  ancestors, its last common ancestors with a step-by-step reference algorithm, and the
  operation that adds a block.
\<close>

record 'id graph =
  gSize :: nat
  gPar :: "nat \<Rightarrow> nat"
  gRef :: "nat \<Rightarrow> nat"
  gId :: "nat \<Rightarrow> 'id"
  gBlk :: "nat \<Rightarrow> block"
  gHeads :: "nat list"
  gLeash :: "addr \<rightharpoonup> 'id"

definition nodes :: "'id graph \<Rightarrow> nat set" where
  "nodes g = {1..gSize g}"

abbreviation ht :: "'id graph \<Rightarrow> nat \<Rightarrow> nat" where
  "ht g n \<equiv> unat (bHeight (gBlk g n))"

definition anc :: "'id graph \<Rightarrow> nat \<Rightarrow> nat \<Rightarrow> nat" where
  "anc g k n = (gPar g ^^ k) n"

text \<open>The tips: blocks no other block was built on.\<close>

definition tips :: "'id graph \<Rightarrow> nat set" where
  "tips g = {n \<in> nodes g. \<forall>m \<in> nodes g. m \<noteq> 1 \<longrightarrow> gRef g m \<noteq> n}"

definition wf_tree :: "'id graph \<Rightarrow> bool" where
  "wf_tree g \<longleftrightarrow>
     1 \<le> gSize g \<and> ht g 1 = 1 \<and> inj_on (gId g) (nodes g) \<and>
     (\<forall>n \<in> nodes g. n \<noteq> 1 \<longrightarrow>
        gPar g n \<in> nodes g \<and> gPar g n < n \<and> gRef g n \<in> nodes g \<and> gRef g n < n \<and>
        ht g n = Suc (ht g (gPar g n)))"

text \<open>Every block has a score, no smaller than its parent's.\<close>

definition wf_scores :: "'id graph \<Rightarrow> bool" where
  "wf_scores g \<longleftrightarrow>
     (\<exists>s. bScore (gBlk g 1) = Some s \<and> 0 \<le> s) \<and>
     (\<forall>n \<in> nodes g. n \<noteq> 1 \<longrightarrow>
        (\<exists>s p. bScore (gBlk g n) = Some s \<and> bScore (gBlk g (gPar g n)) = Some p \<and> p \<le> s))"

text \<open>The heads are the tips, each once.\<close>

definition wf_heads :: "'id graph \<Rightarrow> bool" where
  "wf_heads g \<longleftrightarrow> distinct (gHeads g) \<and> set (gHeads g) = tips g"

text \<open>Every leash is on a known block.\<close>

definition wf_leashes :: "'id graph \<Rightarrow> bool" where
  "wf_leashes g \<longleftrightarrow> (\<forall>a i. gLeash g a = Some i \<longrightarrow> plain a \<and> i \<in> gId g ` nodes g)"

definition wf_graph :: "'id graph \<Rightarrow> bool" where
  "wf_graph g \<longleftrightarrow> wf_tree g \<and> wf_scores g \<and> wf_heads g \<and> wf_leashes g"

section \<open>Ancestors\<close>

lemma one_in_nodes: "wf_tree g \<Longrightarrow> 1 \<in> nodes g"
  by (simp add: wf_tree_def nodes_def)

lemma parD:
  assumes "wf_tree g" and "n \<in> nodes g" and "n \<noteq> 1"
  shows "gPar g n \<in> nodes g" and "gPar g n < n" and "gRef g n \<in> nodes g" and "gRef g n < n"
    and "ht g n = Suc (ht g (gPar g n))"
proof -
  from assms show "gPar g n \<in> nodes g" and "gPar g n < n" and "gRef g n \<in> nodes g"
    and "gRef g n < n" and "ht g n = Suc (ht g (gPar g n))"
    by (auto simp: wf_tree_def)
qed

lemma ht_pos: "wf_tree g \<Longrightarrow> n \<in> nodes g \<Longrightarrow> 0 < ht g n"
proof (cases "n = 1")
  case False
  assume "wf_tree g" "n \<in> nodes g"
  from parD(5) [OF this False] show ?thesis by simp
qed (simp add: wf_tree_def)

lemma ht_eq_1:
  assumes "wf_tree g" "n \<in> nodes g"
  shows "ht g n = 1 \<longleftrightarrow> n = 1"
proof (cases "n = 1")
  case False
  note p = parD [OF assms False]
  from p(5) ht_pos [OF assms(1) p(1)] False show ?thesis by simp
next
  case True
  with assms(1) show ?thesis by (simp add: wf_tree_def)
qed

lemma anc_0 [simp]: "anc g 0 n = n"
  by (simp add: anc_def)

lemma anc_Suc: "anc g (Suc k) n = anc g k (gPar g n)"
  by (simp add: anc_def funpow_swap1)

lemma anc_anc: "anc g j (anc g k n) = anc g (j + k) n"
  by (simp add: anc_def funpow_add)

lemma anc_1: "anc g (Suc 0) n = gPar g n"
  by (simp add: anc_def)

lemma anc_node:
  "wf_tree g \<Longrightarrow> n \<in> nodes g \<Longrightarrow> k < ht g n \<Longrightarrow>
     anc g k n \<in> nodes g \<and> ht g (anc g k n) = ht g n - k \<and> anc g k n \<le> n"
proof (induction k arbitrary: n)
  case (Suc k)
  then have "n \<noteq> 1" using ht_eq_1 by fastforce
  note p = parD [OF Suc.prems(1,2) this]
  with Suc.prems have "k < ht g (gPar g n)" by simp
  from Suc.IH [OF Suc.prems(1) p(1) this] p show ?case
    by (simp add: anc_Suc)
qed simp

lemmas anc_in_nodes = anc_node [THEN conjunct1]
lemmas ht_anc = anc_node [THEN conjunct2, THEN conjunct1]
lemmas anc_le = anc_node [THEN conjunct2, THEN conjunct2]

lemma anc_genesis: "wf_tree g \<Longrightarrow> n \<in> nodes g \<Longrightarrow> anc g (ht g n - 1) n = 1"
proof -
  assume g: "wf_tree g" and n: "n \<in> nodes g"
  then have "0 < ht g n" by (rule ht_pos)
  then have k: "ht g n - 1 < ht g n" by simp
  from ht_anc [OF g n k] \<open>0 < ht g n\<close> have "ht g (anc g (ht g n - 1) n) = 1" by simp
  with ht_eq_1 [OF g anc_in_nodes [OF g n k]] show ?thesis by simp
qed

definition is_anc :: "'id graph \<Rightarrow> nat \<Rightarrow> nat \<Rightarrow> bool" where
  "is_anc g a n \<longleftrightarrow> (\<exists>k < ht g n. a = anc g k n)"

lemma is_anc_refl: "wf_tree g \<Longrightarrow> n \<in> nodes g \<Longrightarrow> is_anc g n n"
  unfolding is_anc_def by (rule exI [of _ 0]) (simp add: ht_pos)

lemma is_anc_node: "wf_tree g \<Longrightarrow> n \<in> nodes g \<Longrightarrow> is_anc g a n \<Longrightarrow> a \<in> nodes g \<and> ht g a \<le> ht g n"
  by (auto simp: is_anc_def anc_in_nodes ht_anc)

lemma is_anc_trans:
  assumes "wf_tree g" "n \<in> nodes g" "is_anc g m n" "is_anc g a m"
  shows "is_anc g a n"
proof -
  from assms obtain k j where k: "k < ht g n" "m = anc g k n" and j: "j < ht g m" "a = anc g j m"
    by (auto simp: is_anc_def)
  then have "j + k < ht g n" "a = anc g (j + k) n"
    using ht_anc [OF assms(1,2) k(1)] by (auto simp: anc_anc)
  then show ?thesis by (auto simp: is_anc_def)
qed

lemma is_anc_eq_ht:
  assumes "wf_tree g" "n \<in> nodes g" "is_anc g a n" "ht g n \<le> ht g a"
  shows "a = n"
proof -
  from assms(3) obtain k where k: "k < ht g n" "a = anc g k n" by (auto simp: is_anc_def)
  with ht_anc [OF assms(1,2) k(1)] assms(4) have "k = 0" by simp
  with k show ?thesis by simp
qed

lemma is_anc_iff:
  assumes "wf_tree g" "n \<in> nodes g"
  shows "is_anc g a n \<longleftrightarrow> a = n \<or> (n \<noteq> 1 \<and> is_anc g a (gPar g n))"
proof (cases "n = 1")
  case True
  with assms have "ht g n = 1" by (simp add: wf_tree_def)
  with True show ?thesis by (auto simp: is_anc_def)
next
  case False
  note p = parD(5) [OF assms False]
  have "(\<exists>k < ht g n. a = anc g k n) \<longleftrightarrow> a = n \<or> (\<exists>k < ht g (gPar g n). a = anc g (Suc k) n)"
    unfolding p using less_Suc_eq_0_disj by auto
  with False show ?thesis by (simp add: is_anc_def anc_Suc)
qed

section \<open>Last common ancestors\<close>

text \<open>A common ancestor that every common ancestor is an ancestor of.\<close>

definition is_lca :: "'id graph \<Rightarrow> nat \<Rightarrow> nat \<Rightarrow> nat \<Rightarrow> bool" where
  "is_lca g a x y \<longleftrightarrow>
     is_anc g a x \<and> is_anc g a y \<and> (\<forall>b. is_anc g b x \<and> is_anc g b y \<longrightarrow> is_anc g b a)"

lemma is_lca_unique:
  assumes "wf_tree g" "x \<in> nodes g" "is_lca g a x y" "is_lca g b x y"
  shows "a = b"
proof -
  from assms have ab: "is_anc g a b" "is_anc g b a" and nodes: "a \<in> nodes g" "b \<in> nodes g"
    using is_anc_node by (auto simp: is_lca_def)
  from ab have "ht g a = ht g b"
    using is_anc_node [OF assms(1)] nodes by (meson le_antisym)
  with is_anc_eq_ht [OF assms(1) nodes(2) ab(1)] show ?thesis by simp
qed

lemma is_lca_sym: "is_lca g a x y \<longleftrightarrow> is_lca g a y x"
  by (auto simp: is_lca_def)

text \<open>
  The reference algorithm: step up from the higher block (the first on a tie) until the two
  meet. The first argument bounds the steps; the sum of the heights is enough.
\<close>

fun meet :: "nat \<Rightarrow> 'id graph \<Rightarrow> nat \<Rightarrow> nat \<Rightarrow> nat" where
  "meet 0 g x y = x"
| "meet (Suc k) g x y =
     (if x = y then x
      else if ht g x < ht g y then meet k g x (gPar g y)
      else meet k g (gPar g x) y)"

definition common_ancestor :: "'id graph \<Rightarrow> nat \<Rightarrow> nat \<Rightarrow> nat" where
  "common_ancestor g x y = meet (ht g x + ht g y) g x y"

lemma is_lca_refl: "wf_tree g \<Longrightarrow> x \<in> nodes g \<Longrightarrow> is_lca g x x x"
  by (simp add: is_lca_def is_anc_refl)

lemma is_lca_step:
  assumes g: "wf_tree g" and x: "x \<in> nodes g" and y: "y \<in> nodes g"
    and neq: "x \<noteq> y" and le: "ht g y \<le> ht g x"
  shows "x \<noteq> 1" and "is_lca g a (gPar g x) y \<Longrightarrow> is_lca g a x y"
proof -
  show x1: "x \<noteq> 1"
    using neq le ht_eq_1 [OF g y] ht_pos [OF g y] ht_eq_1 [OF g x] by auto
  have "\<not> is_anc g x y"
    using is_anc_eq_ht [OF g y _ le] neq by auto
  then have "is_anc g b x \<and> is_anc g b y \<longleftrightarrow> is_anc g b (gPar g x) \<and> is_anc g b y" for b
    using is_anc_iff [OF g x, of b] x1 by auto
  then show "is_lca g a (gPar g x) y \<Longrightarrow> is_lca g a x y"
    using is_anc_iff [OF g x] x1 by (auto simp: is_lca_def)
qed

lemma meet_is_lca:
  assumes "wf_tree g"
  shows "x \<in> nodes g \<Longrightarrow> y \<in> nodes g \<Longrightarrow> ht g x + ht g y \<le> k + 2 \<Longrightarrow> is_lca g (meet k g x y) x y"
proof (induction k arbitrary: x y)
  case 0
  with ht_pos [OF assms, of x] ht_pos [OF assms, of y] have "ht g x = 1" "ht g y = 1"
    by linarith+
  with 0 ht_eq_1 [OF assms] have "x = 1" "y = 1" by blast+
  with 0 show ?case by (simp add: is_lca_refl [OF assms])
next
  case (Suc k)
  consider "x = y" | "x \<noteq> y" "ht g x < ht g y" | "x \<noteq> y" "ht g y \<le> ht g x"
    by linarith
  then show ?case
  proof cases
    case 1
    with Suc.prems show ?thesis by (simp add: is_lca_refl [OF assms])
  next
    case 2
    note st = is_lca_step [OF assms Suc.prems(2,1)]
    from 2 have y1: "y \<noteq> 1" by (intro st(1)) auto
    note p = parD [OF assms Suc.prems(2) y1]
    have "is_lca g (meet k g x (gPar g y)) x (gPar g y)"
      using Suc.prems p by (intro Suc.IH) auto
    with 2 st(2) show ?thesis by (simp add: is_lca_sym)
  next
    case 3
    note st = is_lca_step [OF assms Suc.prems(1,2) 3]
    note p = parD [OF assms Suc.prems(1) st(1)]
    have "is_lca g (meet k g (gPar g x) y) (gPar g x) y"
      using Suc.prems p by (intro Suc.IH) auto
    with 3 st(2) show ?thesis by simp
  qed
qed

theorem common_ancestor_is_lca:
  "wf_tree g \<Longrightarrow> x \<in> nodes g \<Longrightarrow> y \<in> nodes g \<Longrightarrow> is_lca g (common_ancestor g x y) x y"
  unfolding common_ancestor_def by (rule meet_is_lca) auto

lemma common_ancestor_node:
  "wf_tree g \<Longrightarrow> x \<in> nodes g \<Longrightarrow> y \<in> nodes g \<Longrightarrow> common_ancestor g x y \<in> nodes g"
  using common_ancestor_is_lca is_anc_node by (metis is_lca_def)

text \<open>
  Two blocks of the same height: their ancestors at a distance agree from the height of the
  last common ancestor down.
\<close>

lemma anc_agree_iff:
  assumes g: "wf_tree g" and x: "x \<in> nodes g" and y: "y \<in> nodes g"
    and h: "ht g x = ht g y" and a: "is_lca g a x y" and m: "m < ht g x"
  shows "anc g m x = anc g m y \<longleftrightarrow> ht g x - ht g a \<le> m"
proof
  assume eq: "anc g m x = anc g m y"
  with m h have "is_anc g (anc g m x) x" "is_anc g (anc g m x) y"
    by (auto simp: is_anc_def)
  with a have "is_anc g (anc g m x) a" by (simp add: is_lca_def)
  moreover have "a \<in> nodes g" using a is_anc_node [OF g x] by (auto simp: is_lca_def)
  ultimately have "ht g (anc g m x) \<le> ht g a"
    using is_anc_node [OF g] by blast
  with ht_anc [OF g x m] show "ht g x - ht g a \<le> m" by simp
next
  assume le: "ht g x - ht g a \<le> m"
  from a obtain j k where j: "j < ht g x" "a = anc g j x" and k: "k < ht g y" "a = anc g k y"
    by (auto simp: is_lca_def is_anc_def)
  have "j = ht g x - ht g a" "k = ht g x - ht g a"
    using ht_anc [OF g x j(1)] ht_anc [OF g y k(1)] j k h by auto
  with le obtain i where i: "m = i + j" and jk: "j = k"
    by (metis le_add_diff_inverse2)
  have "anc g m x = anc g i a" unfolding i j(2) anc_anc by simp
  also have "\<dots> = anc g m y" unfolding i jk k(2) anc_anc by simp
  finally show "anc g m x = anc g m y" .
qed

text \<open>Going up less than to the last common ancestor does not change it.\<close>

lemma lca_of_ancestors:
  assumes g: "wf_tree g" and x: "x \<in> nodes g" and y: "y \<in> nodes g"
    and h: "ht g x = ht g y" and a: "is_lca g a x y" and m: "m < ht g x"
    and le: "m \<le> ht g x - ht g a"
  shows "is_lca g a (anc g m x) (anc g m y)"
proof -
  have up: "is_anc g a (anc g m z)"
    if z: "z \<in> nodes g" "is_anc g a z" "ht g z = ht g x" for z
  proof -
    from z(2) obtain k where k: "k < ht g z" "a = anc g k z" by (auto simp: is_anc_def)
    with ht_anc [OF g z(1) k(1)] z(3) have "k = ht g x - ht g a" by simp
    with le have km: "k - m + m = k" by simp
    have "anc g (k - m) (anc g m z) = a"
      unfolding anc_anc km k(2) ..
    moreover have "k - m < ht g (anc g m z)"
      using ht_anc [OF g z(1), of m] z(3) m k(1) by simp
    ultimately show ?thesis unfolding is_anc_def by blast
  qed
  have down: "is_anc g b z" if "z \<in> nodes g" "is_anc g b (anc g m z)" "ht g z = ht g x" for b z
  proof -
    have "is_anc g (anc g m z) z" using m that(3) by (auto simp: is_anc_def)
    with is_anc_trans [OF g that(1) _ that(2)] show ?thesis by simp
  qed
  note a' = a [unfolded is_lca_def]
  show ?thesis
    unfolding is_lca_def
  proof (intro conjI allI impI)
    show "is_anc g a (anc g m x)" using up [OF x] a' by simp
    show "is_anc g a (anc g m y)" using up [OF y] a' h by simp
    show "is_anc g b a" if "is_anc g b (anc g m x) \<and> is_anc g b (anc g m y)" for b
      using a' down [OF x, of b] down [OF y, of b] that h by simp
  qed
qed

section \<open>Scores along a chain\<close>

lemma score_Some: "wf_scores g \<Longrightarrow> n \<in> nodes g \<Longrightarrow> \<exists>s. bScore (gBlk g n) = Some s"
  by (cases "n = 1") (auto simp: wf_scores_def)

lemma score_anc_le:
  assumes "wf_tree g" "wf_scores g"
  shows "n \<in> nodes g \<Longrightarrow> k < ht g n \<Longrightarrow>
    score_value (bScore (gBlk g (anc g k n))) \<le> score_value (bScore (gBlk g n))"
proof (induction k arbitrary: n)
  case (Suc k)
  then have n1: "n \<noteq> 1" using ht_eq_1 [OF assms(1)] by fastforce
  note p = parD [OF assms(1) Suc.prems(1) n1]
  have "score_value (bScore (gBlk g (gPar g n))) \<le> score_value (bScore (gBlk g n))"
    using assms(2) Suc.prems n1 by (force simp: wf_scores_def score_value_def)
  moreover have "k < ht g (gPar g n)" using Suc.prems p by simp
  ultimately show ?case
    using Suc.IH [OF p(1)] by (simp add: anc_Suc)
qed simp

section \<open>Adding a block\<close>

text \<open>
  A new head when the block it is built on is not a head's block, otherwise that head moves.
\<close>

definition move_head :: "nat list \<Rightarrow> nat \<Rightarrow> nat \<Rightarrow> nat list" where
  "move_head hs r n = (if r \<in> set hs then map (\<lambda>m. if m = r then n else m) hs else hs @ [n])"

definition g_add :: "nat \<Rightarrow> nat \<Rightarrow> 'id \<Rightarrow> block \<Rightarrow> 'id graph \<Rightarrow> 'id graph" where
  "g_add p r i b g =
     (let n = Suc (gSize g) in
      g\<lparr>gSize := n, gPar := (gPar g)(n := p), gRef := (gRef g)(n := r),
        gId := (gId g)(n := i), gBlk := (gBlk g)(n := b),
        gHeads := move_head (gHeads g) r n\<rparr>)"

definition g_leash :: "addr \<Rightarrow> 'id \<Rightarrow> 'id graph \<Rightarrow> 'id graph" where
  "g_leash a i g = g\<lparr>gLeash := (gLeash g)(a \<mapsto> i)\<rparr>"

definition g_init :: "'id \<Rightarrow> block \<Rightarrow> 'id graph" where
  "g_init i b =
     \<lparr>gSize = 1, gPar = (\<lambda>_. 0), gRef = (\<lambda>_. 0), gId = (\<lambda>_. i), gBlk = (\<lambda>_. b),
      gHeads = [1], gLeash = Map.empty\<rparr>"

lemma nodes_g_add: "nodes (g_add p r i b g) = insert (Suc (gSize g)) (nodes g)"
  by (auto simp: nodes_def g_add_def Let_def)

lemma new_not_node [simp]: "Suc (gSize g) \<notin> nodes g"
  by (simp add: nodes_def)

lemma node_neq_new: "n \<in> nodes g \<Longrightarrow> n \<noteq> Suc (gSize g)"
  by (auto simp: nodes_def)

lemma g_add_simps [simp]:
  "gSize (g_add p r i b g) = Suc (gSize g)"
  "gPar (g_add p r i b g) = (gPar g)(Suc (gSize g) := p)"
  "gRef (g_add p r i b g) = (gRef g)(Suc (gSize g) := r)"
  "gId (g_add p r i b g) = (gId g)(Suc (gSize g) := i)"
  "gBlk (g_add p r i b g) = (gBlk g)(Suc (gSize g) := b)"
  "gHeads (g_add p r i b g) = move_head (gHeads g) r (Suc (gSize g))"
  "gLeash (g_add p r i b g) = gLeash g"
  by (simp_all add: g_add_def Let_def)

lemma g_leash_simps [simp]:
  "gSize (g_leash a i g) = gSize g" "gPar (g_leash a i g) = gPar g"
  "gRef (g_leash a i g) = gRef g" "gId (g_leash a i g) = gId g"
  "gBlk (g_leash a i g) = gBlk g" "gHeads (g_leash a i g) = gHeads g"
  "gLeash (g_leash a i g) = (gLeash g)(a \<mapsto> i)" "nodes (g_leash a i g) = nodes g"
  by (simp_all add: g_leash_def nodes_def)

lemma wf_tree_g_add:
  assumes g: "wf_tree g" and p: "p \<in> nodes g" and r: "r \<in> nodes g"
    and i: "i \<notin> gId g ` nodes g" and b: "unat (bHeight b) = Suc (ht g p)"
  shows "wf_tree (g_add p r i b g)"
proof -
  let ?n = "Suc (gSize g)"
  have lt: "m \<in> nodes g \<Longrightarrow> m < ?n" for m by (auto simp: nodes_def)
  have new: "?n \<noteq> 1" using g by (auto simp: wf_tree_def)
  have "inj_on ((gId g)(?n := i)) (insert ?n (nodes g))"
    using g i lt by (auto simp: inj_on_def wf_tree_def dest: less_imp_neq)
  moreover have "m \<in> nodes g \<Longrightarrow> m \<noteq> 1 \<Longrightarrow>
      gPar g m \<in> nodes g \<and> gPar g m < m \<and> gRef g m \<in> nodes g \<and> gRef g m < m \<and>
      ht g m = Suc (ht g (gPar g m)) \<and> gPar g m \<noteq> ?n \<and> m \<noteq> ?n" for m
    using parD [OF g, of m] lt by (auto dest: node_neq_new)
  ultimately show ?thesis
    using g p r b new lt one_in_nodes [OF g]
    by (auto simp: wf_tree_def nodes_g_add dest: node_neq_new)
qed

lemma wf_scores_g_add:
  assumes "wf_tree g" "wf_scores g" and p: "p \<in> nodes g"
    and b: "bScore b = Some s" "bScore (gBlk g p) = Some q" "q \<le> s"
  shows "wf_scores (g_add p r i b g)"
proof -
  let ?n = "Suc (gSize g)"
  have "?n \<noteq> 1" using assms(1) by (auto simp: wf_tree_def)
  moreover have "m \<in> nodes g \<Longrightarrow> m \<noteq> 1 \<Longrightarrow> gPar g m \<noteq> ?n \<and> m \<noteq> ?n" for m
    using parD(1) [OF assms(1), of m] by (auto dest: node_neq_new)
  ultimately show ?thesis
    using assms node_neq_new [OF p] by (auto simp: wf_scores_def nodes_g_add)
qed

lemma set_move_head:
  "set (move_head hs r n) = (if r \<in> set hs then insert n (set hs - {r}) else insert n (set hs))"
  by (auto simp: move_head_def)

lemma distinct_move_head: "distinct hs \<Longrightarrow> n \<notin> set hs \<Longrightarrow> distinct (move_head hs r n)"
  by (auto simp: move_head_def distinct_map inj_on_def)

lemma wf_heads_g_add:
  assumes "wf_tree g" "wf_heads g" and r: "r \<in> nodes g"
  shows "wf_heads (g_add p r i b g)"
proof -
  let ?n = "Suc (gSize g)" and ?g = "g_add p r i b g"
  have hs: "distinct (gHeads g)" "set (gHeads g) = tips g"
    using assms(2) by (auto simp: wf_heads_def)
  have n1: "1 < ?n" using assms(1) by (auto simp: wf_tree_def)
  have "?n \<notin> set (gHeads g)" using hs by (auto simp: tips_def)
  then have "distinct (gHeads ?g)" using distinct_move_head [OF hs(1)] by simp
  moreover have "tips ?g = insert ?n (tips g - {r})"
  proof -
    have ref: "m \<in> nodes g \<Longrightarrow> m \<noteq> 1 \<Longrightarrow> gRef g m \<in> nodes g" for m
      using parD(3) [OF assms(1), of m] by simp
    have old: "x \<in> tips ?g \<longleftrightarrow> x \<in> tips g \<and> x \<noteq> r" if "x \<noteq> ?n" for x
      using that n1 by (auto simp: tips_def nodes_g_add dest: node_neq_new)
    have "r \<noteq> ?n" using r by (rule node_neq_new)
    have "?n \<in> tips ?g"
      using ref r by (auto simp: tips_def nodes_g_add dest: node_neq_new)
    moreover have "?n \<notin> tips g" by (simp add: tips_def)
    moreover note \<open>r \<noteq> ?n\<close>
    ultimately show ?thesis using old by (intro set_eqI) (metis Diff_iff insert_iff singletonD)
  qed
  moreover have "set (gHeads ?g) = insert ?n (tips g - {r})"
    by (auto simp: set_move_head hs(2))
  ultimately show ?thesis by (simp add: wf_heads_def)
qed

lemma wf_leashes_g_add: "wf_leashes g \<Longrightarrow> wf_leashes (g_add p r i b g)"
proof -
  have "gId g ` nodes g \<subseteq> gId (g_add p r i b g) ` nodes (g_add p r i b g)"
    by (auto simp: nodes_g_add dest: node_neq_new)
  then show "wf_leashes g \<Longrightarrow> wf_leashes (g_add p r i b g)"
    unfolding wf_leashes_def g_add_simps(7) by blast
qed

lemma wf_graph_g_leash:
  assumes "wf_graph g" "plain a" "i \<in> gId g ` nodes g"
  shows "wf_graph (g_leash a i g)"
  using assms
  by (auto simp: wf_graph_def wf_tree_def wf_scores_def wf_heads_def wf_leashes_def tips_def)

lemma wf_graph_g_init:
  assumes "bHeight b = 1" "bScore b = Some s" "0 \<le> s"
  shows "wf_graph (g_init i b)"
  using assms
  by (auto simp: wf_graph_def wf_tree_def wf_scores_def wf_heads_def wf_leashes_def tips_def
      g_init_def nodes_def)

end
