(* ===== verification/StorageRep.thy ===== *)
theory StorageRep
  imports Storage BlockGraph
begin

text \<open>
  The refinement relation between the store of \<open>Storage\<close> and the tree of \<open>BlockGraph\<close>,
  and what every read of the store returns on a store that represents a tree.
\<close>

section \<open>The relation\<close>

text \<open>The link of block \<open>n\<close>: its ancestors at the distances 1, 2, 4, \dots below its height.\<close>

definition lift_parents :: "'id graph \<Rightarrow> nat \<Rightarrow> nat list" where
  "lift_parents g n = map (\<lambda>l. anc g (2 ^ l) n) [0..<ceillog2 (ht g n)]"

definition link_of :: "('db, 'id) env \<Rightarrow> 'id graph \<Rightarrow> nat \<Rightarrow> link" where
  "link_of E g n =
     \<lparr>lHeight = bHeight (gBlk g n), lBlockID = id_bytes E (gId g n),
      lParents = map word_of_nat (lift_parents g n)\<rparr>"

definition blocks_rep :: "('db, 'id) env \<Rightarrow> 'db \<Rightarrow> 'id graph \<Rightarrow> bool" where
  "blocks_rep E db g \<longleftrightarrow>
     gSize g < 2 ^ 64 \<and> getCounter E db blocksCounter = Ok (word_of_nat (gSize g)) \<and>
     (\<forall>n \<in> nodes g.
        getBlock E db (word_of_nat n) = Ok (gBlk g n) \<and>
        getLink E db (word_of_nat n) = Ok (link_of E g n) \<and>
        getNumOfBlockID E db (gId g n) = Ok (word_of_nat n)) \<and>
     (\<forall>i. i \<notin> gId g ` nodes g \<longrightarrow> getNumOfBlockID E db i = Err ErrNotFound)"

text \<open>The fields of the stored block agree with the tree.\<close>

definition fields_rep :: "('db, 'id) env \<Rightarrow> 'id graph \<Rightarrow> bool" where
  "fields_rep E g \<longleftrightarrow>
     (\<forall>n \<in> nodes g.
        bID (gBlk g n) = id_bytes E (gId g n) \<and>
        bParent (gBlk g n) = (if n = 1 then [] else id_bytes E (gId g (gPar g n))) \<and>
        address_of_bytes E (bGenerator (gBlk g n)) = Ok (bGenerator (gBlk g n)))"

definition heads_rep :: "('db, 'id) env \<Rightarrow> 'db \<Rightarrow> 'id graph \<Rightarrow> bool" where
  "heads_rep E db g \<longleftrightarrow>
     getCounter E db headsCounter = Ok (word_of_nat (length (gHeads g))) \<and>
     (\<forall>h < length (gHeads g).
        db_get (ldb E) db (numKeyBytes headToBlockPrefix (word_of_nat (Suc h))) =
          Ok (put_uint64 (word_of_nat (gHeads g ! h))) \<and>
        getHeadByBlockNum E db (word_of_nat (gHeads g ! h)) = Ok (word_of_nat (Suc h))) \<and>
     (\<forall>w v. db_get (ldb E) db (numKeyBytes headToBlockPrefix w) = Ok v \<longrightarrow>
        (\<exists>h < length (gHeads g). w = word_of_nat (Suc h))) \<and>
     (\<forall>n \<in> nodes g. n \<notin> set (gHeads g) \<longrightarrow>
        getHeadByBlockNum E db (word_of_nat n) = Err ErrNotFound)"

definition leashes_rep :: "('db, 'id) env \<Rightarrow> 'db \<Rightarrow> 'id graph \<Rightarrow> bool" where
  "leashes_rep E db g \<longleftrightarrow>
     (\<forall>a. plain a \<longrightarrow> db_get (ldb E) db (addrKeyBytes a) =
        (case gLeash g a of None \<Rightarrow> Err ErrNotFound | Some i \<Rightarrow> Ok (id_bytes E i)))"

text \<open>Under the prefixes the code iterates over there are only keys of the right form.\<close>

definition keys_rep :: "('db, 'id) env \<Rightarrow> 'db \<Rightarrow> bool" where
  "keys_rep E db \<longleftrightarrow>
     (\<forall>k v. db_get (ldb E) db (headToBlockPrefix # k) = Ok v \<longrightarrow>
        (\<exists>w. headToBlockPrefix # k = numKeyBytes headToBlockPrefix w)) \<and>
     (\<forall>k v. db_get (ldb E) db (leashPrefix # k) = Ok v \<longrightarrow>
        (\<exists>a. plain a \<and> leashPrefix # k = addrKeyBytes a))"

definition repr :: "('db, 'id) env \<Rightarrow> 'db \<Rightarrow> 'id graph \<Rightarrow> bool" where
  "repr E db g \<longleftrightarrow>
     wf_graph g \<and> fields_rep E g \<and> blocks_rep E db g \<and> heads_rep E db g \<and>
     leashes_rep E db g \<and> keys_rep E db"

lemma reprD:
  assumes "repr E db g"
  shows "wf_graph g" "fields_rep E g" "blocks_rep E db g" "heads_rep E db g"
    "leashes_rep E db g" "keys_rep E db"
    "wf_tree g" "wf_scores g" "wf_heads g" "wf_leashes g"
  using assms by (simp_all add: repr_def wf_graph_def)

section \<open>Reads of a store that represents a tree\<close>

named_theorems rep_reads "what the reads of a representing store return"

lemma rep_getCounter [rep_reads]:
  "repr E db g \<Longrightarrow> getCounter E db blocksCounter = Ok (word_of_nat (gSize g))"
  by (simp add: repr_def blocks_rep_def)

lemma rep_getBlock [rep_reads]:
  "repr E db g \<Longrightarrow> n \<in> nodes g \<Longrightarrow> getBlock E db (word_of_nat n) = Ok (gBlk g n)"
  by (simp add: repr_def blocks_rep_def)

lemma rep_getLink [rep_reads]:
  "repr E db g \<Longrightarrow> n \<in> nodes g \<Longrightarrow> getLink E db (word_of_nat n) = Ok (link_of E g n)"
  by (simp add: repr_def blocks_rep_def)

lemma rep_getNum [rep_reads]:
  "repr E db g \<Longrightarrow> n \<in> nodes g \<Longrightarrow> getNumOfBlockID E db (gId g n) = Ok (word_of_nat n)"
  by (simp add: repr_def blocks_rep_def)

lemma rep_getNum_unknown [rep_reads]:
  "repr E db g \<Longrightarrow> i \<notin> gId g ` nodes g \<Longrightarrow> getNumOfBlockID E db i = Err ErrNotFound"
  by (simp add: repr_def blocks_rep_def)

lemma rep_getLinkByID [rep_reads]:
  "repr E db g \<Longrightarrow> n \<in> nodes g \<Longrightarrow> getLinkByID E db (gId g n) = Ok (link_of E g n)"
  by (simp add: getLinkByID_def rep_reads)

lemma rep_getBlockByID [rep_reads]:
  "repr E db g \<Longrightarrow> n \<in> nodes g \<Longrightarrow> getBlockByID E db (gId g n) = Ok (gBlk g n)"
  by (simp add: getBlockByID_def rep_reads)

lemma rep_getLeash [rep_reads]:
  assumes "env_ok E" "repr E db g" "plain a"
  shows "getLeash E db a = (case gLeash g a of None \<Rightarrow> Err ErrNotFound | Some i \<Rightarrow> Ok i)"
  using assms env_okD(4,6) [OF assms(1)]
  by (auto simp: getLeash_def repr_def leashes_rep_def size_defs split: option.splits)

lemma rep_number_known:
  assumes "repr E db g" "getNumOfBlockID E db i = Ok w"
  obtains n where "n \<in> nodes g" "i = gId g n" "w = word_of_nat n"
proof (cases "i \<in> gId g ` nodes g")
  case True
  then obtain n where n: "n \<in> nodes g" "i = gId g n" by blast
  with assms(2) rep_getNum [OF assms(1) n(1)] that show ?thesis by simp
next
  case False
  with rep_getNum_unknown [OF assms(1)] assms(2) show ?thesis by simp
qed

lemma rep_size: "repr E db g \<Longrightarrow> gSize g < 2 ^ 64"
  by (simp add: repr_def blocks_rep_def)

lemma word_of_nat_Suc_eq_iff:
  "a < 2 ^ 64 \<Longrightarrow> b < 2 ^ 64 \<Longrightarrow> (word_of_nat a :: u64) = word_of_nat b \<longleftrightarrow> a = b"
  by (auto simp: word_unat_eq_iff unat_of_nat)

lemma head_in_nodes: "repr E db g \<Longrightarrow> h < length (gHeads g) \<Longrightarrow> gHeads g ! h \<in> nodes g"
  using reprD(9) [of E db g] nth_mem by (fastforce simp: wf_heads_def tips_def)

lemma node_word_inject:
  assumes "repr E db g" "n \<in> nodes g" "m \<in> nodes g"
  shows "(word_of_nat n :: u64) = word_of_nat m \<longleftrightarrow> n = m"
proof -
  have "n < 2 ^ 64" "m < 2 ^ 64"
    using assms rep_size [OF assms(1)] by (auto simp: nodes_def)
  then show ?thesis
    by (auto simp: word_unat_eq_iff unat_of_nat)
qed

lemma link_of_simps [simp]:
  "lHeight (link_of E g n) = bHeight (gBlk g n)"
  "lBlockID (link_of E g n) = id_bytes E (gId g n)"
  "lParents (link_of E g n) = map word_of_nat (lift_parents g n)"
  by (simp_all add: link_of_def)

lemma length_lift_parents [simp]: "length (lift_parents g n) = ceillog2 (ht g n)"
  by (simp add: lift_parents_def)

lemma nth_lift_parents [simp]: "l < ceillog2 (ht g n) \<Longrightarrow> lift_parents g n ! l = anc g (2 ^ l) n"
  by (simp add: lift_parents_def)

lemma lift_parents_Nil:
  assumes "wf_tree g" "n \<in> nodes g"
  shows "lift_parents g n = [] \<longleftrightarrow> n = 1"
proof -
  have "ceillog2 (ht g n) = 0 \<longleftrightarrow> ht g n = 1"
    using ht_pos [OF assms] less_ceillog2_iff [of "ht g n" 0] by auto
  then show ?thesis
    using ht_eq_1 [OF assms] by (metis length_0_conv length_lift_parents)
qed

lemma rep_id_eq_iff:
  assumes "env_ok E" "wf_tree g" "n \<in> nodes g" "m \<in> nodes g"
  shows "id_bytes E (gId g n) = id_bytes E (gId g m) \<longleftrightarrow> n = m"
  using assms env_okD(4) [OF assms(1)]
  by (metis inj_on_eq_iff res.inject(1) wf_tree_def)

text \<open>The parent of a block other than the genesis is the first of its link's parents.\<close>

lemma lift_parents_hd:
  assumes "wf_tree g" "n \<in> nodes g" "n \<noteq> 1"
  shows "0 < ceillog2 (ht g n)" and "lift_parents g n ! 0 = gPar g n"
proof -
  show *: "0 < ceillog2 (ht g n)"
    using lift_parents_Nil [OF assms(1,2)] assms(3) by (metis length_greater_0_conv length_lift_parents)
  then show "lift_parents g n ! 0 = gPar g n" by (simp add: anc_1)
qed

section \<open>Ancestor lists\<close>

text \<open>The chain from a block down to the genesis block, at most \<open>k\<close> blocks of it.\<close>

fun chain :: "'id graph \<Rightarrow> nat \<Rightarrow> nat \<Rightarrow> nat list" where
  "chain g 0 n = []"
| "chain g (Suc k) n = n # (if n = 1 then [] else chain g k (gPar g n))"

lemma chain_eq:
  assumes "wf_tree g"
  shows "n \<in> nodes g \<Longrightarrow> chain g k n = map (\<lambda>j. anc g j n) [0..<min k (ht g n)]"
proof (induction k arbitrary: n)
  case (Suc k)
  show ?case
  proof (cases "n = 1")
    case True
    with assms have "ht g n = 1" by (simp add: wf_tree_def)
    with True show ?thesis by simp
  next
    case False
    note p = parD [OF assms Suc.prems False]
    have "[0..<Suc m] = 0 # map Suc [0..<m]" for m
      by (simp add: map_Suc_upt upt_conv_Cons del: upt_Suc)
    then have "[0..<min (Suc k) (ht g n)] = 0 # map Suc [0..<min k (ht g (gPar g n))]"
      unfolding p(5) by simp
    with False Suc.IH [OF p(1)] show ?thesis by (simp add: anc_Suc)
  qed
qed simp

lemma ancestorsLoop_chain:
  assumes E: "env_ok E" and R: "repr E db g"
  shows "n \<in> nodes g \<Longrightarrow>
    ancestorsLoop E db k (word_of_nat n) r = Ok (r @ map (gId g) (chain g k n))"
proof (induction k arbitrary: n r)
  case (Suc k)
  note wf = reprD(7) [OF R]
  show ?case
  proof (cases "n = 1")
    case True
    with lift_parents_Nil [OF wf Suc.prems] show ?thesis
      using rep_getLink [OF R Suc.prems] env_okD(4) [OF E] by simp
  next
    case False
    note p = parD(1) [OF wf Suc.prems False] and l = lift_parents_hd [OF wf Suc.prems False]
    have "lift_parents g n \<noteq> []" using l(1) by (metis length_greater_0_conv length_lift_parents)
    with False l Suc.IH [OF p] show ?thesis
      using rep_getLink [OF R Suc.prems] env_okD(4) [OF E] by simp
  qed
qed simp

section \<open>The last common ancestor\<close>

lemma unat_push_bit_1: "i < 32 \<Longrightarrow> unat (push_bit i 1 :: u32) = 2 ^ i"
proof -
  assume i: "i < 32"
  then have "(2::nat) ^ i < 2 ^ 32" by (rule power_strict_increasing) simp
  with i show ?thesis
    by (simp only: unsigned_push_bit_eq) (simp add: push_bit_eq_mult take_bit_nat_eq_self)
qed

text \<open>The comparison \<open>farthest.Height - (1 << i) >= other.Height\<close> does not wrap around.\<close>

lemma height_minus_ge_iff:
  fixes h o' :: u32
  assumes "2 ^ i < unat h" "unat o' \<le> unat h"
  shows "o' \<le> h - push_bit i 1 \<longleftrightarrow> 2 ^ i \<le> unat h - unat o'"
proof -
  have "(2::nat) ^ i < 2 ^ 32"
    using assms(1) unsigned_less [of h, where 'a = nat] by simp
  then have i: "i < 32" by (rule power_less_imp_less_exp [rotated]) simp
  have "unat (h - push_bit i 1) = unat h - 2 ^ i"
    using assms(1) unat_push_bit_1 [OF i] by (simp add: unat_sub word_le_nat_alt)
  with assms show ?thesis by (auto simp: word_le_nat_alt)
qed

lemma fastBackward_correct:
  assumes E: "env_ok E" and R: "repr E db g" and y: "y \<in> nodes g"
  shows "x \<in> nodes g \<Longrightarrow> ht g y \<le> ht g x \<Longrightarrow> j \<le> ceillog2 (ht g x) \<Longrightarrow>
    ht g x - ht g y < 2 ^ j \<Longrightarrow>
    fastBackwardFarthest E db j (link_of E g x) (link_of E g y) =
      Ok (link_of E g (anc g (ht g x - ht g y) x))"
proof (induction j arbitrary: x rule: less_induct)
  case (less j x)
  note wf = reprD(7) [OF R]
  let ?d = "ht g x - ht g y"
  show ?case
  proof (cases j)
    case 0
    with less.prems show ?thesis by simp
  next
    case (Suc i)
    have lt: "2 ^ i < ht g x"
      using less.prems(3) Suc less_ceillog2_iff [OF ht_pos [OF wf less.prems(1)], of i]
      by (simp add: Suc_le_eq)
    note cond = height_minus_ge_iff [OF lt less.prems(2)]
    show ?thesis
    proof (cases "2 ^ i \<le> ?d")
      case False
      with less.prems Suc have "fastBackwardFarthest E db i (link_of E g x) (link_of E g y) =
          Ok (link_of E g (anc g ?d x))"
        by (intro less.IH) auto
      with False cond Suc show ?thesis by simp
    next
      case True
      let ?x = "anc g (2 ^ i) x"
      have x': "?x \<in> nodes g" and hx': "ht g ?x = ht g x - 2 ^ i"
        using anc_in_nodes [OF wf less.prems(1) lt] ht_anc [OF wf less.prems(1) lt] by auto
      have le': "ht g y \<le> ht g ?x" using True hx' less.prems(2) by simp
      have d': "ht g ?x - ht g y = ?d - 2 ^ i" using hx' by simp
      have small: "?d - 2 ^ i < 2 ^ i" using less.prems(4) Suc by simp
      have "ht g ?x - ht g y < ht g ?x" using ht_pos [OF wf x'] ht_pos [OF wf y] le' by simp
      also have "ht g ?x \<le> 2 ^ ceillog2 (ht g ?x)" by (rule le_two_power_ceillog2)
      finally have big: "ht g ?x - ht g y < 2 ^ ceillog2 (ht g ?x)" .
      define m where "m = (if ceillog2 (ht g ?x) \<le> i then ceillog2 (ht g ?x) else i)"
      have "fastBackwardFarthest E db m (link_of E g ?x) (link_of E g y) =
          Ok (link_of E g (anc g (ht g ?x - ht g y) ?x))"
        using x' le' big small d' Suc by (intro less.IH) (auto simp: m_def)
      moreover have "anc g (ht g ?x - ht g y) ?x = anc g ?d x"
        using True by (simp only: anc_anc d' le_add_diff_inverse2)
      ultimately show ?thesis
        using True cond Suc lt less.prems(3) rep_getLink [OF R x']
        by (simp add: m_def split: if_splits)
    qed
  qed
qed

text \<open>
  When the second loop of \<open>lca\<close> stays inside the slices it indexes: \<open>j\<close> indices are left,
  the two blocks are at height \<open>h\<close>, and their last common ancestor is \<open>e + 1\<close> below.
\<close>

fun lca_safe :: "nat \<Rightarrow> nat \<Rightarrow> nat \<Rightarrow> bool" where
  "lca_safe 0 h e = True"
| "lca_safe (Suc i) h e =
     (2 ^ i < h \<and> (if 2 ^ i \<le> e then lca_safe i (h - 2 ^ i) (e - 2 ^ i) else lca_safe i h e))"

lemma lcaLoop_correct:
  assumes E: "env_ok E" and R: "repr E db g"
  shows "x \<in> nodes g \<Longrightarrow> y \<in> nodes g \<Longrightarrow> ht g x = ht g y \<Longrightarrow> is_lca g a x y \<Longrightarrow>
    ht g x - ht g a = Suc e \<Longrightarrow> e < 2 ^ j \<Longrightarrow>
    lcaLoop E db j (link_of E g x) (link_of E g y) =
      (if lca_safe j (ht g x) e then Ok (link_of E g (anc g e x), link_of E g (anc g e y)) else Panic)"
proof (induction j arbitrary: x y e)
  case (Suc i)
  note wf = reprD(7) [OF R]
  note ix = less_ceillog2_iff [OF ht_pos [OF wf Suc.prems(1)], of i]
  show ?case
  proof (cases "2 ^ i < ht g x")
    case False
    with ix show ?thesis by simp
  next
    case lt: True
    let ?x = "anc g (2 ^ i) x" and ?y = "anc g (2 ^ i) y"
    have lty: "2 ^ i < ht g y" using lt Suc.prems(3) by simp
    have x': "?x \<in> nodes g" "ht g ?x = ht g x - 2 ^ i"
      using anc_in_nodes [OF wf Suc.prems(1) lt] ht_anc [OF wf Suc.prems(1) lt] by auto
    have y': "?y \<in> nodes g" "ht g ?y = ht g y - 2 ^ i"
      using anc_in_nodes [OF wf Suc.prems(2) lty] ht_anc [OF wf Suc.prems(2) lty] by auto
    have eq: "?x = ?y \<longleftrightarrow> \<not> 2 ^ i \<le> e"
      using anc_agree_iff [OF wf Suc.prems(1-4) lt] Suc.prems(5) by auto
    have par: "slice_get (lParents (link_of E g x)) i = Ok (word_of_nat ?x)"
      "slice_get (lParents (link_of E g y)) i = Ok (word_of_nat ?y)"
      using lt ix Suc.prems(3) by simp_all
    show ?thesis
    proof (cases "2 ^ i \<le> e")
      case False
      have "lcaLoop E db i (link_of E g x) (link_of E g y) =
          (if lca_safe i (ht g x) e then Ok (link_of E g (anc g e x), link_of E g (anc g e y)) else Panic)"
        using Suc.prems False by (intro Suc.IH) auto
      with False eq par lt show ?thesis by simp
    next
      case True
      have lca': "is_lca g a ?x ?y"
        using lca_of_ancestors [OF wf Suc.prems(1-4) lt] Suc.prems(5) True by simp
      have "lcaLoop E db i (link_of E g ?x) (link_of E g ?y) =
          (if lca_safe i (ht g ?x) (e - 2 ^ i)
           then Ok (link_of E g (anc g (e - 2 ^ i) ?x), link_of E g (anc g (e - 2 ^ i) ?y)) else Panic)"
        using Suc.prems True x' y' lca' by (intro Suc.IH) auto
      with True eq par lt x' node_word_inject [OF R x'(1) y'(1)]
        rep_getLink [OF R x'(1)] rep_getLink [OF R y'(1)] show ?thesis
        by (simp add: anc_anc)
    qed
  qed
qed simp

end
