(* ===== verification/StorageWrites.thy ===== *)
theory StorageWrites
  imports StorageRep
begin

text \<open>
  The operations of the storage that write: initializing an empty store, putting a block or a
  micro-block, moving a leash. Each refines an operation of the tree: from a store that
  represents a tree it makes one that represents the new tree.
\<close>

section \<open>The link of a new block\<close>

lemma anc_g_add_old:
  assumes g: "wf_tree g"
  shows "n \<in> nodes g \<Longrightarrow> k < ht g n \<Longrightarrow> anc (g_add p r i b g) k n = anc g k n"
proof (induction k arbitrary: n)
  case (Suc k)
  then have "n \<noteq> 1" using ht_eq_1 [OF g] by fastforce
  note par = parD [OF g Suc.prems(1) this]
  with Suc.IH [OF par(1)] Suc.prems node_neq_new [OF Suc.prems(1)] show ?case
    by (simp add: anc_Suc)
qed simp

lemma anc_g_add_new:
  "wf_tree g \<Longrightarrow> p \<in> nodes g \<Longrightarrow> k < ht g p \<Longrightarrow>
    anc (g_add p r i b g) (Suc k) (Suc (gSize g)) = anc g k p"
  by (simp add: anc_Suc anc_g_add_old)

lemma link_of_g_add_old:
  assumes g: "wf_tree g" and n: "n \<in> nodes g"
  shows "link_of E (g_add p r i b g) n = link_of E g n"
proof -
  have "anc (g_add p r i b g) (2 ^ l) n = anc g (2 ^ l) n" if "l < ceillog2 (ht g n)" for l
    using that less_ceillog2_iff [OF ht_pos [OF g n]] by (intro anc_g_add_old [OF g n]) simp
  with node_neq_new [OF n] show ?thesis
    by (simp add: link_of_def lift_parents_def)
qed

lemma power_minus_1_less: "2 ^ l < Suc k \<Longrightarrow> 2 ^ l - 1 < (k :: nat)"
proof -
  assume "2 ^ l < Suc k"
  moreover have "(1::nat) \<le> 2 ^ l" by simp
  ultimately show ?thesis by linarith
qed

text \<open>The ancestors the loop of \<open>putNewLinkForBlock\<close> collects above the parent \<open>p\<close>.\<close>

lemma collectParents_lift:
  assumes R: "repr E db g" and p: "p \<in> nodes g" and h: "h = Suc (ht g p)"
  shows "l + k \<le> ceillog2 h \<Longrightarrow> l < ceillog2 h \<Longrightarrow>
    collectParents E db k l (word_of_nat (anc g (2 ^ l - 1) p)) acc =
      Ok (acc @ map (\<lambda>j. word_of_nat (anc g (2 ^ j - 1) p)) [l..<l + k])"
proof (induction k arbitrary: l acc)
  case (Suc k)
  note g = reprD(7) [OF R]
  have hp: "0 < h" using h by simp
  have lt: "2 ^ l < h" using Suc.prems less_ceillog2_iff [OF hp] by simp
  then have d: "2 ^ l - 1 < ht g p" unfolding h by (rule power_minus_1_less)
  let ?q = "anc g (2 ^ l - 1) p"
  have q: "?q \<in> nodes g" "ht g ?q = h - 2 ^ l"
    using anc_in_nodes [OF g p d] ht_anc [OF g p d] h by simp_all
  have upt: "[l..<l + Suc k] = l # [Suc l..<Suc l + k]"
    by (simp add: upt_conv_Cons del: upt_Suc)
  show ?case
  proof (cases k)
    case 0
    with rep_getLink [OF R q(1)] upt show ?thesis by simp
  next
    case (Suc k')
    with Suc.prems have l': "Suc l < ceillog2 h" by simp
    then have "2 ^ Suc l < h" using less_ceillog2_iff [OF hp] by blast
    then have "2 ^ l < ht g ?q" using q(2) by simp
    then have lq: "l < ceillog2 (ht g ?q)" using less_ceillog2_iff [OF ht_pos [OF g q(1)]] by simp
    have "anc g (2 ^ l) ?q = anc g (2 ^ Suc l - 1) p"
    proof -
      have "(1::nat) \<le> 2 ^ l" by simp
      then have "2 ^ l + (2 ^ l - 1) = 2 ^ Suc l - (1::nat)" by simp
      then show ?thesis by (simp only: anc_anc)
    qed
    with lq have par: "length (lParents (link_of E g ?q)) > l"
      "lParents (link_of E g ?q) ! l = word_of_nat (anc g (2 ^ Suc l - 1) p)" by simp_all
    have "Suc l + k \<le> ceillog2 h" using Suc.prems by simp
    from Suc.IH [OF this l', of "acc @ [word_of_nat ?q]"]
    have IH: "collectParents E db k (Suc l) (word_of_nat (anc g (2 ^ Suc l - 1) p)) (acc @ [word_of_nat ?q]) =
        Ok (acc @ map (\<lambda>j. word_of_nat (anc g (2 ^ j - 1) p)) [l..<l + Suc k])"
      unfolding upt by simp
    show ?thesis
      unfolding collectParents.simps Let_def rep_getLink [OF R q(1)] bind_res.simps
        if_P [OF par(1)] par(2) by (rule IH)
  qed
qed simp

lemma new_link:
  assumes E: "env_ok E" and R: "repr E db g" and p: "p \<in> nodes g"
    and b: "unat (bHeight b) = Suc (ht g p)" and n: "n = Suc (gSize g)"
  shows "putNewLinkForBlock E db batch num i (bHeight b) (gId g p) =
    putLink E batch num (link_of E (g_add p r i b g) n)"
proof -
  note g = reprD(7) [OF R]
  let ?h = "unat (bHeight b)" and ?g = "g_add p r i b g"
  have "0 < ht g p" by (rule ht_pos [OF g p])
  then have two: "2 ^ 0 < ?h" using b by simp
  then have l0: "0 < ceillog2 ?h" using less_ceillog2_iff [of ?h 0] by simp
  have nz: "bHeight b \<noteq> 0" using b by auto
  have "anc ?g (2 ^ l) n = anc g (2 ^ l - 1) p" if "l < ceillog2 ?h" for l
  proof -
    have "2 ^ l < ?h" using that two less_ceillog2_iff [of ?h l] by simp
    then have "2 ^ l - 1 < ht g p" unfolding b by (rule power_minus_1_less)
    moreover have "2 ^ l = Suc (2 ^ l - 1)" by simp
    ultimately show ?thesis using anc_g_add_new [OF g p] n by metis
  qed
  then have "lift_parents ?g n = map (\<lambda>l. anc g (2 ^ l - 1) p) [0..<ceillog2 ?h]"
    by (simp add: lift_parents_def n)
  moreover have "collectParents E db (ceillog2 ?h) 0 (word_of_nat p) [] =
      Ok (map (\<lambda>j. word_of_nat (anc g (2 ^ j - 1) p)) [0..<ceillog2 ?h])"
    using collectParents_lift [OF R p b, of 0 "ceillog2 ?h" "[]"] l0 by simp
  ultimately show ?thesis
    using nz rep_getNum [OF R p]
    by (simp add: putNewLinkForBlock_def maxParents_def link_of_def n comp_def)
qed

section \<open>The head of a new block\<close>

lemma length_heads_le:
  assumes "repr E db g"
  shows "length (gHeads g) \<le> gSize g"
proof -
  have "distinct (gHeads g)" "set (gHeads g) \<subseteq> nodes g"
    using reprD(9) [OF assms] by (auto simp: wf_heads_def tips_def)
  then have "length (gHeads g) \<le> card (nodes g)"
    by (metis card_mono distinct_card finite_atLeastAtMost nodes_def)
  then show ?thesis by (simp add: nodes_def)
qed

text \<open>The number of the head of block \<open>r\<close>, a new one when it has none.\<close>

fun index_of :: "'a \<Rightarrow> 'a list \<Rightarrow> nat" where
  "index_of x [] = 0"
| "index_of x (y # ys) = (if x = y then 0 else Suc (index_of x ys))"

lemma index_of_nth: "x \<in> set xs \<Longrightarrow> index_of x xs < length xs \<and> xs ! index_of x xs = x"
  by (induction xs) auto

lemma index_of_unknown: "x \<notin> set xs \<Longrightarrow> index_of x xs = length xs"
  by (induction xs) auto

lemma index_of_nth_distinct: "distinct xs \<Longrightarrow> i < length xs \<Longrightarrow> index_of (xs ! i) xs = i"
  by (metis index_of_nth nth_eq_iff_index_eq nth_mem)

definition head_ops :: "'id graph \<Rightarrow> nat \<Rightarrow> nat \<Rightarrow> batch" where
  "head_ops g r n =
     (let hn = word_of_nat (Suc (index_of r (gHeads g))) in
      (if r \<in> set (gHeads g) then BDelete (numKeyBytes blockToHeadPrefix (word_of_nat r))
       else BPut (counterKey headsCounter) (put_uint64 hn)) #
      [BPut (numKeyBytes headToBlockPrefix hn) (put_uint64 (word_of_nat n)),
       BPut (numKeyBytes blockToHeadPrefix (word_of_nat n)) (put_uint64 hn)])"

lemma putHead_rep:
  assumes R: "repr E db g" and r: "r \<in> nodes g"
  shows "putHead E db batch (word_of_nat n) (word_of_nat r) = Ok (batch @ head_ops g r n)"
proof (cases "r \<in> set (gHeads g)")
  case True
  note ix = index_of_nth [OF True]
  have "getHeadByBlockNum E db (word_of_nat r) = Ok (word_of_nat (Suc (index_of r (gHeads g))))"
    using reprD(4) [OF R] ix unfolding heads_rep_def by metis
  with True show ?thesis
    by (simp add: putHead_def head_ops_def putNum_def Let_def)
next
  case False
  have "getHeadByBlockNum E db (word_of_nat r) = Err ErrNotFound"
    "getCounter E db headsCounter = Ok (word_of_nat (length (gHeads g)))"
    using reprD(4) [OF R] False r unfolding heads_rep_def by blast+
  with False show ?thesis
    by (simp add: putHead_def putNewHead_def head_ops_def putNum_def putCounter_def Let_def
        index_of_unknown add.commute)
qed

section \<open>Adding a block refines \<open>g_add\<close>\<close>

text \<open>The batch both \<open>putProtoBlock\<close> and \<open>putMicroBlock\<close> write.\<close>

definition add_ops ::
  "('db, 'id) env \<Rightarrow> 'id graph \<Rightarrow> nat \<Rightarrow> 'id \<Rightarrow> bytes \<Rightarrow> bytes \<Rightarrow> batch" where
  "add_ops E g r i bbuf lbuf =
     (let n = Suc (gSize g) in
      [BPut (counterKey blocksCounter) (put_uint64 (word_of_nat n)),
       BPut (idKeyBytes E blockPrefix i) (put_uint64 (word_of_nat n)),
       BPut (numKeyBytes blockPrefix (word_of_nat n)) bbuf,
       BPut (numKeyBytes chainPrefix (word_of_nat n)) lbuf] @ head_ops g r n)"

lemma batch_get_head_ops:
  assumes "k \<noteq> counterKey headsCounter" "\<And>w. k \<noteq> numKeyBytes headToBlockPrefix w"
    "\<And>w. k \<noteq> numKeyBytes blockToHeadPrefix w"
  shows "batch_get (head_ops g r n) k v = v"
proof -
  have "counterKey headsCounter \<noteq> k" "numKeyBytes headToBlockPrefix w \<noteq> k"
    "numKeyBytes blockToHeadPrefix w \<noteq> k" for w
    using assms by blast+
  then show ?thesis by (simp add: head_ops_def Let_def)
qed

lemma read_counter_after [simp]:
  "batch_get (add_ops E g r i bbuf lbuf) (counterKey blocksCounter) v =
     Ok (put_uint64 (word_of_nat (Suc (gSize g))))"
  by (simp add: add_ops_def Let_def head_ops_def key_simps)

lemma read_id_after:
  "env_ok E \<Longrightarrow> batch_get (add_ops E g r i bbuf lbuf) (idKeyBytes E blockPrefix j) v =
     (if j = i then Ok (put_uint64 (word_of_nat (Suc (gSize g)))) else v)"
  by (auto simp: add_ops_def Let_def head_ops_def key_simps)

lemma read_block_after:
  "env_ok E \<Longrightarrow> batch_get (add_ops E g r i bbuf lbuf) (numKeyBytes blockPrefix w) v =
     (if w = word_of_nat (Suc (gSize g)) then Ok bbuf else v)"
  by (auto simp: add_ops_def Let_def head_ops_def key_simps)

lemma read_link_after:
  "env_ok E \<Longrightarrow> batch_get (add_ops E g r i bbuf lbuf) (numKeyBytes chainPrefix w) v =
     (if w = word_of_nat (Suc (gSize g)) then Ok lbuf else v)"
  by (auto simp: add_ops_def Let_def head_ops_def key_simps)

lemma read_leash_after:
  "env_ok E \<Longrightarrow> batch_get (add_ops E g r i bbuf lbuf) (addrKeyBytes a) v = v"
  by (auto simp: add_ops_def Let_def head_ops_def key_simps)

lemma read_heads_counter_after:
  "env_ok E \<Longrightarrow> batch_get (add_ops E g r i bbuf lbuf) (counterKey headsCounter) v =
     (if r \<in> set (gHeads g) then v
      else Ok (put_uint64 (word_of_nat (Suc (length (gHeads g))))))"
  by (auto simp: add_ops_def Let_def head_ops_def key_simps index_of_unknown)

lemma read_head_block_after:
  "env_ok E \<Longrightarrow> batch_get (add_ops E g r i bbuf lbuf) (numKeyBytes headToBlockPrefix w) v =
     (if w = word_of_nat (Suc (index_of r (gHeads g)))
      then Ok (put_uint64 (word_of_nat (Suc (gSize g)))) else v)"
  by (auto simp: add_ops_def Let_def head_ops_def key_simps)

lemma read_block_head_after:
  "env_ok E \<Longrightarrow> batch_get (add_ops E g r i bbuf lbuf) (numKeyBytes blockToHeadPrefix w) v =
     (if w = word_of_nat (Suc (gSize g))
      then Ok (put_uint64 (word_of_nat (Suc (index_of r (gHeads g)))))
      else if w = word_of_nat r \<and> r \<in> set (gHeads g) then Err ErrNotFound else v)"
  by (auto simp: add_ops_def Let_def head_ops_def key_simps)

lemmas reads_after =
  read_id_after read_block_after read_link_after read_leash_after read_heads_counter_after
  read_head_block_after read_block_head_after

text \<open>A store after the batch of a new block: \<open>K\<close> says what every key reads.\<close>

lemma blocks_rep_add:
  assumes E: "env_ok E" and R: "repr E db g" and size: "Suc (gSize g) < 2 ^ 64"
    and i: "i \<notin> gId g ` nodes g"
    and bbuf: "block_unmarshal E bbuf = Ok b"
    and lbuf: "link_unmarshal E lbuf = Ok (link_of E (g_add p r i b g) (Suc (gSize g)))"
    and K: "\<And>k. db_get (ldb E) db' k = batch_get (add_ops E g r i bbuf lbuf) k (db_get (ldb E) db k)"
  shows "blocks_rep E db' (g_add p r i b g)"
proof -
  let ?n = "Suc (gSize g)" and ?g = "g_add p r i b g"
  note g = reprD(7) [OF R]
  have cnt: "getCounter E db' blocksCounter = Ok (word_of_nat ?n)"
    by (simp add: getCounter_def K size_defs)
  have num: "getNumOfBlockID E db' j =
      (if j = i then Ok (word_of_nat ?n) else getNumOfBlockID E db j)" for j
    by (simp add: getNumOfBlockID_def K reads_after [OF E] size_defs)
  have blk: "getBlock E db' w = (if w = word_of_nat ?n then Ok b else getBlock E db w)" for w
    by (simp add: getBlock_def K reads_after [OF E] bbuf)
  have lnk: "getLink E db' w =
      (if w = word_of_nat ?n then Ok (link_of E ?g ?n) else getLink E db w)" for w
    by (simp add: getLink_def K reads_after [OF E] lbuf)
  have old: "(word_of_nat m :: u64) \<noteq> word_of_nat ?n" "gId g m \<noteq> i" "m \<noteq> ?n" if "m \<in> nodes g" for m
  proof -
    have "m < 2 ^ 64" "m \<noteq> ?n" using that size by (auto simp: nodes_def)
    with size show "(word_of_nat m :: u64) \<noteq> word_of_nat ?n" "m \<noteq> ?n"
      by (simp_all only: word_of_nat_Suc_eq_iff not_False_eq_True)
    show "gId g m \<noteq> i" using that i by blast
  qed
  show ?thesis
    unfolding blocks_rep_def
  proof (intro conjI ballI allI impI)
    show "gSize ?g < 2 ^ 64" using size by simp
    show "getCounter E db' blocksCounter = Ok (word_of_nat (gSize ?g))" using cnt by simp
    fix m assume "m \<in> nodes ?g"
    then consider "m = ?n" | "m \<in> nodes g" by (auto simp: nodes_g_add)
    then have "getBlock E db' (word_of_nat m) = Ok (gBlk ?g m) \<and>
        getLink E db' (word_of_nat m) = Ok (link_of E ?g m) \<and>
        getNumOfBlockID E db' (gId ?g m) = Ok (word_of_nat m)"
    proof cases
      case 1
      then show ?thesis by (simp add: blk lnk num)
    next
      case 2
      with old [OF 2] show ?thesis
        by (simp add: blk lnk num rep_getBlock [OF R 2] rep_getLink [OF R 2] rep_getNum [OF R 2]
            link_of_g_add_old [OF g 2] del: of_nat_Suc)
    qed
    then show "getBlock E db' (word_of_nat m) = Ok (gBlk ?g m)"
      "getLink E db' (word_of_nat m) = Ok (link_of E ?g m)"
      "getNumOfBlockID E db' (gId ?g m) = Ok (word_of_nat m)" by blast+
  next
    fix j assume "j \<notin> gId ?g ` nodes ?g"
    then have "j \<noteq> i" "j \<notin> gId g ` nodes g"
      using old(3) by (auto simp: nodes_g_add image_iff)
    then show "getNumOfBlockID E db' j = Err ErrNotFound"
      by (simp add: num rep_getNum_unknown [OF R])
  qed
qed

lemma head_index_less:
  "repr E db g \<Longrightarrow> Suc (gSize g) < 2 ^ 64 \<Longrightarrow> h \<le> length (gHeads g) \<Longrightarrow> Suc h < 2 ^ 64"
  using length_heads_le [of E db g] by linarith

lemma nth_move_head:
  assumes "distinct hs" "h < length (move_head hs r n)"
  shows "move_head hs r n ! h = (if h = index_of r hs then n else hs ! h)"
proof (cases "r \<in> set hs")
  case True
  with assms index_of_nth [OF True] index_of_nth_distinct [OF assms(1), of h] show ?thesis
    by (auto simp: move_head_def)
next
  case False
  with assms show ?thesis
    by (auto simp: move_head_def index_of_unknown nth_append less_Suc_eq)
qed

lemma length_move_head:
  "length (move_head hs r n) = (if r \<in> set hs then length hs else Suc (length hs))"
  by (simp add: move_head_def)

lemma heads_rep_add:
  assumes E: "env_ok E" and R: "repr E db g" and size: "Suc (gSize g) < 2 ^ 64"
    and r: "r \<in> nodes g"
    and K: "\<And>k. db_get (ldb E) db' k = batch_get (add_ops E g r i bbuf lbuf) k (db_get (ldb E) db k)"
  shows "heads_rep E db' (g_add p r i b g)"
proof -
  let ?n = "Suc (gSize g)" and ?g = "g_add p r i b g" and ?hs = "gHeads g"
  let ?hs' = "move_head ?hs r ?n" and ?ix = "index_of r ?hs"
  note old = reprD(4) [OF R, unfolded heads_rep_def]
  have dist: "distinct ?hs" using reprD(9) [OF R] by (simp add: wf_heads_def)
  have ix: "?ix \<le> length ?hs" "r \<in> set ?hs \<Longrightarrow> ?ix < length ?hs \<and> ?hs ! ?ix = r"
    using index_of_nth [of r ?hs] index_of_unknown [of r ?hs] by (cases "r \<in> set ?hs"; simp)+
  have head_eq: "(word_of_nat (Suc h) :: u64) = word_of_nat (Suc ?ix) \<longleftrightarrow> h = ?ix"
    if "h \<le> length ?hs" for h
    using word_of_nat_Suc_eq_iff [OF head_index_less [OF R size that] head_index_less [OF R size ix(1)]]
    by simp
  have node_eq: "(word_of_nat m :: u64) = word_of_nat ?n \<longleftrightarrow> m = ?n"
      "(word_of_nat m :: u64) = word_of_nat r \<longleftrightarrow> m = r" if "m \<in> nodes ?g" for m
  proof -
    have "m < 2 ^ 64" "r < 2 ^ 64" using that r size by (auto simp: nodes_g_add) (auto simp: nodes_def)
    with size show "(word_of_nat m :: u64) = word_of_nat ?n \<longleftrightarrow> m = ?n"
      "(word_of_nat m :: u64) = word_of_nat r \<longleftrightarrow> m = r"
      by (simp_all only: word_of_nat_Suc_eq_iff)
  qed
  have rn: "r \<noteq> ?n" by (rule node_neq_new [OF r])
  have b2h: "getHeadByBlockNum E db' w =
      (if w = word_of_nat ?n then Ok (word_of_nat (Suc ?ix))
       else if w = word_of_nat r \<and> r \<in> set ?hs then Err ErrNotFound
       else getHeadByBlockNum E db w)" for w
    by (simp add: getHeadByBlockNum_def K read_block_head_after [OF E] size_defs)
  have h2b: "db_get (ldb E) db' (numKeyBytes headToBlockPrefix w) =
      (if w = word_of_nat (Suc ?ix) then Ok (put_uint64 (word_of_nat ?n))
       else db_get (ldb E) db (numKeyBytes headToBlockPrefix w))" for w
    by (simp add: K read_head_block_after [OF E])
  show ?thesis
    unfolding heads_rep_def g_add_simps
  proof (intro conjI allI impI ballI)
    show "getCounter E db' headsCounter = Ok (word_of_nat (length ?hs'))"
      using old by (auto simp: getCounter_def K read_heads_counter_after [OF E] size_defs length_move_head)
  next
    fix h assume h: "h < length ?hs'"
    then have hle: "h \<le> length ?hs" by (simp add: length_move_head split: if_splits)
    have nth: "?hs' ! h = (if h = ?ix then ?n else ?hs ! h)"
      by (rule nth_move_head [OF dist h])
    have hlt: "h < length ?hs" if "h \<noteq> ?ix"
      using that h by (auto simp: length_move_head index_of_unknown split: if_splits)
    have *: "db_get (ldb E) db' (numKeyBytes headToBlockPrefix (word_of_nat (Suc h))) =
          Ok (put_uint64 (word_of_nat (?hs' ! h))) \<and>
        getHeadByBlockNum E db' (word_of_nat (?hs' ! h)) = Ok (word_of_nat (Suc h))"
    proof (cases "h = ?ix")
      case True
      then show ?thesis unfolding nth by (simp add: h2b b2h)
    next
      case False
      have m: "?hs ! h \<in> nodes g" by (rule head_in_nodes [OF R hlt [OF False]])
      then have m': "?hs ! h \<in> nodes ?g" by (simp add: nodes_g_add)
      have "?hs ! h \<noteq> r" if "r \<in> set ?hs"
        using False hlt [OF False] ix(2) [OF that] dist by (metis nth_eq_iff_index_eq)
      then have "\<not> (?hs ! h = r \<and> r \<in> set ?hs)" by blast
      with False m node_neq_new [OF m] old hlt [OF False] show ?thesis
        by (simp add: nth h2b b2h head_eq [OF hle] node_eq [OF m'] del: of_nat_Suc)
    qed
    then show "db_get (ldb E) db' (numKeyBytes headToBlockPrefix (word_of_nat (Suc h))) =
          Ok (put_uint64 (word_of_nat (?hs' ! h)))"
      and "getHeadByBlockNum E db' (word_of_nat (?hs' ! h)) = Ok (word_of_nat (Suc h))"
      by blast+
  next
    fix w v assume v: "db_get (ldb E) db' (numKeyBytes headToBlockPrefix w) = Ok v"
    show "\<exists>h < length ?hs'. w = word_of_nat (Suc h)"
    proof (cases "w = word_of_nat (Suc ?ix)")
      case True
      with ix show ?thesis by (auto simp: length_move_head index_of_unknown intro!: exI [of _ ?ix])
    next
      case False
      with v have "db_get (ldb E) db (numKeyBytes headToBlockPrefix w) = Ok v" by (simp add: h2b)
      then obtain h where "h < length ?hs" "w = word_of_nat (Suc h)" using old by blast
      then show ?thesis by (auto simp: length_move_head intro!: exI [of _ h])
    qed
  next
    fix m assume m: "m \<in> nodes ?g" "m \<notin> set ?hs'"
    then have "m \<noteq> ?n" "m \<noteq> r \<Longrightarrow> m \<notin> set ?hs" by (auto simp: set_move_head split: if_splits)
    moreover from m(1) this(1) have "m \<in> nodes g" by (simp add: nodes_g_add)
    ultimately show "getHeadByBlockNum E db' (word_of_nat m) = Err ErrNotFound"
      using old m by (auto simp: b2h node_eq [OF m(1)] simp del: of_nat_Suc)
  qed
qed

lemma leashes_rep_add:
  assumes E: "env_ok E" and R: "repr E db g"
    and K: "\<And>k. db_get (ldb E) db' k = batch_get (add_ops E g r i bbuf lbuf) k (db_get (ldb E) db k)"
  shows "leashes_rep E db' (g_add p r i b g)"
  using reprD(5) [OF R] by (simp add: leashes_rep_def K read_leash_after [OF E])

lemma keys_rep_add:
  assumes E: "env_ok E" and R: "repr E db g"
    and K: "\<And>k. db_get (ldb E) db' k = batch_get (add_ops E g r i bbuf lbuf) k (db_get (ldb E) db k)"
  shows "keys_rep E db'"
proof -
  note old = reprD(6) [OF R, unfolded keys_rep_def]
  have head: "db_get (ldb E) db (headToBlockPrefix # k) = Ok v \<or>
      (\<exists>w. headToBlockPrefix # k = numKeyBytes headToBlockPrefix w)"
    if "db_get (ldb E) db' (headToBlockPrefix # k) = Ok v" for k v
  proof (cases "\<exists>w. headToBlockPrefix # k = numKeyBytes headToBlockPrefix w")
    case False
    then have "batch_get (add_ops E g r i bbuf lbuf) (headToBlockPrefix # k) u = u" for u
      by (auto simp: add_ops_def head_ops_def Let_def counterKey_def idKeyBytes_def numKeyBytes_def
          prefix_defs)
    with that show ?thesis by (simp add: K)
  qed simp
  have leash: "db_get (ldb E) db' (leashPrefix # k) = db_get (ldb E) db (leashPrefix # k)" for k
    by (auto simp: K add_ops_def head_ops_def Let_def counterKey_def idKeyBytes_def numKeyBytes_def
        prefix_defs)
  from head leash old show ?thesis unfolding keys_rep_def by metis
qed

lemma repr_add:
  assumes E: "env_ok E" and R: "repr E db g" and size: "Suc (gSize g) < 2 ^ 64"
    and p: "p \<in> nodes g" and r: "r \<in> nodes g" and i: "i \<notin> gId g ` nodes g"
    and b: "unat (bHeight b) = Suc (ht g p)" "bID b = id_bytes E i"
      "bParent b = id_bytes E (gId g p)" "address_of_bytes E (bGenerator b) = Ok (bGenerator b)"
      "bScore b = Some s" "bScore (gBlk g p) = Some q" "q \<le> s"
    and bbuf: "block_marshal E b = Ok bbuf"
    and lbuf: "link_marshal E (link_of E (g_add p r i b g) (Suc (gSize g))) = Ok lbuf"
    and w: "db_write (ldb E) db (add_ops E g r i bbuf lbuf) = Ok db'"
  shows "repr E db' (g_add p r i b g)"
proof -
  let ?n = "Suc (gSize g)" and ?g = "g_add p r i b g"
  note g = reprD(7) [OF R]
  have K: "db_get (ldb E) db' k = batch_get (add_ops E g r i bbuf lbuf) k (db_get (ldb E) db k)" for k
    by (rule leveldb_okD(2) [OF env_okD(1) [OF E] w])
  have "wf_graph ?g"
    unfolding wf_graph_def
    using wf_tree_g_add [OF g p r i b(1)] wf_scores_g_add [OF g reprD(8) [OF R] p b(5-7)]
      wf_heads_g_add [OF g reprD(9) [OF R] r] wf_leashes_g_add [OF reprD(10) [OF R]] by blast
  moreover have "fields_rep E ?g"
  proof -
    have "?n \<noteq> 1" using g by (simp add: wf_tree_def)
    moreover have "gPar g m \<noteq> ?n" if "m \<in> nodes g" "m \<noteq> 1" for m
      using parD(1) [OF g that] by (rule node_neq_new)
    ultimately show ?thesis
      using reprD(2) [OF R] b node_neq_new [OF p]
      by (auto simp: fields_rep_def nodes_g_add dest: node_neq_new)
  qed
  moreover have "blocks_rep E db' ?g"
    by (rule blocks_rep_add [OF E R size i env_okD(2) [OF E bbuf] env_okD(3) [OF E lbuf] K])
  moreover have "heads_rep E db' ?g" by (rule heads_rep_add [OF E R size r K])
  moreover have "leashes_rep E db' ?g" by (rule leashes_rep_add [OF E R K])
  moreover have "keys_rep E db'" by (rule keys_rep_add [OF E R K])
  ultimately show ?thesis by (simp add: repr_def)
qed

section \<open>The methods\<close>

text \<open>
  What \<open>putProtoBlock\<close> does on a store that represents a tree: with the parent's number
  \<open>p\<close> it makes the stored block from the parent's height and score and writes one batch.
\<close>

lemma putProtoBlock_eq:
  assumes E: "env_ok E" and R: "repr E db g" and p: "p \<in> nodes g"
    and par: "BlockParent blk = gId g p" and h: "ht g p < 2 ^ 32 - 1"
  shows "putProtoBlock E scheme blk db =
    bind_res (db_snapshot (ldb E) db) (\<lambda>_.
    bind_res (newBlock E scheme blk (bHeight (gBlk g p) + 1) (bScore (gBlk g p))) (\<lambda>b.
    bind_res (block_marshal E b) (\<lambda>bbuf.
    bind_res (link_marshal E (link_of E (g_add p p (BlockID blk) b g) (Suc (gSize g)))) (\<lambda>lbuf.
    db_write (ldb E) db (add_ops E g p (BlockID blk) bbuf lbuf)))))"
proof (cases "db_snapshot (ldb E) db")
  case (Ok sn)
  then have sn: "db_snapshot (ldb E) db = Ok db"
    using leveldb_okD(1) [OF env_okD(1) [OF E]] by metis
  note reads = rep_getCounter [OF R] rep_getNum [OF R p] rep_getBlock [OF R p]
  let ?nb = "newBlock E scheme blk (bHeight (gBlk g p) + 1) (bScore (gBlk g p))"
  show ?thesis
  proof (cases ?nb)
    case (Ok b)
    then have "bHeight b = bHeight (gBlk g p) + 1"
      by (auto simp: newBlock_def bind_res_eq_Ok)
    then have b: "unat (bHeight b) = Suc (ht g p)"
      using h by (simp add: unat_word_ariths)
    have n: "word_of_nat (gSize g) + 1 = (word_of_nat (Suc (gSize g)) :: u64)" by simp
    have lnk: "putNewLinkForBlock E db batch num i (bHeight b) (gId g p) =
        putLink E batch num (link_of E (g_add p p i b g) (Suc (gSize g)))" for batch num i
      by (rule new_link [OF E R p b refl])
    show ?thesis
      unfolding putProtoBlock_def with_snapshot_def sn par bind_res.simps reads Let_def n Ok lnk
      by (cases "block_marshal E b"; cases "link_marshal E (link_of E (g_add p p (BlockID blk) b g) (Suc (gSize g)))")
         (simp_all add: putBlock_def putLink_def putHead_rep [OF R p] putCounter_def putID_def
          add_ops_def Let_def par del: of_nat_Suc)
  qed (simp_all add: putProtoBlock_def with_snapshot_def sn par reads Let_def)
qed (simp_all add: putProtoBlock_def with_snapshot_def)

lemma newBlock_Ok:
  assumes "env_ok E" "newBlock E scheme blk h (Some q) = Ok b"
  obtains s where "bHeight b = h" "bScore b = Some (s + q)" "0 \<le> s" "bTimestamp b = BlockTimestamp blk"
    "calculateScore (BlockBaseTarget blk) = Ok s"
    "bID b = id_bytes E (BlockID blk)" "bParent b = id_bytes E (BlockParent blk)"
    "address_of_bytes E (bGenerator b) = Ok (bGenerator b)"
    "address_of_key E scheme (GeneratorPublicKey blk) = Ok (bGenerator b)"
proof -
  from assms(2) obtain ga s where ga: "address_of_key E scheme (GeneratorPublicKey blk) = Ok ga"
    and s: "calculateScore (BlockBaseTarget blk) = Ok s"
    and b: "b = \<lparr>bHeight = h, bTimestamp = BlockTimestamp blk, bScore = Some (s + q),
      bID = id_bytes E (BlockID blk), bParent = id_bytes E (BlockParent blk), bGenerator = ga\<rparr>"
    by (auto simp: newBlock_def calculateCumulativeScore_def bind_res_eq_Ok)
  from that [of s] show ?thesis
    using b s ga calculateScore_nonneg [OF s] env_okD(7) [OF assms(1) ga] by simp
qed

lemma putProtoBlock_refines:
  assumes E: "env_ok E" and R: "repr E db g" and size: "Suc (gSize g) < 2 ^ 64"
    and p: "p \<in> nodes g" and par: "BlockParent blk = gId g p" and h: "ht g p < 2 ^ 32 - 1"
    and new: "BlockID blk \<notin> gId g ` nodes g"
    and put: "putProtoBlock E scheme blk db = Ok db'"
  shows "\<exists>b. newBlock E scheme blk (bHeight (gBlk g p) + 1) (bScore (gBlk g p)) = Ok b \<and>
    repr E db' (g_add p p (BlockID blk) b g)"
proof -
  from put [unfolded putProtoBlock_eq [OF E R p par h]] obtain b bbuf lbuf where
    nb: "newBlock E scheme blk (bHeight (gBlk g p) + 1) (bScore (gBlk g p)) = Ok b"
    and bbuf: "block_marshal E b = Ok bbuf"
    and lbuf: "link_marshal E (link_of E (g_add p p (BlockID blk) b g) (Suc (gSize g))) = Ok lbuf"
    and w: "db_write (ldb E) db (add_ops E g p (BlockID blk) bbuf lbuf) = Ok db'"
    by (auto simp: bind_res_eq_Ok)
  obtain q where q: "bScore (gBlk g p) = Some q" using score_Some [OF reprD(8) [OF R] p] by blast
  obtain s where b: "bHeight b = bHeight (gBlk g p) + 1" "bScore b = Some (s + q)" "0 \<le> s"
    "bID b = id_bytes E (BlockID blk)" "bParent b = id_bytes E (BlockParent blk)"
    "address_of_bytes E (bGenerator b) = Ok (bGenerator b)"
    by (rule newBlock_Ok [OF E nb [unfolded q]])
  have "unat (bHeight b) = Suc (ht g p)" using h b(1) by (simp add: unat_word_ariths)
  with b par have "repr E db' (g_add p p (BlockID blk) b g)"
    by (intro repr_add [OF E R size p p new _ _ _ _ _ q _ bbuf lbuf w]) auto
  with nb show ?thesis by blast
qed

lemma calculateScore_total: "unat bt \<le> MaxInt64 \<Longrightarrow> \<exists>s. calculateScore bt = Ok s"
  by (cases "bt = 0") (simp_all add: calculateScore_def)

lemma newBlock_live:
  assumes "env_live E" "unat (BlockBaseTarget blk) \<le> MaxInt64"
  shows "\<exists>b. newBlock E scheme blk h ps = Ok b"
  using env_liveD(4) [OF assms(1)] assms(2)
  by (auto simp: newBlock_def calculateCumulativeScore_def calculateScore_def bind_res_eq_Ok
      split: option.splits)

lemma putProtoBlock_live:
  assumes E: "env_ok E" and live: "env_live E" and R: "repr E db g"
    and p: "p \<in> nodes g" and par: "BlockParent blk = gId g p" and h: "ht g p < 2 ^ 32 - 1"
    and bt: "unat (BlockBaseTarget blk) \<le> MaxInt64"
  shows "\<exists>db'. putProtoBlock E scheme blk db = Ok db'"
proof -
  obtain b where b: "newBlock E scheme blk (bHeight (gBlk g p) + 1) (bScore (gBlk g p)) = Ok b"
    using newBlock_live [OF live bt] by blast
  obtain bbuf where bbuf: "block_marshal E b = Ok bbuf" using env_liveD(2) [OF live] by blast
  obtain lbuf where lbuf:
    "link_marshal E (link_of E (g_add p p (BlockID blk) b g) (Suc (gSize g))) = Ok lbuf"
    using env_liveD(3) [OF live] by blast
  show ?thesis
    unfolding putProtoBlock_eq [OF E R p par h] leveldb_liveD(1) [OF env_liveD(1) [OF live]]
      bind_res.simps b bbuf lbuf
    by (rule leveldb_liveD(2) [OF env_liveD(1) [OF live]])
qed

lemma putProtoBlock_no_parent:
  assumes "env_ok E" "env_live E" "repr E db g" "BlockParent blk \<notin> gId g ` nodes g"
  shows "putProtoBlock E scheme blk db = Err ErrNotFound"
  by (simp add: putProtoBlock_def with_snapshot_live [OF env_liveD(1) [OF assms(2)]]
      rep_getCounter [OF assms(3)] rep_getNum_unknown [OF assms(3,4)])

text \<open>A base target above \<open>2 ^ 63 - 1\<close> makes the conversion to \<open>int64\<close> panic.\<close>

lemma putProtoBlock_panic:
  assumes E: "env_ok E" and live: "env_live E" and R: "repr E db g"
    and p: "p \<in> nodes g" and par: "BlockParent blk = gId g p"
    and bt: "MaxInt64 < unat (BlockBaseTarget blk)"
  shows "putProtoBlock E scheme blk db = Panic"
proof -
  obtain ga where "address_of_key E scheme (GeneratorPublicKey blk) = Ok ga"
    using env_liveD(4) [OF live] by blast
  moreover have "calculateScore (BlockBaseTarget blk) = Panic"
    using bt by (auto simp: calculateScore_def)
  ultimately have "newBlock E scheme blk h ps = Panic" for h ps
    by (simp add: newBlock_def calculateCumulativeScore_def)
  then show ?thesis
    by (simp add: putProtoBlock_def with_snapshot_live [OF env_liveD(1) [OF live]]
        rep_getCounter [OF R] rep_getNum [OF R p] rep_getBlock [OF R p] par Let_def)
qed

text \<open>
  A micro-block stands at the height of the block it refers to, with its timestamp, score and
  generator, as another child of that block's parent.
\<close>

definition micro_block :: "('db, 'id) env \<Rightarrow> 'id micro_block_inv \<Rightarrow> block \<Rightarrow> block" where
  "micro_block E mb ref = ref\<lparr>bID := id_bytes E (TotalBlockID mb)\<rparr>"

lemma micro_block_simps [simp]:
  "bHeight (micro_block E mb ref) = bHeight ref" "bTimestamp (micro_block E mb ref) = bTimestamp ref"
  "bScore (micro_block E mb ref) = bScore ref" "bID (micro_block E mb ref) = id_bytes E (TotalBlockID mb)"
  "bParent (micro_block E mb ref) = bParent ref" "bGenerator (micro_block E mb ref) = bGenerator ref"
  by (simp_all add: micro_block_def)

lemma putMicroBlock_eq:
  assumes E: "env_ok E" and R: "repr E db g" and r: "r \<in> nodes g" "r \<noteq> 1"
    and ref: "Reference mb = gId g r"
  shows "putMicroBlock E mb db =
    (let b = micro_block E mb (gBlk g r); g' = g_add (gPar g r) r (TotalBlockID mb) b g in
    bind_res (db_snapshot (ldb E) db) (\<lambda>_.
    bind_res (block_marshal E b) (\<lambda>bbuf.
    bind_res (link_marshal E (link_of E g' (Suc (gSize g)))) (\<lambda>lbuf.
    db_write (ldb E) db (add_ops E g r (TotalBlockID mb) bbuf lbuf)))))"
proof (cases "db_snapshot (ldb E) db")
  case (Ok sn)
  then have sn: "db_snapshot (ldb E) db = Ok db"
    using leveldb_okD(1) [OF env_okD(1) [OF E]] by metis
  let ?b = "micro_block E mb (gBlk g r)"
  note par = parD [OF reprD(7) [OF R] r]
  have rec: "\<lparr>bHeight = bHeight (gBlk g r), bTimestamp = bTimestamp (gBlk g r),
      bScore = bScore (gBlk g r), bID = id_bytes E (TotalBlockID mb),
      bParent = bParent (gBlk g r), bGenerator = bGenerator (gBlk g r)\<rparr> = ?b"
    by (simp add: micro_block_def)
  have "bParent (gBlk g r) = id_bytes E (gId g (gPar g r))"
    using reprD(2) [OF R] r by (simp add: fields_rep_def)
  then have pid: "id_of_bytes E (bParent (gBlk g r)) = Ok (gId g (gPar g r))"
    by (simp add: env_okD(4) [OF E])
  have n: "word_of_nat (gSize g) + 1 = (word_of_nat (Suc (gSize g)) :: u64)" by simp
  have "unat (bHeight ?b) = Suc (ht g (gPar g r))" using par(5) by simp
  from new_link [OF E R par(1) this refl]
  have lnk: "putNewLinkForBlock E db batch num i (bHeight ?b) (gId g (gPar g r)) =
      putLink E batch num (link_of E (g_add (gPar g r) r i ?b g) (Suc (gSize g)))" for batch num i
    by (simp add: link_of_def lift_parents_def anc_def)
  show ?thesis
    unfolding putMicroBlock_def with_snapshot_def sn ref bind_res.simps rep_getCounter [OF R]
      rep_getNum [OF R r(1)] rep_getBlock [OF R r(1)] Let_def n rec pid lnk
    by (cases "block_marshal E ?b";
        cases "link_marshal E (link_of E (g_add (gPar g r) r (TotalBlockID mb) ?b g) (Suc (gSize g)))")
       (simp_all add: putBlock_def putLink_def putHead_rep [OF R r(1)] putCounter_def putID_def
        add_ops_def Let_def del: of_nat_Suc)
qed (simp_all add: putMicroBlock_def with_snapshot_def Let_def)

lemma putMicroBlock_refines:
  assumes E: "env_ok E" and R: "repr E db g" and size: "Suc (gSize g) < 2 ^ 64"
    and r: "r \<in> nodes g" "r \<noteq> 1" and ref: "Reference mb = gId g r"
    and new: "TotalBlockID mb \<notin> gId g ` nodes g"
    and put: "putMicroBlock E mb db = Ok db'"
  shows "repr E db' (g_add (gPar g r) r (TotalBlockID mb) (micro_block E mb (gBlk g r)) g)"
proof -
  note par = parD [OF reprD(7) [OF R] r]
  let ?b = "micro_block E mb (gBlk g r)"
  from put [unfolded putMicroBlock_eq [OF E R r ref] Let_def] obtain bbuf lbuf where
    bbuf: "block_marshal E ?b = Ok bbuf"
    and lbuf: "link_marshal E (link_of E (g_add (gPar g r) r (TotalBlockID mb) ?b g) (Suc (gSize g))) = Ok lbuf"
    and w: "db_write (ldb E) db (add_ops E g r (TotalBlockID mb) bbuf lbuf) = Ok db'"
    by (auto simp: bind_res_eq_Ok)
  obtain s q where "bScore (gBlk g r) = Some s" "bScore (gBlk g (gPar g r)) = Some q" "q \<le> s"
    using reprD(8) [OF R] r unfolding wf_scores_def by blast
  moreover have "bParent (gBlk g r) = id_bytes E (gId g (gPar g r))"
    "address_of_bytes E (bGenerator (gBlk g r)) = Ok (bGenerator (gBlk g r))"
    using reprD(2) [OF R] r by (simp_all add: fields_rep_def)
  ultimately show ?thesis
    using par(5) by (intro repr_add [OF E R size par(1) r(1) new _ _ _ _ _ _ _ bbuf lbuf w]) auto
qed

lemma putMicroBlock_live:
  assumes E: "env_ok E" and live: "env_live E" and R: "repr E db g"
    and r: "r \<in> nodes g" "r \<noteq> 1" and ref: "Reference mb = gId g r"
  shows "\<exists>db'. putMicroBlock E mb db = Ok db'"
proof -
  let ?b = "micro_block E mb (gBlk g r)"
  obtain bbuf where bbuf: "block_marshal E ?b = Ok bbuf" using env_liveD(2) [OF live] by blast
  obtain lbuf where lbuf:
    "link_marshal E (link_of E (g_add (gPar g r) r (TotalBlockID mb) ?b g) (Suc (gSize g))) = Ok lbuf"
    using env_liveD(3) [OF live] by blast
  show ?thesis
    unfolding putMicroBlock_eq [OF E R r ref] Let_def
      leveldb_liveD(1) [OF env_liveD(1) [OF live]] bind_res.simps bbuf lbuf
    by (rule leveldb_liveD(2) [OF env_liveD(1) [OF live]])
qed

text \<open>No micro-block refers to the genesis block: its parent field is empty.\<close>

lemma id_of_bytes_Nil: "env_ok E \<Longrightarrow> id_of_bytes E [] \<noteq> Ok i"
  using env_okD(5) [of E "[]" i] env_okD(6) [of E i] by fastforce

lemma putMicroBlock_genesis:
  assumes E: "env_ok E" and live: "env_live E" and R: "repr E db g" and ref: "Reference mb = gId g 1"
  shows "\<not> is_ok (putMicroBlock E mb db)"
proof -
  note one = one_in_nodes [OF reprD(7) [OF R]]
  have par: "bParent (gBlk g 1) = []" using reprD(2) [OF R] one by (simp add: fields_rep_def)
  show ?thesis
    unfolding putMicroBlock_def with_snapshot_live [OF env_liveD(1) [OF live]] ref
      rep_getCounter [OF R] rep_getNum [OF R one] rep_getBlock [OF R one] bind_res.simps par
    by (cases "id_of_bytes E []") (simp_all add: id_of_bytes_Nil [OF E] is_ok_iff)
qed

text \<open>A micro-block on an unknown block fails.\<close>

lemma putMicroBlock_no_ref:
  assumes "env_ok E" "env_live E" "repr E db g" "Reference mb \<notin> gId g ` nodes g"
  shows "putMicroBlock E mb db = Err ErrNotFound"
  by (simp add: putMicroBlock_def with_snapshot_live [OF env_liveD(1) [OF assms(2)]]
      rep_getCounter [OF assms(3)] rep_getNum_unknown [OF assms(3,4)])

section \<open>Leashes\<close>

lemma leashes_rep_leash:
  assumes E: "env_ok E" and R: "repr E db g" and a: "plain a"
    and K: "\<And>k. db_get (ldb E) db' k = batch_get [BPut (addrKeyBytes a) (id_bytes E i)] k (db_get (ldb E) db k)"
  shows "leashes_rep E db' (g_leash a i g)"
  using reprD(5) [OF R] a by (auto simp: leashes_rep_def K key_simps)

lemma updateLeash_refines:
  assumes E: "env_ok E" and R: "repr E db g" and a: "plain a" and i: "i \<in> gId g ` nodes g"
    and w: "updateLeash E a i db = Ok db'"
  shows "repr E db' (g_leash a i g)"
proof -
  have K: "db_get (ldb E) db' k = batch_get [BPut (addrKeyBytes a) (id_bytes E i)] k (db_get (ldb E) db k)" for k
    using leveldb_okD(2) [OF env_okD(1) [OF E] w [unfolded updateLeash_def]]
    by (simp add: putLeash_def)
  have other: "db_get (ldb E) db' k = db_get (ldb E) db k" if "hd k \<noteq> leashPrefix" for k
    using that by (auto simp: K)
  have cnt: "getCounter E db' c = getCounter E db c" for c
    by (simp add: getCounter_def other prefix_neq(3) [symmetric])
  have num: "getNumOfBlockID E db' j = getNumOfBlockID E db j" for j
    by (simp add: getNumOfBlockID_def other)
  have blk: "getBlock E db' w = getBlock E db w" for w
    by (simp add: getBlock_def other)
  have lnk: "getLink E db' w = getLink E db w" for w
    by (simp add: getLink_def other)
  have head: "getHeadByBlockNum E db' w = getHeadByBlockNum E db w" for w
    by (simp add: getHeadByBlockNum_def other)
  have links: "link_of E (g_leash a i g) n = link_of E g n" for n
    by (simp add: link_of_def lift_parents_def anc_def)
  have keys: "keys_rep E db'"
    unfolding keys_rep_def
  proof (intro conjI allI impI)
    fix k v
    assume "db_get (ldb E) db' (headToBlockPrefix # k) = Ok v"
    then have "db_get (ldb E) db (headToBlockPrefix # k) = Ok v"
      using other [of "headToBlockPrefix # k"] by simp
    with reprD(6) [OF R] show "\<exists>w. headToBlockPrefix # k = numKeyBytes headToBlockPrefix w"
      unfolding keys_rep_def by blast
  next
    fix k v
    assume v: "db_get (ldb E) db' (leashPrefix # k) = Ok v"
    show "\<exists>a. plain a \<and> leashPrefix # k = addrKeyBytes a"
    proof (cases "addrKeyBytes a = leashPrefix # k")
      case True
      with a show ?thesis by metis
    next
      case False
      with v reprD(6) [OF R] show ?thesis by (simp add: K keys_rep_def)
    qed
  qed
  have wf: "wf_graph (g_leash a i g)" by (rule wf_graph_g_leash [OF reprD(1) [OF R] a i])
  have f: "fields_rep E (g_leash a i g)" using reprD(2) [OF R] by (simp add: fields_rep_def)
  have b: "blocks_rep E db' (g_leash a i g)"
    using reprD(3) [OF R] by (simp add: blocks_rep_def cnt num blk lnk links)
  have h: "heads_rep E db' (g_leash a i g)"
    using reprD(4) [OF R] by (simp add: heads_rep_def cnt head other)
  show ?thesis
    unfolding repr_def using wf f b h leashes_rep_leash [OF E R a K] keys by blast
qed

lemma updateLeash_live:
  "env_live E \<Longrightarrow> \<exists>db'. updateLeash E a i db = Ok db'"
  unfolding updateLeash_def by (rule leveldb_liveD(2) [OF env_liveD(1)])

section \<open>Initialization\<close>

definition genesis_block :: "('db, 'id) env \<Rightarrow> 'id proto_block \<Rightarrow> bytes \<Rightarrow> int \<Rightarrow> block" where
  "genesis_block E genesis ga score =
     \<lparr>bHeight = 1, bTimestamp = BlockTimestamp genesis, bScore = Some score,
      bID = id_bytes E (BlockID genesis), bParent = [], bGenerator = ga\<rparr>"

lemma genesis_block_simps [simp]:
  "bHeight (genesis_block E gb ga s) = 1" "bTimestamp (genesis_block E gb ga s) = BlockTimestamp gb"
  "bScore (genesis_block E gb ga s) = Some s" "bID (genesis_block E gb ga s) = id_bytes E (BlockID gb)"
  "bParent (genesis_block E gb ga s) = []" "bGenerator (genesis_block E gb ga s) = ga"
  by (simp_all add: genesis_block_def)

definition init_ops :: "('db, 'id) env \<Rightarrow> 'id \<Rightarrow> bytes \<Rightarrow> bytes \<Rightarrow> batch" where
  "init_ops E i bbuf lbuf =
     [BPut (numKeyBytes blockPrefix 1) bbuf, BPut (counterKey blocksCounter) (put_uint64 1),
      BPut (idKeyBytes E blockPrefix i) (put_uint64 1), BPut (numKeyBytes chainPrefix 1) lbuf,
      BPut (counterKey headsCounter) (put_uint64 1),
      BPut (numKeyBytes headToBlockPrefix 1) (put_uint64 1),
      BPut (numKeyBytes blockToHeadPrefix 1) (put_uint64 1)]"

lemma st_initialize_eq:
  assumes E: "env_ok E" and empty: "db_empty (ldb E) db"
  shows "st_initialize E scheme gb db =
    bind_res (db_snapshot (ldb E) db) (\<lambda>_.
    bind_res (address_of_key E scheme (GeneratorPublicKey gb)) (\<lambda>ga.
    bind_res (calculateScore (BlockBaseTarget gb)) (\<lambda>score.
    bind_res (block_marshal E (genesis_block E gb ga score)) (\<lambda>bbuf.
    bind_res (link_marshal E (link_of E (g_init (BlockID gb) (genesis_block E gb ga score)) 1)) (\<lambda>lbuf.
    db_write (ldb E) db (init_ops E (BlockID gb) bbuf lbuf))))))"
proof (cases "db_snapshot (ldb E) db")
  case (Ok sn)
  then have sn: "db_snapshot (ldb E) db = Ok db"
    using leveldb_okD(1) [OF env_okD(1) [OF E]] by metis
  have c: "getCounter E db blocksCounter = Ok 0"
    using empty by (simp add: getCounter_def db_empty_def)
  have lnk: "link_of E (g_init (BlockID gb) (genesis_block E gb ga score)) 1 =
      \<lparr>lHeight = 1, lBlockID = id_bytes E (BlockID gb), lParents = []\<rparr>" for ga score
    by (simp add: link_of_def lift_parents_def g_init_def)
  have ops: "bind_res (putBlock E [] 1 b) (\<lambda>batch.
      bind_res (putLink E (putID E (putCounter batch blocksCounter 1) blockPrefix i 1) 1 l) (\<lambda>batch.
      db_write (ldb E) db (putNum (putNum (putCounter batch headsCounter 1) headToBlockPrefix 1 1)
        blockToHeadPrefix 1 1))) =
      bind_res (block_marshal E b) (\<lambda>bbuf. bind_res (link_marshal E l) (\<lambda>lbuf.
      db_write (ldb E) db (init_ops E i bbuf lbuf)))" for b l i
    by (cases "block_marshal E b"; cases "link_marshal E l")
       (simp_all add: putBlock_def putLink_def putID_def putCounter_def putNum_def init_ops_def)
  show ?thesis
    unfolding st_initialize_def with_snapshot_def sn bind_res.simps c Let_def lnk
      genesis_block_def [symmetric] ops if_P [OF refl] ..
qed (simp_all add: st_initialize_def with_snapshot_def)

lemma blocks_rep_init:
  assumes E: "env_ok E" and empty: "db_empty (ldb E) db"
    and bbuf: "block_unmarshal E bbuf = Ok b"
    and lbuf: "link_unmarshal E lbuf = Ok (link_of E (g_init i b) 1)"
    and K: "\<And>k. db_get (ldb E) db' k = batch_get (init_ops E i bbuf lbuf) k (db_get (ldb E) db k)"
  shows "blocks_rep E db' (g_init i b)"
proof -
  have one: "nodes (g_init i b) = {1}" by (simp add: nodes_def g_init_def)
  have "getCounter E db' blocksCounter = Ok 1"
    by (simp add: getCounter_def K init_ops_def key_simps size_defs)
  moreover have "getNumOfBlockID E db' j = (if j = i then Ok 1 else Err ErrNotFound)" for j
    using empty by (simp add: getNumOfBlockID_def K init_ops_def key_simps E size_defs db_empty_def)
  moreover have "getBlock E db' 1 = Ok b"
    by (simp add: getBlock_def K init_ops_def key_simps E bbuf)
  moreover have "getLink E db' 1 = Ok (link_of E (g_init i b) 1)"
    by (simp add: getLink_def K init_ops_def key_simps E lbuf)
  ultimately show ?thesis
    unfolding blocks_rep_def one by (simp add: g_init_def)
qed

lemma heads_rep_init:
  assumes E: "env_ok E" and empty: "db_empty (ldb E) db"
    and K: "\<And>k. db_get (ldb E) db' k = batch_get (init_ops E i bbuf lbuf) k (db_get (ldb E) db k)"
  shows "heads_rep E db' (g_init i b)"
proof -
  have one: "nodes (g_init i b) = {1}" by (simp add: nodes_def g_init_def)
  have "getCounter E db' headsCounter = Ok 1"
    by (simp add: getCounter_def K init_ops_def key_simps size_defs)
  moreover have "getHeadByBlockNum E db' 1 = Ok 1"
    by (simp add: getHeadByBlockNum_def K init_ops_def key_simps E size_defs)
  moreover have "db_get (ldb E) db' (numKeyBytes headToBlockPrefix w) =
      (if w = 1 then Ok (put_uint64 1) else Err ErrNotFound)" for w
    using empty by (simp add: K init_ops_def key_simps E db_empty_def)
  ultimately show ?thesis
    unfolding heads_rep_def one by (simp add: g_init_def)
qed

lemma keys_rep_init:
  assumes E: "env_ok E" and empty: "db_empty (ldb E) db"
    and K: "\<And>k. db_get (ldb E) db' k = batch_get (init_ops E i bbuf lbuf) k (db_get (ldb E) db k)"
  shows "keys_rep E db'"
proof -
  have "db_get (ldb E) db' (leashPrefix # k) = Err ErrNotFound" for k
    using empty by (simp add: K init_ops_def counterKey_def idKeyBytes_def numKeyBytes_def
        prefix_defs db_empty_def)
  moreover have "headToBlockPrefix # k = numKeyBytes headToBlockPrefix 1"
    if "db_get (ldb E) db' (headToBlockPrefix # k) = Ok v" for k v
    using that empty by (simp add: K init_ops_def counterKey_def idKeyBytes_def numKeyBytes_def
        prefix_defs db_empty_def split: if_splits)
  ultimately show ?thesis unfolding keys_rep_def by (metis res.distinct(1))
qed

lemma leashes_rep_init:
  assumes E: "env_ok E" and empty: "db_empty (ldb E) db"
    and K: "\<And>k. db_get (ldb E) db' k = batch_get (init_ops E i bbuf lbuf) k (db_get (ldb E) db k)"
  shows "leashes_rep E db' (g_init i b)"
  using empty by (simp add: leashes_rep_def K init_ops_def key_simps E db_empty_def g_init_def)

lemma st_initialize_refines:
  assumes E: "env_ok E" and empty: "db_empty (ldb E) db"
    and ini: "st_initialize E scheme gb db = Ok db'"
  shows "\<exists>ga s. address_of_key E scheme (GeneratorPublicKey gb) = Ok ga \<and>
    calculateScore (BlockBaseTarget gb) = Ok s \<and>
    repr E db' (g_init (BlockID gb) (genesis_block E gb ga s))"
proof -
  from ini [unfolded st_initialize_eq [OF E empty]] obtain ga s bbuf lbuf where
    ga: "address_of_key E scheme (GeneratorPublicKey gb) = Ok ga"
    and s: "calculateScore (BlockBaseTarget gb) = Ok s"
    and bbuf: "block_marshal E (genesis_block E gb ga s) = Ok bbuf"
    and lbuf: "link_marshal E (link_of E (g_init (BlockID gb) (genesis_block E gb ga s)) 1) = Ok lbuf"
    and w: "db_write (ldb E) db (init_ops E (BlockID gb) bbuf lbuf) = Ok db'"
    by (auto simp: bind_res_eq_Ok)
  let ?b = "genesis_block E gb ga s" and ?i = "BlockID gb"
  note K = leveldb_okD(2) [OF env_okD(1) [OF E] w]
  have wf: "wf_graph (g_init ?i ?b)"
    using calculateScore_nonneg [OF s] by (intro wf_graph_g_init) auto
  have f: "fields_rep E (g_init ?i ?b)"
    using env_okD(7) [OF E ga] by (simp add: fields_rep_def g_init_def nodes_def)
  have "repr E db' (g_init ?i ?b)"
    unfolding repr_def
    using wf f blocks_rep_init [OF E empty env_okD(2) [OF E bbuf] env_okD(3) [OF E lbuf] K]
      heads_rep_init [OF E empty K] leashes_rep_init [OF E empty K] keys_rep_init [OF E empty K]
    by blast
  with ga s show ?thesis by blast
qed

lemma st_initialize_live:
  assumes E: "env_ok E" and live: "env_live E" and empty: "db_empty (ldb E) db"
    and bt: "unat (BlockBaseTarget gb) \<le> MaxInt64"
  shows "\<exists>db'. st_initialize E scheme gb db = Ok db'"
proof -
  obtain ga where ga: "address_of_key E scheme (GeneratorPublicKey gb) = Ok ga"
    using env_liveD(4) [OF live] by blast
  obtain s where s: "calculateScore (BlockBaseTarget gb) = Ok s"
    using bt calculateScore_total [of "BlockBaseTarget gb"] by blast
  obtain bbuf where bbuf: "block_marshal E (genesis_block E gb ga s) = Ok bbuf"
    using env_liveD(2) [OF live] by blast
  obtain lbuf where
    lbuf: "link_marshal E (link_of E (g_init (BlockID gb) (genesis_block E gb ga s)) 1) = Ok lbuf"
    using env_liveD(3) [OF live] by blast
  show ?thesis
    unfolding st_initialize_eq [OF E empty] leveldb_liveD(1) [OF env_liveD(1) [OF live]]
      bind_res.simps ga s bbuf lbuf
    by (rule leveldb_liveD(2) [OF env_liveD(1) [OF live]])
qed

text \<open>A store that already holds a tree is left alone, whatever genesis block is passed.\<close>

lemma st_initialize_again:
  assumes E: "env_ok E" and live: "env_live E" and R: "repr E db g"
  shows "st_initialize E scheme gb db = Ok db"
proof -
  have "gSize g < 2 ^ 64" "1 \<le> gSize g"
    using rep_size [OF R] reprD(7) [OF R] by (simp_all add: wf_tree_def)
  then have "(word_of_nat (gSize g) :: u64) \<noteq> 0"
    using word_of_nat_Suc_eq_iff [of "gSize g" 0] by simp
  then show ?thesis
    by (simp add: st_initialize_def with_snapshot_live [OF env_liveD(1) [OF live]] rep_getCounter [OF R])
qed

end
