(* ===== verification/StorageQueries.thy ===== *)
theory StorageQueries
  imports StorageRep
begin

text \<open>
  The operations of the storage that only read, on a store that represents a tree: lookups by
  ID, lists of ancestors and of blocks, all heads and all leashes.
\<close>

section \<open>Lookups\<close>

lemma st_block_rep:
  "leveldb_live (ldb E) \<Longrightarrow> repr E db g \<Longrightarrow> n \<in> nodes g \<Longrightarrow> st_block E db (gId g n) = Ok (gBlk g n)"
  by (simp add: st_block_def rep_getBlockByID)

lemma st_block_unknown:
  "leveldb_live (ldb E) \<Longrightarrow> repr E db g \<Longrightarrow> i \<notin> gId g ` nodes g \<Longrightarrow>
    st_block E db i = Err ErrNotFound"
  by (simp add: st_block_def getBlockByID_def rep_getNum_unknown)

lemma st_hasBlock_rep:
  assumes "leveldb_live (ldb E)" "repr E db g"
  shows "st_hasBlock E db i = Ok (i \<in> gId g ` nodes g)"
proof (cases "i \<in> gId g ` nodes g")
  case True
  then obtain n where "n \<in> nodes g" "i = gId g n" by blast
  with assms show ?thesis by (simp add: st_hasBlock_def rep_getNum)
next
  case False
  with assms show ?thesis by (simp add: st_hasBlock_def rep_getNum_unknown)
qed

lemma st_leash_rep:
  "env_ok E \<Longrightarrow> leveldb_live (ldb E) \<Longrightarrow> repr E db g \<Longrightarrow> plain a \<Longrightarrow>
    st_leash E db a = (case gLeash g a of None \<Rightarrow> Err ErrNotFound | Some i \<Rightarrow> Ok i)"
  by (simp add: st_leash_def rep_getLeash)

section \<open>Lists of ancestors\<close>

lemma chain_nodes: "wf_tree g \<Longrightarrow> n \<in> nodes g \<Longrightarrow> m \<in> set (chain g k n) \<Longrightarrow> m \<in> nodes g \<and> is_anc g m n"
  by (auto simp: chain_eq is_anc_def anc_in_nodes)

lemma length_chain: "wf_tree g \<Longrightarrow> n \<in> nodes g \<Longrightarrow> length (chain g k n) = min k (ht g n)"
  by (simp add: chain_eq)

lemma nth_chain: "wf_tree g \<Longrightarrow> n \<in> nodes g \<Longrightarrow> j < min k (ht g n) \<Longrightarrow> chain g k n ! j = anc g j n"
  by (simp add: chain_eq)

text \<open>
  \<open>getAncestors\<close> returns the block itself and then its ancestors, newest first, and stops at
  the genesis block.
\<close>

lemma getAncestors_rep:
  assumes "env_ok E" "leveldb_live (ldb E)" "repr E db g" "n \<in> nodes g" "0 \<le> cnt"
  shows "getAncestors E db (gId g n) cnt = Ok (map (gId g) (chain g (nat cnt) n))"
  using assms ancestorsLoop_chain [OF assms(1,3,4), of "nat cnt" "[]"]
  by (simp add: getAncestors_def rep_getNum)

lemma getAncestors_negative:
  "leveldb_live (ldb E) \<Longrightarrow> repr E db g \<Longrightarrow> n \<in> nodes g \<Longrightarrow> cnt < 0 \<Longrightarrow>
    getAncestors E db (gId g n) cnt = Panic"
  by (simp add: getAncestors_def rep_getNum)

lemma getAncestors_unknown:
  "leveldb_live (ldb E) \<Longrightarrow> repr E db g \<Longrightarrow> i \<notin> gId g ` nodes g \<Longrightarrow>
    getAncestors E db i cnt = Err ErrNotFound"
  by (simp add: getAncestors_def rep_getNum_unknown)

text \<open>The block handed out for block \<open>n\<close>, when its timestamp fits an \<open>int64\<close>.\<close>

definition block_of :: "('db, 'id) env \<Rightarrow> 'id graph \<Rightarrow> nat \<Rightarrow> 'id Block" where
  "block_of E g n =
     \<lparr>BlkID = gId g n, BlkParent = (if n = 1 then id_zero E else gId g (gPar g n)),
      BlkHeight = bHeight (gBlk g n), BlkGenerator = bGenerator (gBlk g n),
      BlkScore = bScore (gBlk g n), BlkTimestamp = int (unat (bTimestamp (gBlk g n)))\<rparr>"

lemma block_of_simps [simp]:
  "BlkID (block_of E g n) = gId g n" "BlkHeight (block_of E g n) = bHeight (gBlk g n)"
  "BlkGenerator (block_of E g n) = bGenerator (gBlk g n)" "BlkScore (block_of E g n) = bScore (gBlk g n)"
  "BlkTimestamp (block_of E g n) = int (unat (bTimestamp (gBlk g n)))"
  by (simp_all add: block_of_def)

definition ts_ok :: "'id graph \<Rightarrow> nat \<Rightarrow> bool" where
  "ts_ok g n \<longleftrightarrow> unat (bTimestamp (gBlk g n)) < MaxInt64"

lemma id_bytes_not_Nil: "env_ok E \<Longrightarrow> id_bytes E i \<noteq> []"
  using env_okD(6) [of E i] by auto

lemma toBlock_rep:
  assumes E: "env_ok E" and R: "repr E db g" and n: "n \<in> nodes g"
  shows "toBlock E (gBlk g n) = (if ts_ok g n then Ok (block_of E g n) else Panic)"
  using reprD(2) [OF R] n
  by (simp add: toBlock_def fields_rep_def env_okD(4) [OF E] id_bytes_not_Nil [OF E]
      safeTimestamp_def ts_ok_def block_of_def)

lemma blocksLoop_chain:
  assumes E: "env_ok E" and R: "repr E db g"
  shows "n \<in> nodes g \<Longrightarrow> (\<forall>m \<in> set (chain g k n). ts_ok g m) \<Longrightarrow>
    blocksLoop E db k (word_of_nat n) r = Ok (r @ map (block_of E g) (chain g k n))"
proof (induction k arbitrary: n r)
  case (Suc k)
  note wf = reprD(7) [OF R]
  have ts: "ts_ok g n" using Suc.prems(2) by simp
  note rd = rep_getBlock [OF R Suc.prems(1)] toBlock_rep [OF E R Suc.prems(1)]
    rep_getLink [OF R Suc.prems(1)]
  have par: "bParent (gBlk g n) = (if n = 1 then [] else id_bytes E (gId g (gPar g n)))"
    using reprD(2) [OF R] Suc.prems(1) by (simp add: fields_rep_def)
  show ?case
  proof (cases "n = 1")
    case True
    with ts rd par show ?thesis by simp
  next
    case False
    note p = parD(1) [OF wf Suc.prems(1) False] and l = lift_parents_hd [OF wf Suc.prems(1) False]
    have "\<forall>m \<in> set (chain g k (gPar g n)). ts_ok g m" using Suc.prems(2) False by simp
    with False l ts rd par Suc.IH [OF p] show ?thesis
      by (simp add: id_bytes_not_Nil [OF E])
  qed
qed simp

lemma getBlocks_rep:
  assumes "env_ok E" "leveldb_live (ldb E)" "repr E db g" "n \<in> nodes g" "0 \<le> cnt"
    and "\<forall>m \<in> set (chain g (nat cnt) n). ts_ok g m"
  shows "getBlocks E db (gId g n) cnt = Ok (map (block_of E g) (chain g (nat cnt) n))"
  using assms blocksLoop_chain [OF assms(1,3,4,6), of "[]"]
  by (simp add: getBlocks_def rep_getNum)

section \<open>Heads\<close>

lemma strict_sorted_fst_eq:
  fixes xs ys :: "('a :: linorder \<times> 'b) list"
  assumes "sorted_wrt (<) (map fst xs)" "sorted_wrt (<) (map fst ys)" "set xs = set ys"
  shows "xs = ys"
proof -
  have keys: "map fst xs = map fst ys"
    by (rule strict_sorted_equal [OF assms(2,1)]) (simp add: assms(3))
  then have len: "length xs = length ys" by (rule map_eq_imp_length_eq)
  have dist: "distinct (map fst ys)" using assms(2) by (simp add: strict_sorted_iff)
  show ?thesis
  proof (rule nth_equalityI [OF len])
    fix i assume i: "i < length xs"
    have "xs ! i \<in> set ys" using nth_mem [OF i] unfolding assms(3) .
    then obtain j where j: "j < length ys" "ys ! j = xs ! i" unfolding in_set_conv_nth by blast
    have "map fst ys ! i = fst (xs ! i)" using i by (simp only: keys [symmetric] nth_map)
    moreover have "map fst ys ! j = fst (xs ! i)" using j by (simp only: nth_map)
    ultimately have "j = i"
      using i j(1) len by (metis dist length_map nth_eq_iff_index_eq)
    with j(2) show "xs ! i = ys ! i" by (simp only:)
  qed
qed

text \<open>The pairs the iterator over the heads yields: every head's number with its block's.\<close>

lemma heads_range:
  assumes E: "env_ok E" and R: "repr E db g" and len: "length (gHeads g) < 2 ^ 64 - 1"
  shows "db_range (ldb E) db (numKeyBytes headToBlockPrefix 0) (numKeyBytes headToBlockPrefix (- 1)) =
    map (\<lambda>h. (numKeyBytes headToBlockPrefix (word_of_nat (Suc h)), put_uint64 (word_of_nat (gHeads g ! h))))
      [0..<length (gHeads g)]" (is "?l = map ?f ?is")
proof (rule strict_sorted_fst_eq)
  note L = leveldb_okD(3,4) [OF env_okD(1) [OF E]] and H = reprD(4) [OF R, unfolded heads_rep_def]
  have lt: "word_of_nat (Suc h) < (word_of_nat (Suc k) :: u64)" if "h < k" "k < length (gHeads g)" for h k
    using that len by (simp add: word_less_nat_alt unat_of_nat del: of_nat_Suc)
  have bound: "word_of_nat (Suc h) < (- 1 :: u64)" if "h < length (gHeads g)" for h
  proof -
    have "(word_of_nat (Suc h) :: u64) \<noteq> word_of_nat (2 ^ 64 - 1)"
      using that len word_of_nat_Suc_eq_iff [of "Suc h" "2 ^ 64 - 1"] by linarith
    moreover have "word_of_nat (2 ^ 64 - 1) = (- 1 :: u64)" by simp
    ultimately have "(word_of_nat (Suc h) :: u64) \<noteq> - 1" by metis
    with word_n1_ge show ?thesis by (rule order.not_eq_order_implies_strict [rotated])
  qed
  show "sorted_wrt (<) (map fst ?l)" by (rule L(1))
  show "sorted_wrt (<) (map fst (map ?f ?is))"
    using lt by (auto simp: sorted_wrt_iff_nth_less numKeyBytes_def put_uint64_less_iff)
  show "set ?l = set (map ?f ?is)"
  proof (intro set_eqI iffI)
    fix kv assume kv: "kv \<in> set ?l"
    obtain k v where [simp]: "kv = (k, v)" by (cases kv)
    have le: "numKeyBytes headToBlockPrefix 0 \<le> k" "k < numKeyBytes headToBlockPrefix (- 1)"
      and get: "db_get (ldb E) db k = Ok v" using kv L(2) by auto
    have "\<exists>k'. k = headToBlockPrefix # k'"
      using le by (cases k) (auto simp: numKeyBytes_def)
    then obtain w where w: "k = numKeyBytes headToBlockPrefix w"
      using get reprD(6) [OF R] unfolding keys_rep_def by blast
    with get H obtain h where h: "h < length (gHeads g)" "w = word_of_nat (Suc h)" by blast
    with get w H have "v = put_uint64 (word_of_nat (gHeads g ! h))" by simp
    with h w show "kv \<in> set (map ?f ?is)" by (auto intro!: image_eqI [of _ _ h])
  next
    fix kv assume "kv \<in> set (map ?f ?is)"
    then obtain h where h: "h < length (gHeads g)" and kv: "kv = ?f h" by auto
    have "numKeyBytes headToBlockPrefix 0 \<le> numKeyBytes headToBlockPrefix (word_of_nat (Suc h))"
      by (simp add: numKeyBytes_def not_less [symmetric] put_uint64_less_iff del: of_nat_Suc not_less)
    moreover have "numKeyBytes headToBlockPrefix (word_of_nat (Suc h)) < numKeyBytes headToBlockPrefix (- 1)"
      using bound [OF h] by (simp add: numKeyBytes_def put_uint64_less_iff del: of_nat_Suc)
    ultimately show "kv \<in> set ?l" using H h unfolding kv L(2) by blast
  qed
qed

text \<open>All heads, in the order of their numbers, which are 1, 2, 3, \dots\<close>

definition head_of :: "'id graph \<Rightarrow> nat \<Rightarrow> 'id Head" where
  "head_of g h = \<lparr>HeadID = word_of_nat (Suc h), HeadBlockID = gId g (gHeads g ! h)\<rparr>"

lemma head_of_simps [simp]:
  "HeadID (head_of g h) = word_of_nat (Suc h)" "HeadBlockID (head_of g h) = gId g (gHeads g ! h)"
  by (simp_all add: head_of_def)

lemma st_heads_rep:
  assumes E: "env_ok E" and L: "leveldb_live (ldb E)" and R: "repr E db g"
    and len: "length (gHeads g) < 2 ^ 64 - 1"
  shows "st_heads E db = Ok (map (head_of g) [0..<length (gHeads g)])"
proof -
  let ?is = "[0..<length (gHeads g)]"
  have "mapM_res (\<lambda>(k, v). bind_res (numKeyFromBytes k) (\<lambda>(prefix, num).
      if prefix \<noteq> headToBlockPrefix then Err ErrPrefix
      else bind_res (get_uint64 v) (\<lambda>bn. Ok (num, bn))))
      (map (\<lambda>h. (numKeyBytes headToBlockPrefix (word_of_nat (Suc h)), put_uint64 (word_of_nat (gHeads g ! h)))) ?is) =
    Ok (map (\<lambda>h. (word_of_nat (Suc h), word_of_nat (gHeads g ! h))) ?is)"
    by (subst mapM_res_Ok [where g = "\<lambda>(k, v). (case numKeyFromBytes k of Ok (_, n) \<Rightarrow> n, case get_uint64 v of Ok n \<Rightarrow> n)"])
       (auto simp: numKey_roundtrip simp del: of_nat_Suc)
  then have hs: "getHeads E db =
      Ok (map (\<lambda>h. word_of_nat (Suc h)) ?is, map (\<lambda>h. word_of_nat (gHeads g ! h)) ?is)"
    unfolding getHeads_def heads_range [OF E R len] by (simp add: comp_def)
  have blk: "getBlock E db (word_of_nat (gHeads g ! h)) = Ok (gBlk g (gHeads g ! h))"
    "id_of_bytes E (bID (gBlk g (gHeads g ! h))) = Ok (gId g (gHeads g ! h))"
    if "h < length (gHeads g)" for h
  proof -
    from head_in_nodes [OF R that]
    show "getBlock E db (word_of_nat (gHeads g ! h)) = Ok (gBlk g (gHeads g ! h))"
      "id_of_bytes E (bID (gBlk g (gHeads g ! h))) = Ok (gId g (gHeads g ! h))"
      using reprD(2) [OF R] by (simp_all add: rep_getBlock [OF R] fields_rep_def env_okD(4) [OF E])
  qed
  have "mapM_res (\<lambda>(h, bn). bind_res (getBlock E db bn) (\<lambda>bl.
        bind_res (id_of_bytes E (bID bl)) (\<lambda>i. Ok \<lparr>HeadID = h, HeadBlockID = i\<rparr>)))
      (map (\<lambda>h. (word_of_nat (Suc h), word_of_nat (gHeads g ! h))) is) = Ok (map (head_of g) is)"
    if "set is \<subseteq> {..<length (gHeads g)}" for "is"
    using that by (induction "is") (auto simp: blk head_of_def simp del: of_nat_Suc)
  from this [of ?is] show ?thesis
    by (simp add: st_heads_def L hs zip_map_map zip_same_conv_map comp_def atLeast0LessThan)
qed

section \<open>Leashes\<close>

lemma zeros_least: "n \<le> length bs \<Longrightarrow> replicate n 0 \<le> (bs :: bytes)"
proof (induction n arbitrary: bs)
  case (Suc n)
  then obtain b bs' where "bs = b # bs'" "n \<le> length bs'" by (cases bs) auto
  moreover have "b = 0 \<or> 0 < b" using word_gt_0 by blast
  ultimately show ?case using Suc.IH [of bs'] by auto
qed simp

lemma ones_greatest: "length bs \<le> n \<Longrightarrow> (bs :: bytes) \<noteq> replicate n (- 1) \<Longrightarrow> bs < replicate n (- 1)"
proof (induction n arbitrary: bs)
  case (Suc n)
  show ?case
  proof (cases bs)
    case (Cons b bs')
    show ?thesis
    proof (cases "b = - 1")
      case True
      with Cons Suc show ?thesis by simp
    next
      case False
      then have "b < - 1" by (rule order.not_eq_order_implies_strict) (rule word_n1_ge)
      with Cons show ?thesis by simp
    qed
  qed simp
qed simp

abbreviation all_ones :: addr where
  "all_ones \<equiv> Addr6 (- 1) []"

lemma addrKey_zero: "addrKeyBytes (Addr4 0) = leashPrefix # replicate 4 0"
proof -
  have "be_bytes k 0 = replicate k 0" for k
    by (induction k) (simp_all add: replicate_append_same)
  then show ?thesis by (simp only: addrKeyBytes_def AsSlice.simps unsigned_0)
qed

lemma addrKey_ones: "addrKeyBytes all_ones = leashPrefix # replicate 16 (- 1)"
proof -
  have "be_nat (replicate n (- 1)) + 1 = 256 ^ n" for n
  proof (induction n)
    case (Suc n)
    have "unat (- 1 :: byte) = 255" by (simp add: unsigned_minus_1_eq_mask mask_eq_exp_minus_1)
    then have "be_nat (replicate (Suc n) (- 1)) + 1 = 255 * 256 ^ n + (be_nat (replicate n (- 1)) + 1)"
      by (simp add: be_nat_Cons)
    with Suc.IH show ?case by simp
  qed simp
  from this [of 16] have "be_nat (replicate 16 (- 1)) = unat (- 1 :: 128 word)"
    by (simp add: unsigned_minus_1_eq_mask mask_eq_exp_minus_1)
  then have "be_bytes 16 (unat (- 1 :: 128 word)) = replicate 16 (- 1)"
    using be_bytes_be_nat [of "replicate 16 (- 1)" 16] by (metis length_replicate)
  then show ?thesis by (simp only: addrKeyBytes_def AsSlice.simps)
qed

text \<open>The range of \<open>leashes\<close> holds every leash but the one of the address of ones only.\<close>

lemma addrKey_in_range:
  assumes a: "plain a"
  shows "addrKeyBytes (Addr4 0) \<le> addrKeyBytes a"
    and "addrKeyBytes a < addrKeyBytes all_ones \<longleftrightarrow> a \<noteq> all_ones"
proof -
  have len: "4 \<le> length (AsSlice a)" "length (AsSlice a) \<le> 16" using a by (cases a; simp)+
  show "addrKeyBytes (Addr4 0) \<le> addrKeyBytes a"
    using zeros_least [OF len(1)] unfolding addrKey_zero by (simp add: addrKeyBytes_def)
  show "addrKeyBytes a < addrKeyBytes all_ones \<longleftrightarrow> a \<noteq> all_ones"
  proof
    assume "a \<noteq> all_ones"
    then have "addrKeyBytes a \<noteq> addrKeyBytes all_ones" using addr_key.enc_inject [OF a, of all_ones] by simp
    then show "addrKeyBytes a < addrKeyBytes all_ones"
      using ones_greatest [OF len(2)] unfolding addrKey_ones by (simp add: addrKeyBytes_def)
  qed auto
qed

lemma mapM_res_Ok_ex:
  "(\<And>x. x \<in> set xs \<Longrightarrow> \<exists>y. f x = Ok y) \<Longrightarrow> \<exists>ys. mapM_res f xs = Ok ys"
  by (induction xs) (simp, fastforce)

lemma leash_entry:
  assumes E: "env_ok E" and R: "repr E db g"
  shows "(k, v) \<in> set (db_range (ldb E) db (addrKeyBytes (Addr4 0)) (addrKeyBytes all_ones)) \<longleftrightarrow>
    (\<exists>a i. plain a \<and> a \<noteq> all_ones \<and> gLeash g a = Some i \<and> k = addrKeyBytes a \<and> v = id_bytes E i)"
    (is "?l \<longleftrightarrow> ?r")
proof
  assume ?l
  then have le: "addrKeyBytes (Addr4 0) \<le> k" "k < addrKeyBytes all_ones"
    and get: "db_get (ldb E) db k = Ok v"
    using leveldb_okD(4) [OF env_okD(1) [OF E]] by blast+
  have "\<exists>k'. k = leashPrefix # k'"
    using le by (cases k) (auto simp: addrKeyBytes_def)
  then obtain a where a: "plain a" "k = addrKeyBytes a"
    using get reprD(6) [OF R] unfolding keys_rep_def by blast
  with get reprD(5) [OF R] obtain i where "gLeash g a = Some i" "v = id_bytes E i"
    by (auto simp: leashes_rep_def split: option.splits)
  with a le addrKey_in_range [OF a(1)] show ?r by blast
next
  assume ?r
  then obtain a i where a: "plain a" "a \<noteq> all_ones" "gLeash g a = Some i"
    and kv: "k = addrKeyBytes a" "v = id_bytes E i" by blast
  have "db_get (ldb E) db k = Ok v"
    using reprD(5) [OF R] a kv by (simp add: leashes_rep_def)
  with addrKey_in_range [OF a(1)] a(2) show ?l
    unfolding leveldb_okD(4) [OF env_okD(1) [OF E]] kv by blast
qed

lemma st_leashes_rep:
  assumes E: "env_ok E" and L: "leveldb_live (ldb E)" and R: "repr E db g"
  shows "\<exists>ls. st_leashes E db = Ok ls \<and> distinct (map LeashAddr ls) \<and>
    set ls = {\<lparr>LeashAddr = a, LeashBlockID = i\<rparr> |a i. gLeash g a = Some i \<and> a \<noteq> all_ones}"
proof -
  let ?kvs = "db_range (ldb E) db (addrKeyBytes (Addr4 0)) (addrKeyBytes all_ones)"
  let ?f = "\<lambda>(k, v). bind_res (addrKeyFromBytes k) (\<lambda>a.
    bind_res (id_of_bytes E v) (\<lambda>i. Ok \<lparr>LeashAddr = a, LeashBlockID = i\<rparr>))"
  let ?g = "\<lambda>(k, v). \<lparr>LeashAddr = (case addrKeyFromBytes k of Ok a \<Rightarrow> a),
    LeashBlockID = (case id_of_bytes E v of Ok i \<Rightarrow> i)\<rparr>"
  note entry = leash_entry [OF E R]
  have f: "?f kv = Ok (?g kv)" if "kv \<in> set ?kvs" for kv
  proof -
    obtain k v where kv: "kv = (k, v)" by (cases kv)
    from that entry obtain a i where "plain a" "k = addrKeyBytes a" "v = id_bytes E i"
      unfolding kv by blast
    then show ?thesis unfolding kv by (simp add: addrKey_roundtrip env_okD(4) [OF E])
  qed
  have g: "\<exists>a i. kv = (addrKeyBytes a, id_bytes E i) \<and> plain a \<and> a \<noteq> all_ones \<and>
      gLeash g a = Some i \<and> ?g kv = \<lparr>LeashAddr = a, LeashBlockID = i\<rparr>" if "kv \<in> set ?kvs" for kv
  proof -
    obtain k v where kv: "kv = (k, v)" by (cases kv)
    from that entry obtain a i where a: "plain a" "a \<noteq> all_ones" "gLeash g a = Some i"
      "k = addrKeyBytes a" "v = id_bytes E i"
      unfolding kv by blast
    then have "?g kv = \<lparr>LeashAddr = a, LeashBlockID = i\<rparr>"
      unfolding kv by (simp add: addrKey_roundtrip env_okD(4) [OF E])
    with a kv show ?thesis by blast
  qed
  have "st_leashes E db = Ok (map ?g ?kvs)"
    unfolding st_leashes_def with_snapshot_live [OF L] by (rule mapM_res_Ok) (rule f)
  moreover have "distinct (map LeashAddr (map ?g ?kvs))"
  proof -
    have dist: "distinct (map fst ?kvs)"
      using leveldb_okD(3) [OF env_okD(1) [OF E]] by (simp add: strict_sorted_iff)
    have "inj_on (\<lambda>kv. LeashAddr (?g kv)) (set ?kvs)"
    proof (rule inj_onI)
      fix x y assume x: "x \<in> set ?kvs" and y: "y \<in> set ?kvs" and eq: "LeashAddr (?g x) = LeashAddr (?g y)"
      from g [OF x] g [OF y] eq have "fst x = fst y" by (metis Leash.select_convs(1) fst_conv)
      with x y dist show "x = y" by (metis eq_key_imp_eq_value prod.collapse)
    qed
    then show ?thesis using dist by (simp add: distinct_map comp_def)
  qed
  moreover have "set (map ?g ?kvs) =
      {\<lparr>LeashAddr = a, LeashBlockID = i\<rparr> |a i. gLeash g a = Some i \<and> a \<noteq> all_ones}"
  proof (intro set_eqI iffI)
    fix l assume "l \<in> set (map ?g ?kvs)"
    then obtain kv where "kv \<in> set ?kvs" "l = ?g kv" unfolding set_map by blast
    with g [OF this(1)] show "l \<in> {\<lparr>LeashAddr = a, LeashBlockID = i\<rparr> |a i. gLeash g a = Some i \<and> a \<noteq> all_ones}"
      by auto
  next
    fix l assume "l \<in> {\<lparr>LeashAddr = a, LeashBlockID = i\<rparr> |a i. gLeash g a = Some i \<and> a \<noteq> all_ones}"
    then obtain a i where l: "l = \<lparr>LeashAddr = a, LeashBlockID = i\<rparr>" "gLeash g a = Some i" "a \<noteq> all_ones"
      by blast
    moreover have a: "plain a" using reprD(10) [OF R] l(2) by (simp add: wf_leashes_def)
    ultimately have "(addrKeyBytes a, id_bytes E i) \<in> set ?kvs" using entry by blast
    moreover have "?g (addrKeyBytes a, id_bytes E i) = l"
      using a l(1) by (simp add: addrKey_roundtrip env_okD(4) [OF E])
    ultimately show "l \<in> set (map ?g ?kvs)" unfolding set_map by blast
  qed
  ultimately show ?thesis by blast
qed

end
