(* ===== verification/StorageLca.thy ===== *)
theory StorageLca
  imports StorageRep
begin

text \<open>
  \<open>storage.lca\<close> of \<open>chains/storage.go\<close>, the search with the ancestors at distances 1, 2, 4,
  \dots: it returns the last common ancestor of \<open>BlockGraph\<close>, unless it indexes past the end
  of a slice, and exactly when it does that.
\<close>

section \<open>The last common ancestor\<close>

lemma lca_safe_near:
  "h = a + 1 + e \<Longrightarrow> j = 0 \<or> 2 ^ (j - 1) \<le> a \<Longrightarrow> lca_safe j h e"
proof (induction j arbitrary: h e)
  case (Suc i)
  then have i: "2 ^ i \<le> a" by simp
  then have "i = 0 \<or> 2 ^ (i - 1) \<le> a"
    by (cases i) auto
  then have "lca_safe i (h - 2 ^ i) (e - 2 ^ i)" if "2 ^ i \<le> e"
    using Suc.prems(1) that by (intro Suc.IH) auto
  moreover have "lca_safe i h e" using Suc.prems(1) \<open>i = 0 \<or> _\<close> by (rule Suc.IH)
  ultimately show ?case using Suc.prems(1) i by simp
qed simp

text \<open>
  The loop stays inside its slices when the fork is at most twice as long as the chain below
  it, which is so for every fork of a chain of any realistic height.
\<close>

lemma lca_safe_bound:
  "h = a + 1 + e \<Longrightarrow> e \<le> 2 * a \<Longrightarrow> (\<And>i. i < j \<Longrightarrow> 2 ^ i < h) \<Longrightarrow> lca_safe j h e"
proof (induction j)
  case (Suc i)
  have "lca_safe i (h - 2 ^ i) (e - 2 ^ i)" if le: "2 ^ i \<le> e"
  proof (rule lca_safe_near [of _ a])
    show "h - 2 ^ i = a + 1 + (e - 2 ^ i)" using Suc.prems(1) le by simp
    show "i = 0 \<or> 2 ^ (i - 1) \<le> a"
      using le Suc.prems(2) by (cases i) auto
  qed
  with Suc show ?case by auto
qed simp

lemma anc_to_lca:
  assumes "wf_tree g" "x \<in> nodes g" "is_anc g a x"
  shows "anc g (ht g x - ht g a) x = a"
proof -
  from assms(3) obtain k where k: "k < ht g x" "a = anc g k x" by (auto simp: is_anc_def)
  with ht_anc [OF assms(1,2) k(1)] have eq: "ht g x - ht g a = k" by simp
  show ?thesis unfolding eq by (rule k(2) [symmetric])
qed

lemma lca_lift:
  assumes g: "wf_tree g" and x: "x \<in> nodes g" and y: "y \<in> nodes g"
    and le: "ht g y \<le> ht g x" and a: "is_lca g a x y"
  shows "is_lca g a (anc g (ht g x - ht g y) x) y"
proof -
  let ?m = "ht g x - ht g y"
  have m: "?m < ht g x" using ht_pos [OF g y] le by simp
  have up: "is_anc g b (anc g ?m x)" if b: "is_anc g b x" "is_anc g b y" for b
  proof -
    from b(1) obtain k where k: "k < ht g x" "b = anc g k x" by (auto simp: is_anc_def)
    have "ht g b \<le> ht g y" using is_anc_node [OF g y b(2)] by simp
    with ht_anc [OF g x k(1)] k have km: "k - ?m + ?m = k" by simp
    have "anc g (k - ?m) (anc g ?m x) = b" unfolding anc_anc km k(2) ..
    moreover have "k - ?m < ht g (anc g ?m x)" using ht_anc [OF g x m] k(1) m by simp
    ultimately show ?thesis unfolding is_anc_def by blast
  qed
  have down: "is_anc g b x" if "is_anc g b (anc g ?m x)" for b
  proof -
    have "is_anc g (anc g ?m x) x" using m by (auto simp: is_anc_def)
    with is_anc_trans [OF g x _ that] show ?thesis by simp
  qed
  from a up down show ?thesis unfolding is_lca_def by blast
qed

text \<open>The method on two links, the first not lower than the second.\<close>

lemma lca_ordered:
  assumes E: "env_ok E" and R: "repr E db g" and x: "x \<in> nodes g" and y: "y \<in> nodes g"
    and le: "ht g y \<le> ht g x" and a: "is_lca g a x y"
  shows "bind_res (fastBackwardFarthest E db (length (lParents (link_of E g x))) (link_of E g x) (link_of E g y))
      (\<lambda>farthest.
        if lBlockID farthest = lBlockID (link_of E g y) then id_of_bytes E (lBlockID farthest)
        else bind_res (lcaLoop E db (length (lParents farthest)) farthest (link_of E g y)) (\<lambda>(f, _).
          bind_res (slice_get (lParents f) 0) (\<lambda>p.
          bind_res (getLink E db p) (\<lambda>l. id_of_bytes E (lBlockID l))))) =
    (if ht g y = ht g a \<or> lca_safe (ceillog2 (ht g y)) (ht g y) (ht g y - ht g a - 1)
     then Ok (gId g a) else Panic)"
proof -
  note g = reprD(7) [OF R]
  let ?x = "anc g (ht g x - ht g y) x"
  have m: "ht g x - ht g y < ht g x" using ht_pos [OF g y] le by simp
  have x': "?x \<in> nodes g" and hx: "ht g ?x = ht g y"
    using anc_in_nodes [OF g x m] ht_anc [OF g x m] le by auto
  have a': "is_lca g a ?x y" by (rule lca_lift [OF g x y le a])
  have jump: "fastBackwardFarthest E db (length (lParents (link_of E g x))) (link_of E g x) (link_of E g y) =
      Ok (link_of E g ?x)"
    using le_two_power_ceillog2 [of "ht g x"] m
    by (intro fastBackward_correct [OF E R y x le]) auto
  show ?thesis
  proof (cases "?x = y")
    case True
    with a' is_lca_unique [OF g y a' [unfolded True] is_lca_refl [OF g y]] have "a = y" by simp
    with True jump show ?thesis by (simp add: env_okD(4) [OF E])
  next
    case False
    have anc_y: "is_anc g a y" and anc_x: "is_anc g a ?x" using a' by (auto simp: is_lca_def)
    have "ht g a \<le> ht g y" using is_anc_node [OF g y anc_y] by simp
    moreover have "ht g a \<noteq> ht g y"
      using False is_anc_eq_ht [OF g y anc_y] is_anc_eq_ht [OF g x' anc_x] hx by auto
    ultimately obtain e where e: "ht g y - ht g a = Suc e"
      by (metis Suc_diff_Suc le_neq_implies_less)
    have "ht g y \<le> 2 ^ ceillog2 (ht g y)" by (rule le_two_power_ceillog2)
    moreover have "0 < ht g a" using ht_pos [OF g] is_anc_node [OF g y anc_y] by simp
    ultimately have small: "e < 2 ^ ceillog2 (ht g ?x)" unfolding hx using e by linarith
    note loop = lcaLoop_correct [OF E R x' y hx a' _ small]
    let ?f = "anc g e ?x"
    have el: "e < ht g ?x" using e hx by linarith
    have f: "?f \<in> nodes g" "ht g ?f = Suc (ht g a)"
      using anc_in_nodes [OF g x' el] ht_anc [OF g x' el] e hx by auto
    have f1: "?f \<noteq> 1" using ht_eq_1 [OF g f(1)] f(2) \<open>0 < ht g a\<close> by auto
    have pf: "gPar g ?f = a"
      using anc_to_lca [OF g x' anc_x] e hx by (simp flip: anc_1 add: anc_anc)
    have "a \<in> nodes g" using is_anc_node [OF g y anc_y] by simp
    with rep_getLink [OF R] have la: "getLink E db (word_of_nat a) = Ok (link_of E g a)" by simp
    note hd = lift_parents_hd [OF g f(1) f1]
    have neq: "lBlockID (link_of E g ?x) \<noteq> lBlockID (link_of E g y)"
      using rep_id_eq_iff [OF E g x' y] False by simp
    have "\<not> ht g y = ht g a" using e by auto
    with jump neq loop e hx hd la pf show ?thesis
      by (simp add: env_okD(4) [OF E])
  qed
qed

theorem lca_outcome:
  assumes E: "env_ok E" and live: "leveldb_live (ldb E)" and R: "repr E db g"
    and x: "x \<in> nodes g" and y: "y \<in> nodes g"
  defines "a \<equiv> common_ancestor g x y" and "h \<equiv> min (ht g x) (ht g y)"
  shows "st_lca E db (gId g x) (gId g y) =
    (if h = ht g a \<or> lca_safe (ceillog2 h) h (h - ht g a - 1) then Ok (gId g a) else Panic)"
proof -
  note g = reprD(7) [OF R]
  have a: "is_lca g a x y" unfolding a_def by (rule common_ancestor_is_lca [OF g x y])
  have sym: "is_lca g a y x" using a is_lca_sym by metis
  note st = st_lca_def with_snapshot_live [OF live] rep_getLinkByID [OF R x]
    rep_getLinkByID [OF R y] bind_res.simps
  show ?thesis
  proof (cases "ht g x < ht g y")
    case True
    then have c: "lHeight (link_of E g x) < lHeight (link_of E g y)" and h: "h = ht g x"
      by (simp_all add: word_less_nat_alt h_def)
    have "ht g x \<le> ht g y" using True by simp
    from lca_ordered [OF E R y x this sym] show ?thesis
      unfolding st if_P [OF c] Let_def prod.case h .
  next
    case False
    then have c: "\<not> lHeight (link_of E g x) < lHeight (link_of E g y)" and h: "h = ht g y"
      by (simp_all add: word_less_nat_alt h_def)
    have "ht g y \<le> ht g x" using False by simp
    from lca_ordered [OF E R x y this a] show ?thesis
      unfolding st if_not_P [OF c] Let_def prod.case h .
  qed
qed

lemma lca_result:
  assumes "env_ok E" "leveldb_live (ldb E)" "repr E db g" "x \<in> nodes g" "y \<in> nodes g"
    and "min (ht g x) (ht g y) \<le> 3 * ht g (common_ancestor g x y) + 1"
  shows "st_lca E db (gId g x) (gId g y) = Ok (gId g (common_ancestor g x y))"
proof -
  let ?a = "common_ancestor g x y" and ?h = "min (ht g x) (ht g y)"
  note g = reprD(7) [OF assms(3)]
  have anc: "is_anc g ?a x" "is_anc g ?a y"
    using common_ancestor_is_lca [OF g assms(4,5)] by (auto simp: is_lca_def)
  then have "ht g ?a \<le> ?h"
    using is_anc_node [OF g assms(4)] is_anc_node [OF g assms(5)] by simp
  then obtain k where k: "?h = ht g ?a + k" using le_Suc_ex by blast
  show ?thesis
  proof (cases k)
    case 0
    with k have "?h = ht g ?a" by simp
    then show ?thesis unfolding lca_outcome [OF assms(1-5)] by (simp only: simp_thms if_True)
  next
    case (Suc e)
    with k have e: "?h = ht g ?a + 1 + e" by simp
    then have "e \<le> 2 * ht g ?a" using assms(6) by linarith
    moreover have "0 < ?h" using e by linarith
    ultimately have "lca_safe (ceillog2 ?h) ?h e"
      using e less_ceillog2_iff [of ?h] by (intro lca_safe_bound [of _ "ht g ?a"]) blast+
    moreover have "?h - ht g ?a - 1 = e" using e by linarith
    ultimately show ?thesis unfolding lca_outcome [OF assms(1-5)] by (simp only: simp_thms if_True)
  qed
qed

lemma lca_self:
  assumes "env_ok E" "leveldb_live (ldb E)" "repr E db g" "x \<in> nodes g"
  shows "st_lca E db (gId g x) (gId g x) = Ok (gId g x)"
proof -
  note g = reprD(7) [OF assms(3)]
  have "common_ancestor g x x = x"
    using is_lca_unique [OF g assms(4) common_ancestor_is_lca [OF g assms(4,4)] is_lca_refl [OF g assms(4)]] .
  then show ?thesis
    using lca_result [OF assms(1-4,4)] by simp
qed

end
