(* ===== verification/Linkage.thy ===== *)
theory Linkage
  imports StorageWrites StorageQueries StorageLca
begin

text \<open>
  \<open>chains/linkage.go\<close>: the exported operations on the block graph, each holding the lock of
  the \<open>Linkage\<close> from start to end, so that calls from several goroutines are a sequence of
  these operations. The helpers \<open>hasBlock\<close>, \<open>block\<close>, \<open>activeHeads\<close> and \<open>forks\<close> of the
  source have the suffix \<open>_locked\<close> here.
\<close>

section \<open>State\<close>

record ('db, 'id) linkage =
  lnkScheme :: byte
  lnkGenesis :: 'id
  lnkSt :: 'db

text \<open>\<open>newStorage\<close> opens the database, whose contents are the argument \<open>st\<close>.\<close>

definition NewLinkage ::
  "('db, 'id) env \<Rightarrow> 'db \<Rightarrow> byte \<Rightarrow> 'id proto_block \<Rightarrow> ('db, 'id) linkage res" where
  "NewLinkage E st scheme genesis =
     bind_res (st_initialize E scheme genesis st) (\<lambda>db.
     Ok \<lparr>lnkScheme = scheme, lnkGenesis = BlockID genesis, lnkSt = db\<rparr>)"

text \<open>A call of a method of the storage from the linkage.\<close>

definition read_st :: "('db \<Rightarrow> 'a res) \<Rightarrow> (('db, 'id) linkage, 'a) action" where
  "read_st f = reads (\<lambda>l. f (lnkSt l))"

definition write_st :: "('db \<Rightarrow> 'db res) \<Rightarrow> (('db, 'id) linkage, unit) action" where
  "write_st f = writes (\<lambda>l. bind_res (f (lnkSt l)) (\<lambda>db. Ok (l\<lparr>lnkSt := db\<rparr>)))"

section \<open>Operations that write\<close>

definition PutBlock ::
  "('db, 'id) env \<Rightarrow> 'id proto_block \<Rightarrow> addr \<Rightarrow> (('db, 'id) linkage, unit) action" where
  "PutBlock E blk a =
     bind_act (read_st (\<lambda>db. st_hasBlock E db (BlockID blk))) (\<lambda>ok.
     if ok then write_st (updateLeash E a (BlockID blk))
     else
       bind_act (read_st (\<lambda>db. st_hasBlock E db (BlockParent blk))) (\<lambda>hasParent.
       if \<not> hasParent then fail_act ErrParentNotFound
       else
         bind_act (\<lambda>l. write_st (putProtoBlock E (lnkScheme l) blk) l) (\<lambda>_.
         write_st (updateLeash E a (BlockID blk)))))"

definition PutMicroBlock ::
  "('db, 'id) env \<Rightarrow> 'id micro_block_inv \<Rightarrow> addr \<Rightarrow> (('db, 'id) linkage, unit) action" where
  "PutMicroBlock E mb a =
     bind_act (read_st (\<lambda>db. st_hasBlock E db (TotalBlockID mb))) (\<lambda>ok.
     if ok then write_st (updateLeash E a (TotalBlockID mb))
     else
       bind_act (read_st (\<lambda>db. st_hasBlock E db (Reference mb))) (\<lambda>hasRef.
       if \<not> hasRef then fail_act ErrRefNotFound
       else
         bind_act (write_st (putMicroBlock E mb)) (\<lambda>_.
         write_st (updateLeash E a (TotalBlockID mb)))))"

definition MoveLeash :: "('db, 'id) env \<Rightarrow> 'id \<Rightarrow> addr \<Rightarrow> (('db, 'id) linkage, unit) action" where
  "MoveLeash E i a = write_st (updateLeash E a i)"

section \<open>Operations that read\<close>

definition HasLeash :: "('db, 'id) env \<Rightarrow> ('db, 'id) linkage \<Rightarrow> addr \<Rightarrow> bool res" where
  "HasLeash E l a =
     (case st_leash E (lnkSt l) a of
        Err ErrNotFound \<Rightarrow> Ok False
      | Err e \<Rightarrow> Err e
      | Panic \<Rightarrow> Panic
      | Ok _ \<Rightarrow> Ok True)"

definition LeashOf :: "('db, 'id) env \<Rightarrow> ('db, 'id) linkage \<Rightarrow> addr \<Rightarrow> 'id res" where
  "LeashOf E l a =
     (case st_leash E (lnkSt l) a of
        Err ErrNotFound \<Rightarrow> Ok (lnkGenesis l)
      | Err e \<Rightarrow> Err e
      | Panic \<Rightarrow> Panic
      | Ok i \<Rightarrow> Ok i)"

text \<open>
  Any error other than \<open>ErrNotFound\<close> is dropped here, and the block of the zero ID is looked
  up.
\<close>

definition LeashScore :: "('db, 'id) env \<Rightarrow> ('db, 'id) linkage \<Rightarrow> addr \<Rightarrow> int option res" where
  "LeashScore E l a =
     bind_res
       (case st_leash E (lnkSt l) a of
          Err ErrNotFound \<Rightarrow> Ok (lnkGenesis l)
        | Err _ \<Rightarrow> Ok (id_zero E)
        | Panic \<Rightarrow> Panic
        | Ok i \<Rightarrow> Ok i)
       (\<lambda>i. bind_res (st_block E (lnkSt l) i) (\<lambda>bl. Ok (bScore bl)))"

definition Heads :: "('db, 'id) env \<Rightarrow> ('db, 'id) linkage \<Rightarrow> 'id Head list res" where
  "Heads E l = st_heads E (lnkSt l)"

definition activeHeads_locked :: "('db, 'id) env \<Rightarrow> ('db, 'id) linkage \<Rightarrow> 'id Head list res" where
  "activeHeads_locked E l =
     bind_res (st_heads E (lnkSt l)) (\<lambda>heads.
     bind_res (st_leashes E (lnkSt l)) (\<lambda>leashes.
     Ok (filter (\<lambda>h. HeadBlockID h \<in> set (map LeashBlockID leashes)) heads)))"

definition ActiveHeads :: "('db, 'id) env \<Rightarrow> ('db, 'id) linkage \<Rightarrow> 'id Head list res" where
  "ActiveHeads E l = activeHeads_locked E l"

definition LastIDs :: "('db, 'id) env \<Rightarrow> ('db, 'id) linkage \<Rightarrow> 'id \<Rightarrow> int \<Rightarrow> 'id list res" where
  "LastIDs E l i cnt = getAncestors E (lnkSt l) i cnt"

definition HasBlock :: "('db, 'id) env \<Rightarrow> ('db, 'id) linkage \<Rightarrow> 'id \<Rightarrow> bool res" where
  "HasBlock E l i = st_hasBlock E (lnkSt l) i"

definition block_locked :: "('db, 'id) env \<Rightarrow> ('db, 'id) linkage \<Rightarrow> 'id \<Rightarrow> 'id Block res" where
  "block_locked E l i = bind_res (st_block E (lnkSt l) i) (toBlock E)"

definition BlockByID :: "('db, 'id) env \<Rightarrow> ('db, 'id) linkage \<Rightarrow> 'id \<Rightarrow> 'id Block res" where
  "BlockByID E l i = block_locked E l i"

definition Leashes :: "('db, 'id) env \<Rightarrow> ('db, 'id) linkage \<Rightarrow> 'id Leash list res" where
  "Leashes E l = st_leashes E (lnkSt l)"

section \<open>The longest chain\<close>

text \<open>
  One round of the loop over the leashed blocks in \<open>LCB\<close> and \<open>Fork\<close>: the best score so far,
  the number of peers on it and its block.
\<close>

definition longestStep ::
  "int option \<times> nat \<times> 'id \<Rightarrow> 'id \<Rightarrow> int option \<Rightarrow> nat \<Rightarrow> (int option \<times> nat \<times> 'id) res" where
  "longestStep acc k s n =
     (let (score, peers, longest) = acc in
      bind_res (score_cmp score s) (\<lambda>c.
      if c = 0 then Ok (if n > peers then (s, n, k) else (score, peers, longest))
      else if c = -1 then Ok (s, n, k)
      else Ok (score, peers, longest)))"

fun longestLoop ::
  "('db, 'id) env \<Rightarrow> ('db, 'id) linkage \<Rightarrow> ('id \<times> addr list) list \<Rightarrow>
    int option \<times> nat \<times> 'id \<Rightarrow> (int option \<times> nat \<times> 'id) res" where
  "longestLoop E l [] acc = Ok acc"
| "longestLoop E l ((k, v) # m) acc =
     bind_res (block_locked E l k) (\<lambda>b.
     bind_res (longestStep acc k (BlkScore b) (length v)) (longestLoop E l m))"

definition group_leashes :: "'id Leash list \<Rightarrow> ('id \<times> addr list) list" where
  "group_leashes leashes = group_by LeashBlockID LeashAddr leashes []"

definition LCB :: "('db, 'id) env \<Rightarrow> ('db, 'id) linkage \<Rightarrow> addr \<Rightarrow> 'id res" where
  "LCB E l peer =
     (case st_leash E (lnkSt l) peer of
        Err ErrNotFound \<Rightarrow> Ok (lnkGenesis l)
      | Err e \<Rightarrow> Err e
      | Panic \<Rightarrow> Panic
      | Ok head \<Rightarrow>
          bind_res (st_leashes E (lnkSt l)) (\<lambda>leashes.
          let m = group_leashes leashes in
          bind_res (longestLoop E l (range_map (range_ids E) m) (Some 0, 0, id_zero E)) (\<lambda>(_, _, longest).
          if head = longest then Ok head
          else st_lca E (lnkSt l) longest head)))"

section \<open>Forks\<close>

text \<open>The fork the code writes out alike in \<open>Fork\<close> and \<open>forks\<close>.\<close>

definition new_fork :: "'id Block \<Rightarrow> addr list \<Rightarrow> 'id Fork" where
  "new_fork b v =
     \<lparr>Longest = False, HeadBlock = BlkID b, HeadTimestamp = BlkTimestamp b,
      HeadGenerator = BlkGenerator b, HeadHeight = BlkHeight b, ForkScore = BlkScore b,
      PeersCount = int (length v), ForkPeers = v, LastCommonBlock = BlkID b,
      ForkLength = int (unat (BlkHeight b))\<rparr>"

text \<open>
  The zero value of a \<open>Fork\<close>: no peers, the zero ID, the zero time (year 1, as a Unix time
  in milliseconds), an address of 26 zero bytes.
\<close>

definition zero_fork :: "('db, 'id) env \<Rightarrow> 'id Fork" where
  "zero_fork E =
     \<lparr>Longest = False, HeadBlock = id_zero E, HeadTimestamp = - 62135596800000,
      HeadGenerator = replicate 26 0, HeadHeight = 0, ForkScore = None,
      PeersCount = 0, ForkPeers = [], LastCommonBlock = id_zero E, ForkLength = 0\<rparr>"

fun forkLoop ::
  "('db, 'id) env \<Rightarrow> ('db, 'id) linkage \<Rightarrow> addr \<Rightarrow> ('id \<times> addr list) list \<Rightarrow>
    int option \<times> nat \<times> 'id \<Rightarrow> 'id Fork \<Rightarrow> ('id \<times> 'id Fork) res" where
  "forkLoop E l peer [] acc fork = Ok (snd (snd acc), fork)"
| "forkLoop E l peer ((k, v) # m) acc fork =
     bind_res (block_locked E l k) (\<lambda>b.
     bind_res (longestStep acc k (BlkScore b) (length v)) (\<lambda>acc.
     forkLoop E l peer m acc (if peer \<in> set v then new_fork b v else fork)))"

definition ForkOf :: "('db, 'id) env \<Rightarrow> ('db, 'id) linkage \<Rightarrow> addr \<Rightarrow> 'id Fork res" where
  "ForkOf E l peer =
     bind_res (st_leashes E (lnkSt l)) (\<lambda>leashes.
     let m = group_leashes leashes in
     bind_res (forkLoop E l peer (range_map (range_ids E) m) (Some 0, 0, id_zero E) (zero_fork E)) (\<lambda>(longest, fork).
     if HeadBlock fork = longest then Ok (fork\<lparr>Longest := True, ForkLength := 0\<rparr>)
     else
       bind_res (st_lca E (lnkSt l) longest (HeadBlock fork)) (\<lambda>lcaID.
       bind_res (st_block E (lnkSt l) lcaID) (\<lambda>lcaBlock.
       Ok (fork\<lparr>LastCommonBlock := lcaID,
                ForkLength := ForkLength fork - int (unat (bHeight lcaBlock))\<rparr>)))))"

text \<open>The last loop of \<open>forks\<close>: the last common block with the longest fork.\<close>

definition relate_fork :: "('db, 'id) env \<Rightarrow> ('db, 'id) linkage \<Rightarrow> 'id \<Rightarrow> 'id Fork \<Rightarrow> 'id Fork res" where
  "relate_fork E l longest f =
     bind_res (st_lca E (lnkSt l) longest (HeadBlock f)) (\<lambda>lcaID.
     bind_res (st_block E (lnkSt l) lcaID) (\<lambda>lcaBlock.
     Ok (f\<lparr>LastCommonBlock := lcaID, ForkLength := ForkLength f - int (unat (bHeight lcaBlock))\<rparr>)))"

text \<open>\<open>LookupPeers\<close> is the list of the keys of the map.\<close>

definition forks_locked ::
  "('db, 'id) env \<Rightarrow> ('db, 'id) linkage \<Rightarrow> addr list \<Rightarrow> 'id Fork list res" where
  "forks_locked E l peers =
     bind_res (st_leashes E (lnkSt l)) (\<lambda>leashes.
     let m = group_leashes (filter (\<lambda>lsh. \<not> (length peers > 0 \<and> LeashAddr lsh \<notin> set peers)) leashes) in
     bind_res (mapM_res (\<lambda>(k, v). bind_res (block_locked E l k) (\<lambda>b. Ok (new_fork b v)))
       (range_map (range_ids E) m)) (\<lambda>r.
     bind_res (sort_forks r) (\<lambda>r.
     bind_res (slice_get r 0) (\<lambda>longest.
     mapM_res (relate_fork E l (HeadBlock longest)) (r[0 := longest\<lparr>Longest := True\<rparr>])))))"

definition Forks :: "('db, 'id) env \<Rightarrow> ('db, 'id) linkage \<Rightarrow> addr list \<Rightarrow> 'id Fork list res" where
  "Forks E l peers = forks_locked E l peers"

definition longForkThreshold :: int where
  "longForkThreshold = 5"

definition StatsOf :: "('db, 'id) env \<Rightarrow> ('db, 'id) linkage \<Rightarrow> Stats res" where
  "StatsOf E l =
     bind_res (forks_locked E l []) (\<lambda>forks.
     Ok (fold (\<lambda>f r. if ForkLength f > longForkThreshold then r\<lparr>Long := Long r + 1\<rparr>
                     else r\<lparr>Short := Short r + 1\<rparr>)
           forks \<lparr>Short = 0, Long = 0\<rparr>))"

text \<open>\<open>m[b.Generator]++\<close> counts the entries of the slice under the key.\<close>

definition ForkGenerators ::
  "('db, 'id) env \<Rightarrow> ('db, 'id) linkage \<Rightarrow> 'id \<Rightarrow> int \<Rightarrow> GeneratorStats list res" where
  "ForkGenerators E l blockID cnt =
     bind_res (getBlocks E (lnkSt l) blockID cnt) (\<lambda>bs.
     let m = group_by BlkGenerator (\<lambda>_. ()) bs [];
         stats = map (\<lambda>(k, v). \<lparr>Generator = k, Blocks = int (length v)\<rparr>) (range_map (range_addresses E) m)
     in Ok (sort_by generator_less stats))"

end
