(* ===== verification/LinkageInv.thy ===== *)
theory LinkageInv
  imports Linkage
begin

text \<open>
  The operations of the \<open>Linkage\<close> that write refine operations of the tree, and every state
  of the \<open>Linkage\<close> that the program can reach represents a tree.
\<close>

section \<open>The relation and the bounds\<close>

definition lk_rep :: "('db, 'id) env \<Rightarrow> ('db, 'id) linkage \<Rightarrow> 'id graph \<Rightarrow> bool" where
  "lk_rep E l g \<longleftrightarrow> repr E (lnkSt l) g \<and> gId g 1 = lnkGenesis l"

text \<open>
  Heights are 32-bit numbers and block numbers are 64-bit numbers. No height exceeds the
  number of blocks, so a store of fewer than \<open>2 ^ 32 - 1\<close> blocks has room for another one.
\<close>

definition room :: "'id graph \<Rightarrow> bool" where
  "room g \<longleftrightarrow> gSize g < 2 ^ 32 - 1"

definition known :: "'id graph \<Rightarrow> 'id \<Rightarrow> bool" where
  "known g i \<longleftrightarrow> i \<in> gId g ` nodes g"

lemma ht_le_number: "wf_tree g \<Longrightarrow> n \<in> nodes g \<Longrightarrow> ht g n \<le> n"
proof (induction n rule: less_induct)
  case (less n)
  show ?case
  proof (cases "n = 1")
    case True
    with less.prems show ?thesis by (simp add: wf_tree_def)
  next
    case False
    note p = parD [OF less.prems False]
    from less.IH [OF p(2) less.prems(1) p(1)] p show ?thesis by simp
  qed
qed

lemma roomD:
  assumes "wf_tree g" "room g"
  shows "Suc (gSize g) < 2 ^ 64" and "n \<in> nodes g \<Longrightarrow> ht g n < 2 ^ 32 - 1"
proof -
  show "Suc (gSize g) < 2 ^ 64" using assms(2) by (simp add: room_def)
  show "n \<in> nodes g \<Longrightarrow> ht g n < 2 ^ 32 - 1"
    using ht_le_number [OF assms(1), of n] assms(2) unfolding room_def nodes_def
    by (meson atLeastAtMost_iff le_less_trans)
qed

lemma st_hasBlock_OkD:
  assumes E: "env_ok E" and R: "repr E db g" and ok: "st_hasBlock E db i = Ok b"
  shows "b \<longleftrightarrow> known g i"
proof -
  have "db_snapshot (ldb E) db = Ok db"
    using ok leveldb_okD(1) [OF env_okD(1) [OF E]]
    by (cases "db_snapshot (ldb E) db") (auto simp: st_hasBlock_def with_snapshot_def)
  then show ?thesis
    using ok rep_getNum_unknown [OF R, of i] rep_getNum [OF R]
    by (cases "known g i") (auto simp: st_hasBlock_def with_snapshot_def known_def)
qed

section \<open>The operations of the tree\<close>

definition node_of :: "'id graph \<Rightarrow> 'id \<Rightarrow> nat" where
  "node_of g i = hd (filter (\<lambda>n. gId g n = i) [1..<Suc (gSize g)])"

lemma node_of: "known g i \<Longrightarrow> node_of g i \<in> nodes g \<and> gId g (node_of g i) = i"
proof -
  assume "known g i"
  then obtain n where "n \<in> nodes g" "gId g n = i" by (auto simp: known_def)
  then have "n \<in> set (filter (\<lambda>n. gId g n = i) [1..<Suc (gSize g)])"
    by (simp add: nodes_def less_Suc_eq_le del: upt_Suc)
  then have "filter (\<lambda>n. gId g n = i) [1..<Suc (gSize g)] \<noteq> []" by (metis empty_iff empty_set)
  then have "node_of g i \<in> set (filter (\<lambda>n. gId g n = i) [1..<Suc (gSize g)])"
    unfolding node_of_def by (rule hd_in_set)
  then show ?thesis by (auto simp: nodes_def)
qed

lemma node_of_gId: "wf_tree g \<Longrightarrow> n \<in> nodes g \<Longrightarrow> node_of g (gId g n) = n"
  using node_of [of g "gId g n"] by (auto simp: known_def wf_tree_def dest: inj_onD)

text \<open>What \<open>PutBlock\<close> promises: the new tree, or the error and the tree as it was.\<close>

definition g_put_block ::
  "('db, 'id) env \<Rightarrow> byte \<Rightarrow> 'id proto_block \<Rightarrow> addr \<Rightarrow> 'id graph \<Rightarrow> 'id graph res" where
  "g_put_block E scheme blk a g =
     (if known g (BlockID blk) then Ok (g_leash a (BlockID blk) g)
      else if \<not> known g (BlockParent blk) then Err ErrParentNotFound
      else
        let p = node_of g (BlockParent blk) in
        bind_res (newBlock E scheme blk (bHeight (gBlk g p) + 1) (bScore (gBlk g p))) (\<lambda>b.
        Ok (g_leash a (BlockID blk) (g_add p p (BlockID blk) b g))))"

text \<open>And \<open>PutMicroBlock\<close>, for a reference other than the genesis block.\<close>

definition g_put_micro ::
  "('db, 'id) env \<Rightarrow> 'id micro_block_inv \<Rightarrow> addr \<Rightarrow> 'id graph \<Rightarrow> 'id graph res" where
  "g_put_micro E mb a g =
     (if known g (TotalBlockID mb) then Ok (g_leash a (TotalBlockID mb) g)
      else if \<not> known g (Reference mb) then Err ErrRefNotFound
      else
        let r = node_of g (Reference mb) in
        Ok (g_leash a (TotalBlockID mb)
          (g_add (gPar g r) r (TotalBlockID mb) (micro_block E mb (gBlk g r)) g)))"

lemma known_g_add: "wf_tree g \<Longrightarrow> known (g_add p r i b g) j \<longleftrightarrow> j = i \<or> known g j"
  by (auto simp: known_def nodes_g_add dest: node_neq_new)

lemma known_g_leash [simp]: "known (g_leash a i g) j \<longleftrightarrow> known g j"
  by (simp add: known_def)

text \<open>What the rest of the package sees of a new block.\<close>

lemma g_put_block_view:
  assumes "g_put_block E scheme blk a g = Ok g'" "wf_tree g"
  shows "known g' (BlockID blk)" "gLeash g' = (gLeash g)(a \<mapsto> BlockID blk)"
    "known g i \<Longrightarrow> known g' i" "gId g' 1 = gId g 1"
proof -
  have cases: "(g' = g_leash a (BlockID blk) g \<and> known g (BlockID blk)) \<or>
      (\<exists>p b. g' = g_leash a (BlockID blk) (g_add p p (BlockID blk) b g))"
    using assms(1) by (auto simp: g_put_block_def Let_def bind_res_eq_Ok split: if_splits)
  have "1 \<noteq> Suc (gSize g)" using one_in_nodes [OF assms(2)] node_neq_new by blast
  with cases known_g_add [OF assms(2)] show "known g' (BlockID blk)" "gLeash g' = (gLeash g)(a \<mapsto> BlockID blk)"
    "known g i \<Longrightarrow> known g' i" "gId g' 1 = gId g 1" by auto
qed

section \<open>Every write keeps the relation\<close>

lemma fst_write_st: "write_st f l = (l', r) \<Longrightarrow>
    (l' = l \<and> \<not> is_ok r) \<or> (\<exists>db. f (lnkSt l) = Ok db \<and> l' = l\<lparr>lnkSt := db\<rparr> \<and> r = Ok ())"
  by (cases "f (lnkSt l)") (auto simp: write_st_def writes_def)

lemma write_st_keeps:
  assumes "lk_rep E l g" and "\<And>db. f (lnkSt l) = Ok db \<Longrightarrow> \<exists>g'. repr E db g' \<and> gId g' 1 = gId g 1"
  shows "\<exists>g'. lk_rep E (fst (write_st f l)) g'"
proof -
  obtain l' r where w: "write_st f l = (l', r)" by (cases "write_st f l")
  from fst_write_st [OF w] show ?thesis
  proof
    assume "l' = l \<and> \<not> is_ok r"
    with assms(1) w show ?thesis by auto
  next
    assume "\<exists>db. f (lnkSt l) = Ok db \<and> l' = l\<lparr>lnkSt := db\<rparr> \<and> r = Ok ()"
    with assms w show ?thesis by (fastforce simp: lk_rep_def)
  qed
qed

lemma updateLeash_keeps:
  assumes E: "env_ok E" and R: "lk_rep E l g" and a: "plain a" and i: "known g i"
  shows "\<exists>g'. lk_rep E (fst (write_st (updateLeash E a i) l)) g'"
  using updateLeash_refines [OF E _ a i [unfolded known_def]] R
  by (intro write_st_keeps [OF R]) (auto simp: lk_rep_def intro!: exI [of _ "g_leash a i g"])

lemma gId_g_add_1: "wf_tree g \<Longrightarrow> gId (g_add p r i b g) 1 = gId g 1"
  using one_in_nodes [of g] node_neq_new [of 1 g] by simp

text \<open>A write and then the leash: the block is known in whatever state the first one leaves.\<close>

lemma insert_keeps:
  assumes E: "env_ok E" and R: "lk_rep E l g" and a: "plain a"
    and f: "\<And>db. f (lnkSt l) = Ok db \<Longrightarrow> \<exists>g'. repr E db g' \<and> gId g' 1 = gId g 1 \<and> known g' i"
  shows "\<exists>g'. lk_rep E (fst (bind_act (write_st f) (\<lambda>_. write_st (updateLeash E a i)) l)) g'"
proof (cases "f (lnkSt l)")
  case (Ok db)
  then obtain g' where g': "repr E db g'" "gId g' 1 = gId g 1" "known g' i" using f by blast
  then have R': "lk_rep E (l\<lparr>lnkSt := db\<rparr>) g'" using R by (simp add: lk_rep_def)
  have "bind_act (write_st f) (\<lambda>_. write_st (updateLeash E a i)) l =
      write_st (updateLeash E a i) (l\<lparr>lnkSt := db\<rparr>)"
    by (simp add: write_st_def act_simps Ok)
  with updateLeash_keeps [OF E R' a g'(3)] show ?thesis by simp
qed (use R in \<open>auto simp: write_st_def act_simps\<close>)

lemma PutBlock_keeps:
  assumes E: "env_ok E" and R: "lk_rep E l g" and a: "plain a" and room: "room g"
  shows "\<exists>g'. lk_rep E (fst (PutBlock E blk a l)) g'"
proof -
  note R' = R [unfolded lk_rep_def, THEN conjunct1]
  note g = reprD(7) [OF R']
  note has = st_hasBlock_OkD [OF E R']
  have ins: "\<exists>g'. repr E db g' \<and> gId g' 1 = gId g 1 \<and> known g' (BlockID blk)"
    if p: "known g (BlockParent blk)" and new: "\<not> known g (BlockID blk)"
      and db: "putProtoBlock E (lnkScheme l) blk (lnkSt l) = Ok db" for db
  proof -
    obtain n where n: "n \<in> nodes g" "BlockParent blk = gId g n" using p by (auto simp: known_def)
    from putProtoBlock_refines [OF E R' roomD(1) [OF g room] n roomD(2) [OF g room n(1)] new [unfolded known_def] db]
    show ?thesis using gId_g_add_1 [OF g] known_g_add [OF g] by blast
  qed
  show ?thesis
  proof (cases "st_hasBlock E (lnkSt l) (BlockID blk)")
    case ok: (Ok b)
    show ?thesis
    proof (cases b)
      case True
      then show ?thesis
        using updateLeash_keeps [OF E R a] has [OF ok]
        by (simp add: PutBlock_def read_st_def act_simps ok)
    next
      case new: False
      show ?thesis
      proof (cases "st_hasBlock E (lnkSt l) (BlockParent blk)")
        case ok': (Ok b')
        show ?thesis
        proof (cases b')
          case True
          have "PutBlock E blk a l =
              bind_act (write_st (putProtoBlock E (lnkScheme l) blk)) (\<lambda>_. write_st (updateLeash E a (BlockID blk))) l"
            using new True ok ok' by (simp add: PutBlock_def read_st_def act_simps bind_act_def [of "\<lambda>l. write_st _ l"])
              (simp add: bind_act_def)
          moreover have "known g (BlockParent blk)" "\<not> known g (BlockID blk)"
            using has [OF ok] has [OF ok'] new True by simp_all
          ultimately show ?thesis using insert_keeps [OF E R a ins] by presburger
        qed (use R ok ok' new in \<open>auto simp: PutBlock_def read_st_def act_simps\<close>)
      qed (use R ok new in \<open>auto simp: PutBlock_def read_st_def act_simps\<close>)
    qed
  qed (use R in \<open>auto simp: PutBlock_def read_st_def act_simps\<close>)
qed

lemma PutMicroBlock_keeps:
  assumes E: "env_ok E" and live: "env_live E" and R: "lk_rep E l g" and a: "plain a" and room: "room g"
  shows "\<exists>g'. lk_rep E (fst (PutMicroBlock E mb a l)) g'"
proof -
  note R' = R [unfolded lk_rep_def, THEN conjunct1]
  note g = reprD(7) [OF R']
  have has: "st_hasBlock E (lnkSt l) i = Ok (known g i)" for i
    using st_hasBlock_rep [OF env_liveD(1) [OF live] R'] by (simp add: known_def)
  have ins: "\<exists>g'. repr E db g' \<and> gId g' 1 = gId g 1 \<and> known g' (TotalBlockID mb)"
    if p: "known g (Reference mb)" and new: "\<not> known g (TotalBlockID mb)"
      and db: "putMicroBlock E mb (lnkSt l) = Ok db" for db
  proof -
    obtain r where r: "r \<in> nodes g" "Reference mb = gId g r" using p by (auto simp: known_def)
    have "r \<noteq> 1" using putMicroBlock_genesis [OF E live R', of mb] r(2) db by auto
    from putMicroBlock_refines [OF E R' roomD(1) [OF g room] r(1) this r(2) new [unfolded known_def] db]
    show ?thesis using gId_g_add_1 [OF g] known_g_add [OF g] by blast
  qed
  consider "known g (TotalBlockID mb)" | "\<not> known g (TotalBlockID mb)" "\<not> known g (Reference mb)"
    | "\<not> known g (TotalBlockID mb)" "known g (Reference mb)" by blast
  then show ?thesis
  proof cases
    case 1
    then show ?thesis
      using updateLeash_keeps [OF E R a 1] by (simp add: PutMicroBlock_def read_st_def act_simps has)
  next
    case 2
    then show ?thesis using R by (auto simp: PutMicroBlock_def read_st_def act_simps has)
  next
    case 3
    then show ?thesis
      using insert_keeps [OF E R a ins] by (simp add: PutMicroBlock_def read_st_def act_simps has)
  qed
qed

lemma MoveLeash_keeps:
  "env_ok E \<Longrightarrow> lk_rep E l g \<Longrightarrow> plain a \<Longrightarrow> known g i \<Longrightarrow> \<exists>g'. lk_rep E (fst (MoveLeash E i a l)) g'"
  unfolding MoveLeash_def by (rule updateLeash_keeps)

section \<open>The writes refine the operations of the tree\<close>

lemma write_leash_refines:
  assumes E: "env_ok E" and live: "env_live E" and R: "lk_rep E l g" and a: "plain a" and i: "known g i"
  shows "\<exists>l'. write_st (updateLeash E a i) l = (l', Ok ()) \<and> lk_rep E l' (g_leash a i g) \<and>
    lnkScheme l' = lnkScheme l"
proof -
  obtain db where db: "updateLeash E a i (lnkSt l) = Ok db" using updateLeash_live [OF live] by blast
  have "repr E db (g_leash a i g)"
    using updateLeash_refines [OF E _ a i [unfolded known_def] db] R by (simp add: lk_rep_def)
  with R db show ?thesis by (simp add: write_st_def writes_def lk_rep_def)
qed

lemma insert_refines:
  assumes E: "env_ok E" and live: "env_live E" and R: "lk_rep E l g" and a: "plain a"
    and f: "f (lnkSt l) = Ok db" "repr E db g'" "gId g' 1 = gId g 1" "known g' i"
  shows "\<exists>l'. bind_act (write_st f) (\<lambda>_. write_st (updateLeash E a i)) l = (l', Ok ()) \<and>
    lk_rep E l' (g_leash a i g')"
proof -
  have R': "lk_rep E (l\<lparr>lnkSt := db\<rparr>) g'" using R f by (simp add: lk_rep_def)
  have "bind_act (write_st f) (\<lambda>_. write_st (updateLeash E a i)) l =
      write_st (updateLeash E a i) (l\<lparr>lnkSt := db\<rparr>)"
    by (simp add: write_st_def act_simps f(1))
  with write_leash_refines [OF E live R' a f(4)] show ?thesis by auto
qed

lemma PutBlock_insert:
  assumes "st_hasBlock E (lnkSt l) (BlockID blk) = Ok False"
    and "st_hasBlock E (lnkSt l) (BlockParent blk) = Ok True"
  shows "PutBlock E blk a l =
    bind_act (write_st (putProtoBlock E (lnkScheme l) blk)) (\<lambda>_. write_st (updateLeash E a (BlockID blk))) l"
  using assms by (simp add: PutBlock_def read_st_def act_simps) (simp add: bind_act_def)

lemma PutBlock_refines:
  assumes E: "env_ok E" and live: "env_live E" and R: "lk_rep E l g" and a: "plain a" and room: "room g"
  shows "case g_put_block E (lnkScheme l) blk a g of
      Ok g' \<Rightarrow> \<exists>l'. PutBlock E blk a l = (l', Ok ()) \<and> lk_rep E l' g'
    | Err e \<Rightarrow> PutBlock E blk a l = (l, Err e)
    | Panic \<Rightarrow> PutBlock E blk a l = (l, Panic)"
proof -
  note R' = R [unfolded lk_rep_def, THEN conjunct1]
  note g = reprD(7) [OF R']
  have has: "st_hasBlock E (lnkSt l) i = Ok (known g i)" for i
    using st_hasBlock_rep [OF env_liveD(1) [OF live] R'] by (simp add: known_def)
  consider "known g (BlockID blk)" | "\<not> known g (BlockID blk)" "\<not> known g (BlockParent blk)"
    | "\<not> known g (BlockID blk)" "known g (BlockParent blk)" by blast
  then show ?thesis
  proof cases
    case 1
    then show ?thesis using write_leash_refines [OF E live R a 1]
      by (auto simp: PutBlock_def read_st_def act_simps has g_put_block_def)
  next
    case 2
    then show ?thesis by (simp add: PutBlock_def read_st_def act_simps has g_put_block_def)
  next
    case 3
    let ?p = "node_of g (BlockParent blk)"
    have p: "?p \<in> nodes g" "BlockParent blk = gId g ?p" using node_of [OF 3(2)] by simp_all
    note ins = PutBlock_insert [of E l blk, unfolded has, simplified, OF 3]
    obtain ga where ga: "address_of_key E (lnkScheme l) (GeneratorPublicKey blk) = Ok ga"
      using env_liveD(4) [OF live] by blast
    show ?thesis
    proof (cases "unat (BlockBaseTarget blk) \<le> MaxInt64")
      case True
      obtain db where db: "putProtoBlock E (lnkScheme l) blk (lnkSt l) = Ok db"
        using putProtoBlock_live [OF E live R' p roomD(2) [OF g room p(1)] True] by blast
      from putProtoBlock_refines [OF E R' roomD(1) [OF g room] p roomD(2) [OF g room p(1)]
          3(1) [unfolded known_def] db]
      obtain b where b: "newBlock E (lnkScheme l) blk (bHeight (gBlk g ?p) + 1) (bScore (gBlk g ?p)) = Ok b"
        and db': "repr E db (g_add ?p ?p (BlockID blk) b g)" by blast
      have "known (g_add ?p ?p (BlockID blk) b g) (BlockID blk)" using known_g_add [OF g] by blast
      from insert_refines [where f = "putProtoBlock E (lnkScheme l) blk", OF E live R a db db' gId_g_add_1 [OF g] this]
      have "\<exists>l'. PutBlock E blk a l = (l', Ok ()) \<and>
          lk_rep E l' (g_leash a (BlockID blk) (g_add ?p ?p (BlockID blk) b g))"
        unfolding ins .
      with 3 b show ?thesis by (simp add: g_put_block_def Let_def)
    next
      case False
      then have "putProtoBlock E (lnkScheme l) blk (lnkSt l) = Panic"
        by (intro putProtoBlock_panic [OF E live R' p]) simp
      moreover have "BlockBaseTarget blk \<noteq> 0" using False by auto
      with False have "calculateScore (BlockBaseTarget blk) = Panic" by (simp add: calculateScore_def)
      ultimately show ?thesis
        using 3 ga unfolding ins
        by (simp add: g_put_block_def Let_def newBlock_def calculateCumulativeScore_def write_st_def act_simps)
    qed
  qed
qed

lemma PutMicroBlock_refines:
  assumes E: "env_ok E" and live: "env_live E" and R: "lk_rep E l g" and a: "plain a" and room: "room g"
    and ref: "Reference mb \<noteq> lnkGenesis l"
  shows "case g_put_micro E mb a g of
      Ok g' \<Rightarrow> \<exists>l'. PutMicroBlock E mb a l = (l', Ok ()) \<and> lk_rep E l' g'
    | Err e \<Rightarrow> PutMicroBlock E mb a l = (l, Err e)
    | Panic \<Rightarrow> False"
proof -
  note R' = R [unfolded lk_rep_def, THEN conjunct1]
  note g = reprD(7) [OF R']
  have has: "st_hasBlock E (lnkSt l) i = Ok (known g i)" for i
    using st_hasBlock_rep [OF env_liveD(1) [OF live] R'] by (simp add: known_def)
  consider "known g (TotalBlockID mb)" | "\<not> known g (TotalBlockID mb)" "\<not> known g (Reference mb)"
    | "\<not> known g (TotalBlockID mb)" "known g (Reference mb)" by blast
  then show ?thesis
  proof cases
    case 1
    then show ?thesis using write_leash_refines [OF E live R a 1]
      by (auto simp: PutMicroBlock_def read_st_def act_simps has g_put_micro_def)
  next
    case 2
    then show ?thesis by (simp add: PutMicroBlock_def read_st_def act_simps has g_put_micro_def)
  next
    case 3
    let ?r = "node_of g (Reference mb)"
    have r: "?r \<in> nodes g" "Reference mb = gId g ?r" using node_of [OF 3(2)] by simp_all
    have "?r \<noteq> 1" using ref r(2) R by (auto simp: lk_rep_def)
    note r' = r(1) this r(2)
    obtain db where db: "putMicroBlock E mb (lnkSt l) = Ok db"
      using putMicroBlock_live [OF E live R' r'] by blast
    from putMicroBlock_refines [OF E R' roomD(1) [OF g room] r' 3(1) [unfolded known_def] db]
    have db': "repr E db (g_add (gPar g ?r) ?r (TotalBlockID mb) (micro_block E mb (gBlk g ?r)) g)" .
    have "known (g_add (gPar g ?r) ?r (TotalBlockID mb) (micro_block E mb (gBlk g ?r)) g) (TotalBlockID mb)"
      using known_g_add [OF g] by blast
    from insert_refines [where f = "putMicroBlock E mb", OF E live R a db db' gId_g_add_1 [OF g] this] 3
    show ?thesis
      by (simp add: PutMicroBlock_def read_st_def act_simps has g_put_micro_def Let_def)
  qed
qed

section \<open>Reachable states\<close>

text \<open>A new \<open>Linkage\<close> on an empty database, and on one that holds blocks already.\<close>

lemma NewLinkage_rep:
  assumes E: "env_ok E" and empty: "db_empty (ldb E) db" and new: "NewLinkage E db scheme gb = Ok l"
  shows "\<exists>ga s. lk_rep E l (g_init (BlockID gb) (genesis_block E gb ga s))"
proof -
  from new obtain db' where db': "st_initialize E scheme gb db = Ok db'" "lnkSt l = db'"
    "lnkGenesis l = BlockID gb"
    by (auto simp: NewLinkage_def bind_res_eq_Ok)
  from st_initialize_refines [OF E empty db'(1)] db'(2,3) show ?thesis
    by (auto simp: lk_rep_def g_init_def)
qed

lemma NewLinkage_again:
  assumes "env_ok E" "env_live E" "lk_rep E l g"
  shows "NewLinkage E (lnkSt l) scheme gb =
    Ok \<lparr>lnkScheme = scheme, lnkGenesis = BlockID gb, lnkSt = lnkSt l\<rparr>"
  using st_initialize_again [OF assms(1,2) assms(3) [unfolded lk_rep_def, THEN conjunct1]]
  by (simp add: NewLinkage_def)

text \<open>Fewer than \<open>2 ^ 32 - 1\<close> blocks, told by the blocks counter of the store.\<close>

definition has_room :: "('db, 'id) env \<Rightarrow> ('db, 'id) linkage \<Rightarrow> bool" where
  "has_room E l =
     (case getCounter E (lnkSt l) blocksCounter of
        Ok w \<Rightarrow> unat w < 2 ^ 32 - 1
      | _ \<Rightarrow> False)"

lemma has_room_iff: "lk_rep E l g \<Longrightarrow> has_room E l \<longleftrightarrow> room g"
proof -
  assume R: "lk_rep E l g"
  then have c: "getCounter E (lnkSt l) blocksCounter = Ok (word_of_nat (gSize g))"
    by (simp add: lk_rep_def rep_getCounter)
  have "gSize g < 2 ^ 64" using R rep_size by (auto simp: lk_rep_def)
  then have "unat (word_of_nat (gSize g) :: u64) = gSize g" by (simp add: unat_of_nat)
  then show ?thesis unfolding has_room_def c room_def by simp
qed

text \<open>
  The states of the \<open>Linkage\<close>: a new store, and after every call of an operation that writes,
  whatever it returned. Peers have plain addresses, and a leash is moved to a known block.
\<close>

inductive lk_reach :: "('db, 'id) env \<Rightarrow> ('db, 'id) linkage \<Rightarrow> bool" for E where
  created: "db_empty (ldb E) db \<Longrightarrow> NewLinkage E db scheme gb = Ok l \<Longrightarrow> lk_reach E l"
| reopened: "lk_reach E l \<Longrightarrow> BlockID gb = lnkGenesis l \<Longrightarrow>
    NewLinkage E (lnkSt l) scheme gb = Ok l' \<Longrightarrow> lk_reach E l'"
| put: "lk_reach E l \<Longrightarrow> has_room E l \<Longrightarrow> plain a \<Longrightarrow> PutBlock E blk a l = (l', r) \<Longrightarrow> lk_reach E l'"
| put_micro: "lk_reach E l \<Longrightarrow> has_room E l \<Longrightarrow> plain a \<Longrightarrow> PutMicroBlock E mb a l = (l', r) \<Longrightarrow>
    lk_reach E l'"
| moved: "lk_reach E l \<Longrightarrow> plain a \<Longrightarrow> HasBlock E l i = Ok True \<Longrightarrow> MoveLeash E i a l = (l', r) \<Longrightarrow>
    lk_reach E l'"

inductive_cases lk_reachE: "lk_reach E l"

lemma lk_reach_rep:
  assumes reach: "lk_reach E l" and E: "env_ok E" and live: "env_live E"
  shows "\<exists>g. lk_rep E l g"
  using reach
proof induction
  case (created db scheme gb l)
  with NewLinkage_rep [OF E] show ?case by blast
next
  case (reopened l gb scheme l')
  then obtain g where g: "lk_rep E l g" by blast
  from NewLinkage_again [OF E live this] reopened(2,3) g have "lk_rep E l' g"
    by (auto simp: lk_rep_def)
  then show ?case by blast
next
  case (put l a blk l' r)
  then obtain g where g: "lk_rep E l g" by blast
  from PutBlock_keeps [OF E g put(3)] has_room_iff [OF g] put(2,4) show ?case by (metis fst_conv)
next
  case (put_micro l a mb l' r)
  then obtain g where g: "lk_rep E l g" by blast
  from PutMicroBlock_keeps [OF E live g put_micro(3)] has_room_iff [OF g] put_micro(2,4)
  show ?case by (metis fst_conv)
next
  case (moved l a i l' r)
  then obtain g where g: "lk_rep E l g" by blast
  then have "known g i"
    using moved(3) st_hasBlock_OkD [OF E] by (auto simp: HasBlock_def lk_rep_def)
  from MoveLeash_keeps [OF E g moved(2) this] moved(4) show ?case by (metis fst_conv)
qed

end
