(* ===== verification/LinkageForks.thy ===== *)
theory LinkageForks
  imports LinkageInv
begin

text \<open>
  What the \<open>Linkage\<close> tells about the forks: the last common block of a peer with the longest
  chain, the list of forks, the fork of one peer, the statistics and the generators. The
  blocks peers are leashed to are the heads of the forks; the longest one has the best score,
  and among those of that score the most peers.
\<close>

section \<open>Leashes of the tree\<close>

text \<open>The peers on block \<open>i\<close>, among those looked up when the list of peers is not empty.\<close>

definition peers_on :: "'id graph \<Rightarrow> addr list \<Rightarrow> 'id \<Rightarrow> addr set" where
  "peers_on g P i = {a. gLeash g a = Some i \<and> a \<noteq> all_ones \<and> (P = [] \<or> a \<in> set P)}"

definition score_of :: "'id graph \<Rightarrow> 'id \<Rightarrow> int" where
  "score_of g i = score_value (bScore (gBlk g (node_of g i)))"

text \<open>A block with peers that no other one with peers beats.\<close>

definition best_leash :: "'id graph \<Rightarrow> addr list \<Rightarrow> 'id \<Rightarrow> bool" where
  "best_leash g P k \<longleftrightarrow>
     peers_on g P k \<noteq> {} \<and>
     (\<forall>i. peers_on g P i \<noteq> {} \<longrightarrow>
        score_of g i < score_of g k \<or>
        (score_of g i = score_of g k \<and> card (peers_on g P i) \<le> card (peers_on g P k)))"

definition times_ok :: "'id graph \<Rightarrow> bool" where
  "times_ok g \<longleftrightarrow> (\<forall>n \<in> nodes g. ts_ok g n)"

text \<open>Two blocks whose fork is at most twice as long as the chain below it.\<close>

definition near :: "'id graph \<Rightarrow> nat \<Rightarrow> nat \<Rightarrow> bool" where
  "near g x y \<longleftrightarrow> min (ht g x) (ht g y) \<le> 3 * ht g (common_ancestor g x y) + 1"

lemma peers_on_known: "lk_rep E l g \<Longrightarrow> peers_on g P i \<noteq> {} \<Longrightarrow> known g i"
  using reprD(10) [of E "lnkSt l" g] by (auto simp: lk_rep_def peers_on_def wf_leashes_def known_def)

lemma block_locked_rep:
  assumes "env_ok E" "env_live E" "lk_rep E l g" "times_ok g" "known g i"
  shows "block_locked E l i = Ok (block_of E g (node_of g i))"
proof -
  note R = assms(3) [unfolded lk_rep_def, THEN conjunct1]
  note n = node_of [OF assms(5)]
  then show ?thesis
    using st_block_rep [OF env_liveD(1) [OF assms(2)] R n [THEN conjunct1]]
      toBlock_rep [OF assms(1) R n [THEN conjunct1]] assms(4)
    by (simp add: block_locked_def times_ok_def)
qed

lemma score_of_Some:
  assumes "lk_rep E l g" "known g i"
  shows "bScore (gBlk g (node_of g i)) = Some (score_of g i)"
  using score_Some [OF reprD(8) node_of [OF assms(2), THEN conjunct1]] assms(1)
  by (fastforce simp: lk_rep_def score_of_def score_value_def)

text \<open>The map of the leashed blocks that the code builds, ranged over in any order.\<close>

definition fork_entries ::
  "('db, 'id) env \<Rightarrow> addr list \<Rightarrow> 'id Leash list \<Rightarrow> ('id \<times> addr list) list" where
  "fork_entries E P leashes =
     range_map (range_ids E)
       (group_leashes (filter (\<lambda>lsh. \<not> (length P > 0 \<and> LeashAddr lsh \<notin> set P)) leashes))"

lemma fork_entries_Nil: "fork_entries E [] leashes = range_map (range_ids E) (group_leashes leashes)"
  by (simp add: fork_entries_def)

lemma fork_entries:
  assumes E: "env_ok E" and dist: "distinct (map LeashAddr ls)"
    and ls: "set ls = {\<lparr>LeashAddr = a, LeashBlockID = i\<rparr> |a i. gLeash g a = Some i \<and> a \<noteq> all_ones}"
  shows "distinct (map fst (fork_entries E P ls))"
    and "(k, v) \<in> set (fork_entries E P ls) \<Longrightarrow> v \<noteq> [] \<and> distinct v \<and> set v = peers_on g P k"
    and "fst ` set (fork_entries E P ls) = {k. peers_on g P k \<noteq> {}}"
proof -
  let ?ls = "filter (\<lambda>lsh. \<not> (length P > 0 \<and> LeashAddr lsh \<notin> set P)) ls"
  note grp = group_leashes_def fork_entries_def
  have d: "distinct (map fst (group_leashes ?ls))"
    unfolding group_leashes_def by (rule distinct_group_by) simp
  show "distinct (map fst (fork_entries E P ls))"
    unfolding fork_entries_def by (rule distinct_range_map [OF env_okD(8) [OF E] d])
  have eq: "set (fork_entries E P ls) = set (group_leashes ?ls)"
    unfolding fork_entries_def by (rule set_range_map [OF env_okD(8) [OF E] d])
  have addrs: "set (map LeashAddr (filter (\<lambda>x. LeashBlockID x = k) ?ls)) = peers_on g P k" for k
    by (auto simp: ls peers_on_def intro!: image_eqI)
  have dk: "distinct (map LeashAddr (filter f ls))" for f
    using dist by (rule distinct_map_filter)
  show "(k, v) \<in> set (fork_entries E P ls) \<Longrightarrow> v \<noteq> [] \<and> distinct v \<and> set v = peers_on g P k"
    unfolding eq group_leashes_def group_by_entry using addrs dk by (auto simp: filter_filter)
  show "fst ` set (fork_entries E P ls) = {k. peers_on g P k \<noteq> {}}"
  proof (intro set_eqI)
    fix k
    have "k \<in> fst ` set (fork_entries E P ls) \<longleftrightarrow> k \<in> LeashBlockID ` set ?ls"
      unfolding eq group_leashes_def keys_group_by ..
    also have "\<dots> \<longleftrightarrow> set (map LeashAddr (filter (\<lambda>x. LeashBlockID x = k) ?ls)) \<noteq> {}"
      by (auto simp: filter_empty_conv)
    finally show "k \<in> fst ` set (fork_entries E P ls) \<longleftrightarrow> k \<in> {k. peers_on g P k \<noteq> {}}"
      unfolding addrs by simp
  qed
qed

section \<open>The search for the longest chain\<close>

text \<open>One entry is at least as good as another: scores first, then the numbers of peers.\<close>

definition at_least :: "int \<times> nat \<Rightarrow> int \<times> nat \<Rightarrow> bool" where
  "at_least x y \<longleftrightarrow> fst y < fst x \<or> (fst y = fst x \<and> snd y \<le> snd x)"

lemma at_least_trans: "at_least x y \<Longrightarrow> at_least y z \<Longrightarrow> at_least x z"
  by (auto simp: at_least_def)

lemma at_least_refl [simp]: "at_least x x"
  by (simp add: at_least_def)

lemma longestStep_cases:
  "(longestStep (Some s, p, k) k' (Some s') p' = Ok (Some s', p', k') \<and> at_least (s', p') (s, p)) \<or>
   (longestStep (Some s, p, k) k' (Some s') p' = Ok (Some s, p, k) \<and> at_least (s, p) (s', p'))"
  by (simp add: longestStep_def at_least_def)

text \<open>The result of the loop is the best of the entries and the initial value.\<close>

lemma longestLoop_best:
  assumes "\<And>k v. (k, v) \<in> set m \<Longrightarrow> \<exists>b. block_locked E l k = Ok b \<and> BlkScore b = Some (sc k)"
  shows "\<exists>s' p' k'. longestLoop E l m (Some s, p, k) = Ok (Some s', p', k') \<and>
    at_least (s', p') (s, p) \<and> (\<forall>(i, v) \<in> set m. at_least (s', p') (sc i, length v)) \<and>
    ((s', p', k') = (s, p, k) \<or> (\<exists>v. (k', v) \<in> set m \<and> s' = sc k' \<and> p' = length v))"
  using assms
proof (induction m arbitrary: s p k)
  case (Cons e m)
  obtain i v where e: "e = (i, v)" by (cases e)
  obtain b where b: "block_locked E l i = Ok b" "BlkScore b = Some (sc i)"
    using Cons.prems [of i v] e by auto
  have IH: "\<exists>s' p' k'. longestLoop E l m (Some s, p, k) = Ok (Some s', p', k') \<and>
      at_least (s', p') (s, p) \<and> (\<forall>(i, v) \<in> set m. at_least (s', p') (sc i, length v)) \<and>
      ((s', p', k') = (s, p, k) \<or> (\<exists>v. (k', v) \<in> set m \<and> s' = sc k' \<and> p' = length v))" for s p k
    by (rule Cons.IH) (use Cons.prems in auto)
  have step: "longestLoop E l (e # m) (Some s, p, k) =
      bind_res (longestStep (Some s, p, k) i (Some (sc i)) (length v)) (longestLoop E l m)"
    by (simp add: e b)
  from longestStep_cases [of s p k i "sc i" "length v"] show ?case
  proof (elim disjE conjE)
    assume st: "longestStep (Some s, p, k) i (Some (sc i)) (length v) = Ok (Some (sc i), length v, i)"
      and ge: "at_least (sc i, length v) (s, p)"
    from IH [of "sc i" "length v" i] obtain s' p' k' where
      r: "longestLoop E l m (Some (sc i), length v, i) = Ok (Some s', p', k')"
      and g: "at_least (s', p') (sc i, length v)" "\<forall>(i, v) \<in> set m. at_least (s', p') (sc i, length v)"
      and w: "(s', p', k') = (sc i, length v, i) \<or> (\<exists>v. (k', v) \<in> set m \<and> s' = sc k' \<and> p' = length v)"
      by blast
    have "longestLoop E l (e # m) (Some s, p, k) = Ok (Some s', p', k')" using step st r by simp
    moreover have "at_least (s', p') (s, p)" by (rule at_least_trans [OF g(1) ge])
    moreover have "\<forall>(i, v) \<in> set (e # m). at_least (s', p') (sc i, length v)" using g e by simp
    moreover have "\<exists>v. (k', v) \<in> set (e # m) \<and> s' = sc k' \<and> p' = length v" using w e by auto
    ultimately show ?thesis by blast
  next
    assume st: "longestStep (Some s, p, k) i (Some (sc i)) (length v) = Ok (Some s, p, k)"
      and ge: "at_least (s, p) (sc i, length v)"
    from IH [of s p k] obtain s' p' k' where
      r: "longestLoop E l m (Some s, p, k) = Ok (Some s', p', k')"
      and g: "at_least (s', p') (s, p)" "\<forall>(i, v) \<in> set m. at_least (s', p') (sc i, length v)"
      and w: "(s', p', k') = (s, p, k) \<or> (\<exists>v. (k', v) \<in> set m \<and> s' = sc k' \<and> p' = length v)"
      by blast
    have "longestLoop E l (e # m) (Some s, p, k) = Ok (Some s', p', k')" using step st r by simp
    moreover have "\<forall>(i, v) \<in> set (e # m). at_least (s', p') (sc i, length v)"
      using g e at_least_trans [OF g(1) ge] by simp
    moreover have "(s', p', k') = (s, p, k) \<or> (\<exists>v. (k', v) \<in> set (e # m) \<and> s' = sc k' \<and> p' = length v)"
      using w by auto
    ultimately show ?thesis using g(1) by blast
  qed
qed simp

text \<open>The leashed block the loops of \<open>LCB\<close> and \<open>Fork\<close> choose.\<close>

lemma score_of_nonneg:
  assumes R: "lk_rep E l g" and i: "known g i"
  shows "0 \<le> score_of g i"
proof -
  note R' = R [unfolded lk_rep_def, THEN conjunct1]
  note wf = reprD(7,8) [OF R'] and n = node_of [OF i, THEN conjunct1]
  have "ht g (node_of g i) - 1 < ht g (node_of g i)" using ht_pos [OF wf(1) n] by simp
  from score_anc_le [OF wf n this]
  have "score_value (bScore (gBlk g 1)) \<le> score_of g i"
    by (simp only: anc_genesis [OF wf(1) n] score_of_def)
  moreover have "0 \<le> score_value (bScore (gBlk g 1))"
    using wf(2) by (auto simp: wf_scores_def score_value_def)
  ultimately show ?thesis by simp
qed

lemma longestLoop_leashes:
  assumes E: "env_ok E" and live: "env_live E" and R: "lk_rep E l g" and ts: "times_ok g"
    and dist: "distinct (map LeashAddr ls)"
    and ls: "set ls = {\<lparr>LeashAddr = a, LeashBlockID = i\<rparr> |a i. gLeash g a = Some i \<and> a \<noteq> all_ones}"
    and some: "peers_on g [] j \<noteq> {}"
  shows "\<exists>s p k. longestLoop E l (fork_entries E [] ls) (Some 0, 0, i0) = Ok (s, p, k) \<and> best_leash g [] k"
proof -
  let ?m = "fork_entries E [] ls"
  note en = fork_entries [OF E dist ls]
  have known: "known g k" if "(k, v) \<in> set ?m" for k v
    using en(2) [OF that] peers_on_known [OF R, where P = "[]" and i = k] by (metis set_empty)
  have blk: "\<exists>b. block_locked E l k = Ok b \<and> BlkScore b = Some (score_of g k)" if "(k, v) \<in> set ?m" for k v
    using block_locked_rep [OF E live R ts known [OF that]] score_of_Some [OF R known [OF that]] by simp
  have "\<exists>s p k. longestLoop E l ?m (Some 0, 0, i0) = Ok (Some s, p, k) \<and>
    at_least (s, p) (0, 0) \<and> (\<forall>(i, v) \<in> set ?m. at_least (s, p) (score_of g i, length v)) \<and>
    ((s, p, k) = (0, 0, i0) \<or> (\<exists>v. (k, v) \<in> set ?m \<and> s = score_of g k \<and> p = length v))"
    by (rule longestLoop_best) (rule blk)
  then obtain s p k where loop: "longestLoop E l ?m (Some 0, 0, i0) = Ok (Some s, p, k)"
    and best: "\<forall>(i, v) \<in> set ?m. at_least (s, p) (score_of g i, length v)"
    and from_m: "(s, p, k) = (0, 0, i0) \<or> (\<exists>v. (k, v) \<in> set ?m \<and> s = score_of g k \<and> p = length v)"
    by blast
  have card: "length v = card (peers_on g [] i)" if "(i, v) \<in> set ?m" for i v
    using en(2) [OF that] by (metis distinct_card)
  have entry: "\<exists>v. (i, v) \<in> set ?m" if "peers_on g [] i \<noteq> {}" for i
    using that en(3) by (force simp: image_iff)
  obtain v where v: "(j, v) \<in> set ?m" using entry [OF some] by blast
  have "\<not> (s, p, k) = (0, 0, i0)"
  proof
    assume "(s, p, k) = (0, 0, i0)"
    with best v have "at_least (0, 0) (score_of g j, length v)" by auto
    with score_of_nonneg [OF R known [OF v]] en(2) [OF v] show False by (simp add: at_least_def)
  qed
  with from_m obtain w where w: "(k, w) \<in> set ?m" "s = score_of g k" "p = length w" by blast
  have "best_leash g [] k"
    unfolding best_leash_def
  proof (intro conjI allI impI)
    show "peers_on g [] k \<noteq> {}" using en(2) [OF w(1)] by auto
    fix i assume "peers_on g [] i \<noteq> {}"
    then obtain u where u: "(i, u) \<in> set ?m" using entry by blast
    with best have "at_least (s, p) (score_of g i, length u)" by blast
    then show "score_of g i < score_of g k \<or>
        score_of g i = score_of g k \<and> card (peers_on g [] i) \<le> card (peers_on g [] k)"
      unfolding w(2,3) card [OF u] card [OF w(1)] at_least_def by simp
  qed
  with loop show ?thesis by blast
qed

section \<open>The last common block\<close>

lemma LCB_unleashed:
  assumes "env_ok E" "env_live E" "lk_rep E l g" "plain a" "gLeash g a = None"
  shows "LCB E l a = Ok (lnkGenesis l)"
  using st_leash_rep [OF assms(1) env_liveD(1) [OF assms(2)], of "lnkSt l" g a] assms(3-5)
  by (simp add: LCB_def lk_rep_def)

lemma LCB_leashed:
  assumes E: "env_ok E" and live: "env_live E" and R: "lk_rep E l g" and ts: "times_ok g"
    and a: "gLeash g a = Some i" "a \<noteq> all_ones"
  shows "\<exists>k. best_leash g [] k \<and> LCB E l a = (if i = k then Ok i else st_lca E (lnkSt l) k i)"
proof -
  note R' = R [unfolded lk_rep_def, THEN conjunct1]
  have pl: "plain a" using reprD(10) [OF R'] a(1) by (simp add: wf_leashes_def)
  obtain ls where ls: "st_leashes E (lnkSt l) = Ok ls" "distinct (map LeashAddr ls)"
    "set ls = {\<lparr>LeashAddr = a, LeashBlockID = i\<rparr> |a i. gLeash g a = Some i \<and> a \<noteq> all_ones}"
    using st_leashes_rep [OF E env_liveD(1) [OF live] R'] by blast
  have "peers_on g [] i \<noteq> {}" using a by (auto simp: peers_on_def)
  from longestLoop_leashes [OF E live R ts ls(2,3) this, of "id_zero E"]
  obtain s p k where "longestLoop E l (fork_entries E [] ls) (Some 0, 0, id_zero E) = Ok (s, p, k)"
    "best_leash g [] k" by blast
  then show ?thesis
    using st_leash_rep [OF E env_liveD(1) [OF live] R' pl] a(1) ls(1)
    by (auto simp: LCB_def Let_def fork_entries_Nil intro!: exI [of _ k])
qed

lemma LCB_result:
  assumes E: "env_ok E" and live: "env_live E" and R: "lk_rep E l g" and ts: "times_ok g"
    and y: "y \<in> nodes g" and a: "gLeash g a = Some (gId g y)" "a \<noteq> all_ones"
    and near: "\<And>x. x \<in> nodes g \<Longrightarrow> peers_on g [] (gId g x) \<noteq> {} \<Longrightarrow> near g x y"
  shows "\<exists>x \<in> nodes g. best_leash g [] (gId g x) \<and> LCB E l a = Ok (gId g (common_ancestor g x y))"
proof -
  note R' = R [unfolded lk_rep_def, THEN conjunct1]
  note g = reprD(7) [OF R']
  from LCB_leashed [OF E live R ts a] obtain k where k: "best_leash g [] k"
    and lcb: "LCB E l a = (if gId g y = k then Ok (gId g y) else st_lca E (lnkSt l) k (gId g y))" by blast
  have ne: "peers_on g [] k \<noteq> {}" using k by (simp add: best_leash_def)
  note x = node_of [OF peers_on_known [OF R ne]]
  let ?x = "node_of g k"
  have "st_lca E (lnkSt l) k (gId g y) = Ok (gId g (common_ancestor g ?x y))"
    using lca_result [OF E env_liveD(1) [OF live] R' conjunct1 [OF x] y] near [of ?x] x ne
    by (simp add: near_def)
  moreover have "common_ancestor g y y = y"
    by (rule is_lca_unique [OF g y common_ancestor_is_lca [OF g y y] is_lca_refl [OF g y]])
  moreover have "?x = y" if "gId g y = k" using that node_of_gId [OF g y] by simp
  ultimately have "LCB E l a = Ok (gId g (common_ancestor g ?x y))" using lcb by (cases "gId g y = k") auto
  with x k show ?thesis by metis
qed

section \<open>The list of forks\<close>

text \<open>What an entry of the list says, for the longest fork \<open>k\<close>.\<close>

definition describes :: "'id graph \<Rightarrow> addr list \<Rightarrow> 'id \<Rightarrow> 'id Fork \<Rightarrow> bool" where
  "describes g P k f \<longleftrightarrow>
     (let n = node_of g (HeadBlock f); c = common_ancestor g (node_of g k) n in
      set (ForkPeers f) = peers_on g P (HeadBlock f) \<and> distinct (ForkPeers f) \<and>
      PeersCount f = int (length (ForkPeers f)) \<and>
      ForkScore f = Some (score_of g (HeadBlock f)) \<and> HeadHeight f = bHeight (gBlk g n) \<and>
      HeadTimestamp f = int (unat (bTimestamp (gBlk g n))) \<and>
      HeadGenerator f = bGenerator (gBlk g n) \<and>
      LastCommonBlock f = gId g c \<and> ForkLength f = int (ht g n) - int (ht g c))"

lemma fork_less_alt:
  assumes "ForkScore a = Some s" "ForkScore b = Some t"
  shows "fork_less a b \<longleftrightarrow> t < s \<or> (s = t \<and> length (ForkPeers b) < length (ForkPeers a))"
  using assms by (auto simp: fork_less_def score_value_def)

lemma new_fork_simps [simp]:
  "HeadBlock (new_fork b v) = BlkID b" "ForkScore (new_fork b v) = BlkScore b"
  "ForkPeers (new_fork b v) = v" "Longest (new_fork b v) = False"
  "PeersCount (new_fork b v) = int (length v)" "HeadHeight (new_fork b v) = BlkHeight b"
  "HeadTimestamp (new_fork b v) = BlkTimestamp b" "HeadGenerator (new_fork b v) = BlkGenerator b"
  "ForkLength (new_fork b v) = int (unat (BlkHeight b))" "LastCommonBlock (new_fork b v) = BlkID b"
  by (simp_all add: new_fork_def)

lemma relate_fork_rep:
  assumes E: "env_ok E" and live: "env_live E" and R: "lk_rep E l g" and k: "known g k"
    and f: "known g (HeadBlock f)" and near: "near g (node_of g k) (node_of g (HeadBlock f))"
  shows "relate_fork E l k f =
    (let c = common_ancestor g (node_of g k) (node_of g (HeadBlock f)) in
     Ok (f\<lparr>LastCommonBlock := gId g c, ForkLength := ForkLength f - int (ht g c)\<rparr>))"
proof -
  note R' = R [unfolded lk_rep_def, THEN conjunct1] and L = env_liveD(1) [OF live]
  note x = node_of [OF k] and y = node_of [OF f]
  let ?c = "common_ancestor g (node_of g k) (node_of g (HeadBlock f))"
  have c: "?c \<in> nodes g" using common_ancestor_node [OF reprD(7) [OF R']] x y by blast
  have "st_lca E (lnkSt l) k (HeadBlock f) = Ok (gId g ?c)"
    using lca_result [OF E L R' conjunct1 [OF x] conjunct1 [OF y] near [unfolded near_def]] x y by simp
  then show ?thesis
    by (simp add: relate_fork_def Let_def st_block_rep [OF L R' c])
qed

text \<open>The list before sorting.\<close>

lemma new_forks_rep:
  fixes P :: "addr list"
  assumes E: "env_ok E" and live: "env_live E" and R: "lk_rep E l g" and ts: "times_ok g"
    and dist: "distinct (map LeashAddr ls)"
    and ls: "set ls = {\<lparr>LeashAddr = a, LeashBlockID = i\<rparr> |a i. gLeash g a = Some i \<and> a \<noteq> all_ones}"
    and r_def: "r = map (\<lambda>(k, v). new_fork (block_of E g (node_of g k)) v) (fork_entries E P ls)"
  shows "mapM_res (\<lambda>(k, v). bind_res (block_locked E l k) (\<lambda>b. Ok (new_fork b v))) (fork_entries E P ls) = Ok r"
    and "map HeadBlock r = map fst (fork_entries E P ls)"
    and "f \<in> set r \<Longrightarrow> known g (HeadBlock f) \<and> ForkScore f = Some (score_of g (HeadBlock f)) \<and>
      set (ForkPeers f) = peers_on g P (HeadBlock f) \<and> distinct (ForkPeers f) \<and>
      f = new_fork (block_of E g (node_of g (HeadBlock f))) (ForkPeers f)"
proof -
  let ?m = "fork_entries E P ls"
  note en = fork_entries [OF E dist ls, where P = P]
  have known: "known g k" if "(k, v) \<in> set ?m" for k v
    using en(2) [OF that] peers_on_known [OF R, where P = P and i = k] by (metis set_empty)
  have id: "gId g (node_of g k) = k" if "(k, v) \<in> set ?m" for k v
    using node_of [OF known [OF that]] by blast
  show "mapM_res (\<lambda>(k, v). bind_res (block_locked E l k) (\<lambda>b. Ok (new_fork b v))) ?m = Ok r"
    unfolding r_def
    by (rule mapM_res_Ok) (auto simp: block_locked_rep [OF E live R ts known])
  show "map HeadBlock r = map fst ?m"
    unfolding r_def by (auto simp: id)
  show "known g (HeadBlock f) \<and> ForkScore f = Some (score_of g (HeadBlock f)) \<and>
      set (ForkPeers f) = peers_on g P (HeadBlock f) \<and> distinct (ForkPeers f) \<and>
      f = new_fork (block_of E g (node_of g (HeadBlock f))) (ForkPeers f)" if f: "f \<in> set r"
  proof -
    obtain k v where kv: "(k, v) \<in> set ?m" "f = new_fork (block_of E g (node_of g k)) v"
      using f unfolding r_def by auto
    with known [OF kv(1)] en(2) [OF kv(1)] id [OF kv(1)] score_of_Some [OF R known [OF kv(1)]]
    show ?thesis by simp
  qed
qed

lemma Forks_result:
  fixes E :: "('db, 'id) env"
  assumes E: "env_ok E" and live: "env_live E" and R: "lk_rep E l g" and ts: "times_ok g"
    and some: "peers_on g P j \<noteq> {}"
    and near: "\<And>x y. x \<in> nodes g \<Longrightarrow> y \<in> nodes g \<Longrightarrow> peers_on g P (gId g x) \<noteq> {} \<Longrightarrow>
      peers_on g P (gId g y) \<noteq> {} \<Longrightarrow> near g x y"
  shows "\<exists>fs k. Forks E l P = Ok fs \<and> best_leash g P k \<and> HeadBlock (hd fs) = k \<and>
    distinct (map HeadBlock fs) \<and> set (map HeadBlock fs) = {i. peers_on g P i \<noteq> {}} \<and>
    sorted_wrt (\<lambda>a b. \<not> fork_less b a) fs \<and> map Longest fs = True # replicate (length fs - 1) False \<and>
    (\<forall>f \<in> set fs. describes g P k f)"
proof -
  note R' = R [unfolded lk_rep_def, THEN conjunct1] and L = env_liveD(1) [OF live]
  obtain ls where ls: "st_leashes E (lnkSt l) = Ok ls" "distinct (map LeashAddr ls)"
    "set ls = {\<lparr>LeashAddr = a, LeashBlockID = i\<rparr> |a i. gLeash g a = Some i \<and> a \<noteq> all_ones}"
    using st_leashes_rep [OF E L R'] by blast
  let ?m = "fork_entries E P ls"
  note en = fork_entries [OF E ls(2,3), where P = P]
  let ?r = "map (\<lambda>(k, v). new_fork (block_of E g (node_of g k)) v) ?m"
  note r = new_forks_rep [OF E live R ts ls(2,3) refl, where P = P]
  let ?s = "sort_by fork_less ?r"
  have sort: "sort_forks ?r = Ok ?s"
  proof -
    have "\<not> (\<exists>f \<in> set ?r. ForkScore f = None)" using r(3) by fastforce
    then show ?thesis by (simp only: sort_forks_def simp_thms if_False)
  qed
  have heads: "set (map HeadBlock ?s) = {i. peers_on g P i \<noteq> {}}"
    using r(2) en(3) by (metis (no_types, lifting) list.set_map set_sort_by)
  have "?s \<noteq> []"
  proof
    assume "?s = []"
    with heads have "{i. peers_on g P i \<noteq> {}} = {}" by simp
    with some show False by blast
  qed
  then obtain f0 s' where s: "?s = f0 # s'" by (cases ?s) auto
  let ?k = "HeadBlock f0"
  have mem: "f \<in> set ?r" if "f \<in> set (f0 # s')" for f using that s by (metis set_sort_by)
  have k: "known g ?k" using r(3) [OF mem] by simp
  let ?rl = "f0\<lparr>Longest := True\<rparr> # s'"
  define rel where "rel f = (let c = common_ancestor g (node_of g ?k) (node_of g (HeadBlock f)) in
     f\<lparr>LastCommonBlock := gId g c, ForkLength := ForkLength f - int (ht g c)\<rparr>)" for f :: "'id Fork"
  have relate: "relate_fork E l ?k f = Ok (rel f)" if f: "f = f' \<or> f = f'\<lparr>Longest := True\<rparr>" "f' \<in> set (f0 # s')" for f f'
  proof -
    have hb: "HeadBlock f = HeadBlock f'" using f(1) by auto
    have f': "known g (HeadBlock f')" using r(3) [OF mem [OF f(2)]] by simp
    have ne: "peers_on g P (HeadBlock f) \<noteq> {}" if "f \<in> set (f0 # s')" for f
      using heads that unfolding s by auto
    have "near g (node_of g ?k) (node_of g (HeadBlock f))"
      using near [of "node_of g ?k" "node_of g (HeadBlock f')"] node_of [OF k] node_of [OF f']
        ne [of f0] ne [OF f(2)] hb by simp
    from relate_fork_rep [OF E live R k _ this] f' hb show ?thesis by (simp add: rel_def Let_def)
  qed
  have mapM: "mapM_res (relate_fork E l ?k) ?rl = Ok (map rel ?rl)"
    by (rule mapM_res_Ok) (use relate in auto)
  have forks: "Forks E l P = Ok (map rel ?rl)"
    using ls(1) r(1) sort s mapM
    by (simp add: Forks_def forks_locked_def Let_def fork_entries_def del: mapM_res.simps)
  have rel_simps: "HeadBlock (rel f) = HeadBlock f" "ForkScore (rel f) = ForkScore f"
    "ForkPeers (rel f) = ForkPeers f" "Longest (rel f) = Longest f" for f
    by (simp_all add: rel_def Let_def)
  have less_rel: "fork_less (rel a) (rel b) = fork_less a b" for a b
    by (simp add: fork_less_def rel_simps)
  have less_long: "fork_less (a\<lparr>Longest := True\<rparr>) b = fork_less a b" "fork_less a (b\<lparr>Longest := True\<rparr>) = fork_less a b"
    for a b by (simp_all add: fork_less_def)
  have sorted: "sorted_wrt (\<lambda>a b. \<not> fork_less b a) (map rel ?rl)"
    using fork_order.sorted_sort_by [of ?r] unfolding s
    by (simp add: sorted_wrt_map less_rel less_long)
  have hb0: "map HeadBlock (map rel ?rl) = map HeadBlock ?s"
    unfolding s by (simp add: rel_simps)
  have dist: "distinct (map HeadBlock ?s)" unfolding distinct_map_sort_by r(2) by (rule en(1))
  have long: "map Longest (map rel ?rl) = True # replicate (length s') False"
  proof -
    have "Longest f = False" if "f \<in> set s'" for f
      using r(3) [OF mem, of f] that by (metis list.set_intros(2) new_fork_simps(4))
    then show ?thesis by (simp add: rel_simps map_replicate_const [symmetric] cong: map_cong)
  qed
  have best: "best_leash g P ?k"
    unfolding best_leash_def
  proof (intro conjI allI impI)
    show "peers_on g P ?k \<noteq> {}" using heads unfolding s by auto
    fix i assume "peers_on g P i \<noteq> {}"
    then have "i \<in> HeadBlock ` set ?r" using heads unfolding set_map set_sort_by by blast
    then obtain f where f: "f \<in> set ?r" "HeadBlock f = i" by blast
    have nl: "\<not> fork_less f f0" by (rule fork_order.sort_by_head_least [OF s f(1)])
    have c: "length (ForkPeers x) = card (peers_on g P (HeadBlock x))" if "x \<in> set ?r" for x
      using r(3) [OF that] by (metis distinct_card)
    from nl show "score_of g i < score_of g ?k \<or>
        score_of g i = score_of g ?k \<and> card (peers_on g P i) \<le> card (peers_on g P ?k)"
      using r(3) [OF f(1)] r(3) [OF mem, of f0] c [OF f(1)] c [OF mem, of f0] f(2)
      by (simp add: fork_less_alt) linarith
  qed
  have desc: "describes g P ?k (rel f)" if f: "f = f' \<or> f = f'\<lparr>Longest := True\<rparr>" "f' \<in> set (f0 # s')" for f f'
  proof -
    from r(3) [OF mem [OF f(2)]] have f': "ForkScore f' = Some (score_of g (HeadBlock f'))"
      "set (ForkPeers f') = peers_on g P (HeadBlock f')" "distinct (ForkPeers f')"
      and eq: "f' = new_fork (block_of E g (node_of g (HeadBlock f'))) (ForkPeers f')" by blast+
    from arg_cong [OF eq, of PeersCount] arg_cong [OF eq, of HeadHeight] arg_cong [OF eq, of HeadTimestamp]
      arg_cong [OF eq, of HeadGenerator] arg_cong [OF eq, of ForkLength]
    have "PeersCount f' = int (length (ForkPeers f'))" "HeadHeight f' = bHeight (gBlk g (node_of g (HeadBlock f')))"
      "HeadTimestamp f' = int (unat (bTimestamp (gBlk g (node_of g (HeadBlock f')))))"
      "HeadGenerator f' = bGenerator (gBlk g (node_of g (HeadBlock f')))"
      "ForkLength f' = int (ht g (node_of g (HeadBlock f')))" by simp_all
    with f' f(1) show ?thesis by (auto simp: describes_def rel_def Let_def)
  qed
  have "\<forall>f \<in> set (map rel ?rl). describes g P ?k f" using desc by auto
  then show ?thesis
    using forks best sorted long hb0 dist heads
    by (intro exI [of _ "map rel ?rl"] exI [of _ ?k]) (simp add: rel_simps)
qed

text \<open>Without a leash of a peer that is looked up the code indexes an empty slice.\<close>

lemma Forks_no_leash:
  assumes E: "env_ok E" and live: "env_live E" and R: "lk_rep E l g"
    and none: "\<And>i. peers_on g P i = {}"
  shows "Forks E l P = Panic"
proof -
  note R' = R [unfolded lk_rep_def, THEN conjunct1]
  obtain ls where ls: "st_leashes E (lnkSt l) = Ok ls" "distinct (map LeashAddr ls)"
    "set ls = {\<lparr>LeashAddr = a, LeashBlockID = i\<rparr> |a i. gLeash g a = Some i \<and> a \<noteq> all_ones}"
    using st_leashes_rep [OF E env_liveD(1) [OF live] R'] by blast
  have "fork_entries E P ls = []"
    using fork_entries(3) [OF E ls(2,3), where P = P] none by auto
  then show ?thesis
    using ls(1) by (simp add: Forks_def forks_locked_def Let_def fork_entries_def sort_forks_def)
qed

section \<open>Statistics\<close>

lemma Stats_fold:
  "fold (\<lambda>f r. if ForkLength f > longForkThreshold then r\<lparr>Long := Long r + 1\<rparr>
      else r\<lparr>Short := Short r + 1\<rparr>) fs st =
    \<lparr>Short = Short st + int (length (filter (\<lambda>f. ForkLength f \<le> 5) fs)),
     Long = Long st + int (length (filter (\<lambda>f. 5 < ForkLength f) fs))\<rparr>"
  for st :: Stats
  by (induction fs arbitrary: st) (auto simp: longForkThreshold_def)

lemma Stats_result:
  "Forks E l [] = Ok fs \<Longrightarrow>
    StatsOf E l = Ok \<lparr>Short = int (length (filter (\<lambda>f. ForkLength f \<le> 5) fs)),
      Long = int (length (filter (\<lambda>f. 5 < ForkLength f) fs))\<rparr>"
  by (simp add: StatsOf_def Forks_def Stats_fold)

section \<open>The fork of a peer\<close>

text \<open>The loop of \<open>Fork\<close> is the loop of \<open>LCB\<close> that keeps the fork of the peer besides.\<close>

lemma forkLoop_eq:
  assumes "\<And>k v. (k, v) \<in> set m \<Longrightarrow> \<exists>b. block_locked E l k = Ok b"
  shows "forkLoop E l peer m acc fork =
    bind_res (longestLoop E l m acc) (\<lambda>(_, _, k).
      Ok (k, fold (\<lambda>e f. if peer \<in> set (snd e)
            then new_fork (case block_locked E l (fst e) of Ok b \<Rightarrow> b) (snd e) else f) m fork))"
  using assms
proof (induction m arbitrary: acc fork)
  case (Cons e m)
  obtain i v where e: "e = (i, v)" by (cases e)
  obtain b where b: "block_locked E l i = Ok b" using Cons.prems [of i v] e by auto
  have IH: "forkLoop E l peer m acc fork = bind_res (longestLoop E l m acc) (\<lambda>(_, _, k).
      Ok (k, fold (\<lambda>e f. if peer \<in> set (snd e)
            then new_fork (case block_locked E l (fst e) of Ok b \<Rightarrow> b) (snd e) else f) m fork))" for acc fork
    by (rule Cons.IH) (use Cons.prems in auto)
  show ?case
    by (cases "longestStep acc i (BlkScore b) (length v)") (simp_all add: e b IH)
qed (simp add: split_beta)

text \<open>Only one block has the peer among its peers.\<close>

lemma fold_unique:
  assumes "distinct (map fst m)" "(k, v) \<in> set m" "P (k, v)"
    and "\<And>k' v'. (k', v') \<in> set m \<Longrightarrow> P (k', v') \<Longrightarrow> k' = k"
  shows "fold (\<lambda>e f. if P e then h e else f) m z = h (k, v)"
proof -
  have none: "fold (\<lambda>e f. if P e then h e else f) xs z = z" if "\<And>e. e \<in> set xs \<Longrightarrow> \<not> P e" for xs z
    using that by (induction xs arbitrary: z) auto
  show ?thesis
    using assms
  proof (induction m arbitrary: z)
    case (Cons e m)
    show ?case
    proof (cases "e = (k, v)")
      case True
      have "\<not> P e'" if e': "e' \<in> set m" for e'
      proof
        assume "P e'"
        then have "fst e' = k" using Cons.prems(4) [of "fst e'" "snd e'"] e' by simp
        then have "k \<in> fst ` set m" using e' by blast
        with Cons.prems(1) True show False by simp
      qed
      then have "fold (\<lambda>e f. if P e then h e else f) m (h e) = h e" by (rule none)
      with True Cons.prems(3) show ?thesis by (simp only: fold_Cons comp_apply if_True)
    next
      case False
      then have "(k, v) \<in> set m" using Cons.prems(2) by simp
      moreover have "distinct (map fst m)" using Cons.prems(1) by simp
      moreover have "k' = k" if "(k', v') \<in> set m" "P (k', v')" for k' v'
        by (rule Cons.prems(4) [OF _ that(2)]) (simp add: that(1))
      ultimately have "fold (\<lambda>e f. if P e then h e else f) m z = h (k, v)" for z
        using Cons.IH [OF _ _ Cons.prems(3)] by blast
      then show ?thesis by (simp only: fold_Cons comp_apply)
    qed
  qed simp
qed

text \<open>What \<open>Fork\<close> returns for a leashed peer, \<open>k\<close> being the longest fork.\<close>

definition fork_of_peer :: "'id graph \<Rightarrow> 'id \<Rightarrow> 'id \<Rightarrow> 'id Fork \<Rightarrow> bool" where
  "fork_of_peer g k i f \<longleftrightarrow>
     HeadBlock f = i \<and> (Longest f \<longleftrightarrow> i = k) \<and> describes g [] k f"

lemma Fork_result:
  fixes E :: "('db, 'id) env"
  assumes E: "env_ok E" and live: "env_live E" and R: "lk_rep E l g" and ts: "times_ok g"
    and a: "gLeash g a = Some i" "a \<noteq> all_ones"
    and near: "\<And>x. x \<in> nodes g \<Longrightarrow> peers_on g [] (gId g x) \<noteq> {} \<Longrightarrow> near g x (node_of g i)"
  shows "\<exists>f k. ForkOf E l a = Ok f \<and> best_leash g [] k \<and> fork_of_peer g k i f"
proof -
  note R' = R [unfolded lk_rep_def, THEN conjunct1] and L = env_liveD(1) [OF live]
  note g = reprD(7) [OF R']
  obtain ls where ls: "st_leashes E (lnkSt l) = Ok ls" "distinct (map LeashAddr ls)"
    "set ls = {\<lparr>LeashAddr = a, LeashBlockID = i\<rparr> |a i. gLeash g a = Some i \<and> a \<noteq> all_ones}"
    using st_leashes_rep [OF E L R'] by blast
  let ?m = "fork_entries E [] ls"
  note en = fork_entries [OF E ls(2,3), where P = "[]"]
  have ai: "a \<in> peers_on g [] i" using a by (simp add: peers_on_def)
  then have ne: "peers_on g [] i \<noteq> {}" by blast
  have i: "known g i" by (rule peers_on_known [OF R ne])
  from longestLoop_leashes [OF E live R ts ls(2,3) ne, of "id_zero E"]
  obtain s p k where loop: "longestLoop E l ?m (Some 0, 0, id_zero E) = Ok (s, p, k)"
    and best: "best_leash g [] k" by blast
  have kne: "peers_on g [] k \<noteq> {}" using best by (simp add: best_leash_def)
  have k: "known g k" by (rule peers_on_known [OF R kne])
  have knd: "known g k'" if "(k', v) \<in> set ?m" for k' v
    using en(2) [OF that] peers_on_known [OF R, where P = "[]" and i = k'] by (metis set_empty)
  obtain v where v: "(i, v) \<in> set ?m" using ne en(3) by (force simp: image_iff)
  let ?b = "block_of E g (node_of g i)" and ?f = "new_fork (block_of E g (node_of g i)) v"
  have vs: "v \<noteq> []" "distinct v" "set v = peers_on g [] i" using en(2) [OF v] by blast+
  let ?h = "\<lambda>e. new_fork (case block_locked E l (fst e) of Ok b \<Rightarrow> b) (snd e) :: 'id Fork"
  have "fold (\<lambda>e f. if a \<in> set (snd e) then ?h e else f) ?m (zero_fork E) = ?h (i, v)"
  proof (rule fold_unique [OF en(1) v])
    show "a \<in> set (snd (i, v))" using ai vs(3) by simp
    fix k' v' assume "(k', v') \<in> set ?m" "a \<in> set (snd (k', v'))"
    then show "k' = i" using en(2) [of k' v'] a(1) by (auto simp: peers_on_def)
  qed
  then have fld: "fold (\<lambda>e f. if a \<in> set (snd e) then ?h e else f) ?m (zero_fork E) = ?f"
    by (simp add: block_locked_rep [OF E live R ts i])
  have floop: "forkLoop E l a ?m (Some 0, 0, id_zero E) (zero_fork E) = Ok (k, ?f)"
    using forkLoop_eq [of ?m E l a "(Some 0, 0, id_zero E)" "zero_fork E"]
      block_locked_rep [OF E live R ts knd] loop fld by simp
  note ni = node_of [OF i] and nk = node_of [OF k]
  let ?c = "common_ancestor g (node_of g k) (node_of g i)"
  have hb: "HeadBlock ?f = i" using ni by simp
  have base: "ForkScore ?f = Some (score_of g i)" using score_of_Some [OF R i] by simp
  show ?thesis
  proof (cases "i = k")
    case True
    have "?c = node_of g i"
      unfolding True using is_lca_unique [OF g conjunct1 [OF nk]
        common_ancestor_is_lca [OF g conjunct1 [OF nk] conjunct1 [OF nk]] is_lca_refl [OF g conjunct1 [OF nk]]] .
    moreover have "ForkOf E l a = Ok (?f\<lparr>Longest := True, ForkLength := 0\<rparr>)"
      using ls(1) floop hb True by (simp add: ForkOf_def Let_def fork_entries_Nil)
    ultimately show ?thesis
      using best True vs ni score_of_Some [OF R i]
      by (intro exI [of _ "?f\<lparr>Longest := True, ForkLength := 0\<rparr>"] exI [of _ k])
        (simp add: fork_of_peer_def describes_def Let_def)
  next
    case False
    have c: "?c \<in> nodes g" by (rule common_ancestor_node [OF g conjunct1 [OF nk] conjunct1 [OF ni]])
    have "near g (node_of g k) (node_of g i)" using near [of "node_of g k"] nk kne by simp
    then have "st_lca E (lnkSt l) k i = Ok (gId g ?c)"
      using lca_result [OF E L R' conjunct1 [OF nk] conjunct1 [OF ni]] ni nk by (simp add: near_def)
    then have "ForkOf E l a = Ok (?f\<lparr>LastCommonBlock := gId g ?c,
        ForkLength := int (ht g (node_of g i)) - int (ht g ?c)\<rparr>)"
      using ls(1) floop hb False ni
      by (simp add: ForkOf_def Let_def fork_entries_Nil st_block_rep [OF L R' c])
    then show ?thesis
      using best False vs ni score_of_Some [OF R i]
      by (intro exI [of _ "?f\<lparr>LastCommonBlock := gId g ?c, ForkLength := int (ht g (node_of g i)) - int (ht g ?c)\<rparr>"] exI [of _ k])
        (simp add: fork_of_peer_def describes_def Let_def)
  qed
qed

end
