(* ===== verification/LinkageReads.thy ===== *)
theory LinkageReads
  imports LinkageInv
begin

text \<open>
  The operations of the \<open>Linkage\<close> that look things up, on a state that represents a tree:
  blocks, leashes, scores, heads, lists of IDs and the generators of a fork.
\<close>

lemma lk_repD:
  assumes "lk_rep E l g"
  shows "repr E (lnkSt l) g" "gId g 1 = lnkGenesis l" "wf_tree g" "wf_heads g" "wf_leashes g" "wf_scores g"
  using assms reprD [of E "lnkSt l" g] by (simp_all add: lk_rep_def)

section \<open>Blocks and leashes\<close>

lemma HasBlock_rep: "env_live E \<Longrightarrow> lk_rep E l g \<Longrightarrow> HasBlock E l i = Ok (known g i)"
  by (simp add: HasBlock_def st_hasBlock_rep env_liveD(1) lk_repD(1) known_def)

lemma genesis_known: "lk_rep E l g \<Longrightarrow> known g (lnkGenesis l)"
  using one_in_nodes [OF lk_repD(3)] lk_repD(2) unfolding known_def by (metis imageI)

text \<open>The block a peer is taken to be on: its leash, the genesis block without one.\<close>

definition leash_of :: "'id graph \<Rightarrow> addr \<Rightarrow> 'id" where
  "leash_of g a = (case gLeash g a of None \<Rightarrow> gId g 1 | Some i \<Rightarrow> i)"

lemma leash_of_known: "lk_rep E l g \<Longrightarrow> known g (leash_of g a)"
  using genesis_known [of E l g] lk_repD(2,5) [of E l g]
  by (auto simp: leash_of_def wf_leashes_def known_def split: option.splits)

lemma LeashOf_rep:
  assumes "env_ok E" "env_live E" "lk_rep E l g" "plain a"
  shows "LeashOf E l a = Ok (leash_of g a)"
  using st_leash_rep [OF assms(1) env_liveD(1) [OF assms(2)] lk_repD(1) [OF assms(3)] assms(4)]
    lk_repD(2) [OF assms(3)]
  by (simp add: LeashOf_def leash_of_def split: option.splits)

lemma HasLeash_rep:
  assumes "env_ok E" "env_live E" "lk_rep E l g" "plain a"
  shows "HasLeash E l a = Ok (gLeash g a \<noteq> None)"
  using st_leash_rep [OF assms(1) env_liveD(1) [OF assms(2)] lk_repD(1) [OF assms(3)] assms(4)]
  by (simp add: HasLeash_def split: option.splits)

lemma LeashScore_rep:
  assumes "env_ok E" "env_live E" "lk_rep E l g" "plain a"
  shows "LeashScore E l a = Ok (bScore (gBlk g (node_of g (leash_of g a))))"
proof -
  note R = lk_repD(1) [OF assms(3)] and L = env_liveD(1) [OF assms(2)]
  have n: "node_of g (leash_of g a) \<in> nodes g" "gId g (node_of g (leash_of g a)) = leash_of g a"
    using node_of [OF leash_of_known [OF assms(3)]] by blast+
  have "st_block E (lnkSt l) (leash_of g a) = Ok (gBlk g (node_of g (leash_of g a)))"
    using st_block_rep [OF L R n(1)] n(2) by simp
  moreover have "(case st_leash E (lnkSt l) a of Err ErrNotFound \<Rightarrow> Ok (lnkGenesis l)
      | Err _ \<Rightarrow> Ok (id_zero E) | Panic \<Rightarrow> Panic | Ok i \<Rightarrow> Ok i) = Ok (leash_of g a)"
    using st_leash_rep [OF assms(1) L R assms(4)] lk_repD(2) [OF assms(3)]
    by (simp add: leash_of_def split: option.splits)
  ultimately show ?thesis unfolding LeashScore_def by simp
qed

lemma LastIDs_rep:
  assumes "env_ok E" "env_live E" "lk_rep E l g" "known g i" "0 \<le> cnt"
  shows "LastIDs E l i cnt = Ok (map (gId g) (chain g (nat cnt) (node_of g i)))"
  using getAncestors_rep [OF assms(1) env_liveD(1) [OF assms(2)] lk_repD(1) [OF assms(3)] _ assms(5)]
    node_of [OF assms(4)] by (metis LastIDs_def)

section \<open>Heads\<close>

lemma heads_bound:
  assumes "lk_rep E l g" "room g"
  shows "length (gHeads g) < 2 ^ 64 - 1"
  using length_heads_le [OF lk_repD(1) [OF assms(1)]] assms(2) by (simp add: room_def)

lemma Heads_rep:
  "env_ok E \<Longrightarrow> env_live E \<Longrightarrow> lk_rep E l g \<Longrightarrow> room g \<Longrightarrow>
    Heads E l = Ok (map (head_of g) [0..<length (gHeads g)])"
  unfolding Heads_def by (rule st_heads_rep [OF _ env_liveD(1) lk_repD(1) heads_bound])

text \<open>The blocks of the heads are the tips of the tree, each once.\<close>

lemma Heads_tips:
  assumes "lk_rep E l g"
  shows "map HeadBlockID (map (head_of g) [0..<length (gHeads g)]) = map (gId g) (gHeads g)"
    and "set (gHeads g) = tips g" "distinct (map (gId g) (gHeads g))"
proof -
  show "map HeadBlockID (map (head_of g) [0..<length (gHeads g)]) = map (gId g) (gHeads g)"
    by (rule nth_equalityI) auto
  show t: "set (gHeads g) = tips g" using lk_repD(4) [OF assms] by (simp add: wf_heads_def)
  have "inj_on (gId g) (tips g)"
    using lk_repD(3) [OF assms] by (auto simp: wf_tree_def tips_def inj_on_def)
  then show "distinct (map (gId g) (gHeads g))"
    using lk_repD(4) [OF assms] t by (simp add: distinct_map wf_heads_def)
qed

lemma ActiveHeads_rep:
  assumes E: "env_ok E" and live: "env_live E" and R: "lk_rep E l g" and room: "room g"
  shows "ActiveHeads E l = Ok (filter (\<lambda>h. \<exists>a. gLeash g a = Some (HeadBlockID h) \<and> a \<noteq> all_ones)
    (map (head_of g) [0..<length (gHeads g)]))"
proof -
  obtain ls where ls: "st_leashes E (lnkSt l) = Ok ls"
    "set ls = {\<lparr>LeashAddr = a, LeashBlockID = i\<rparr> |a i. gLeash g a = Some i \<and> a \<noteq> all_ones}"
    using st_leashes_rep [OF E env_liveD(1) [OF live] lk_repD(1) [OF R]] by blast
  have "i \<in> set (map LeashBlockID ls) \<longleftrightarrow> (\<exists>a. gLeash g a = Some i \<and> a \<noteq> all_ones)" for i
    unfolding set_map ls(2) by force
  then show ?thesis
    using Heads_rep [OF E live R room] ls(1)
    by (simp add: ActiveHeads_def activeHeads_locked_def Heads_def)
qed

section \<open>Generators\<close>

lemma ForkGenerators_result:
  assumes E: "env_ok E" and live: "env_live E" and R: "lk_rep E l g" and i: "known g i" and cnt: "0 \<le> cnt"
    and ts: "\<forall>m \<in> set (chain g (nat cnt) (node_of g i)). ts_ok g m"
  defines "c \<equiv> chain g (nat cnt) (node_of g i)"
  shows "\<exists>r. ForkGenerators E l i cnt = Ok r \<and> distinct (map Generator r) \<and>
    sorted_wrt (\<lambda>a b. Blocks b \<le> Blocks a) r \<and>
    set (map Generator r) = set (map (\<lambda>n. bGenerator (gBlk g n)) c) \<and>
    (\<forall>s \<in> set r. Blocks s = int (length (filter (\<lambda>n. bGenerator (gBlk g n) = Generator s) c)))"
proof -
  let ?bs = "map (block_of E g) c"
  note n = node_of [OF i]
  have bs: "getBlocks E (lnkSt l) i cnt = Ok ?bs"
    using getBlocks_rep [OF E env_liveD(1) [OF live] lk_repD(1) [OF R] conjunct1 [OF n] cnt ts] n
    by (simp add: c_def)
  let ?m = "group_by BlkGenerator (\<lambda>_. ()) ?bs []"
  have d: "distinct (map fst ?m)" by (rule distinct_group_by) simp
  let ?e = "range_map (range_addresses E) ?m"
  let ?f = "\<lambda>(k, v). \<lparr>Generator = k, Blocks = int (length v)\<rparr> :: GeneratorStats"
  note rng = set_range_map [OF env_okD(9) [OF E] d] distinct_range_map [OF env_okD(9) [OF E] d]
  have gen: "map Generator (map ?f ?e) = map fst ?e" by auto
  let ?r = "sort_by generator_less (map ?f ?e)"
  have "ForkGenerators E l i cnt = Ok ?r" by (simp add: ForkGenerators_def bs Let_def)
  moreover have "distinct (map Generator ?r)"
    unfolding distinct_map_sort_by gen by (rule rng(2))
  moreover have "sorted_wrt (\<lambda>a b. Blocks b \<le> Blocks a) ?r"
    using generator_order.sorted_sort_by [of "map ?f ?e"] by (simp add: generator_less_def not_less)
  moreover have "set (map Generator ?r) = set (map (\<lambda>n. bGenerator (gBlk g n)) c)"
  proof -
    have "set (map Generator ?r) = Generator ` set (map ?f ?e)" by (simp only: set_map set_sort_by)
    also have "\<dots> = fst ` set ?e" using arg_cong [OF gen, of set] unfolding set_map .
    also have "\<dots> = BlkGenerator ` set ?bs" unfolding rng(1) keys_group_by ..
    finally show ?thesis by (simp add: image_image)
  qed
  moreover have "Blocks s = int (length (filter (\<lambda>n. bGenerator (gBlk g n) = Generator s) c))"
    if "s \<in> set ?r" for s
  proof -
    from that have "s \<in> ?f ` set ?e" by (simp only: set_sort_by set_map)
    then obtain e where e: "e \<in> set ?m" "s = ?f e" unfolding rng(1) by blast
    obtain k v where "e = (k, v)" by (cases e)
    with e have kv: "(k, v) \<in> set ?m" "s = ?f (k, v)" by (simp_all only:)
    from kv(1) have "v = map (\<lambda>_. ()) (filter (\<lambda>x. BlkGenerator x = k) ?bs)"
      unfolding group_by_entry by blast
    with kv(2) show ?thesis by (simp add: filter_map comp_def)
  qed
  ultimately show ?thesis by blast
qed

end
