(* ===== verification/Codec.thy ===== *)
theory Codec
  imports GoStd
begin

text \<open>
  A small total encoding of numbers, byte strings and optional integers, with its round trips.
  The examples of the development build their codecs of stored records from it, where the
  program uses \<open>cbor\<close>.
\<close>

section \<open>Numbers, byte strings and scores\<close>

function enc_nat :: "nat \<Rightarrow> bytes" where
  "enc_nat n = (if n < 128 then [word_of_nat n] else word_of_nat (128 + n mod 128) # enc_nat (n div 128))"
  by auto
termination by (relation "measure id") auto

declare enc_nat.simps [simp del]

fun dec_nat :: "bytes \<Rightarrow> (nat \<times> bytes) res" where
  "dec_nat [] = Err ErrCBOR"
| "dec_nat (b # bs) =
     (if unat b < 128 then Ok (unat b, bs)
      else bind_res (dec_nat bs) (\<lambda>(n, rest). Ok (unat b - 128 + 128 * n, rest)))"

lemma dec_enc_nat [simp]: "dec_nat (enc_nat n @ rest) = Ok (n, rest)"
proof (induction n rule: enc_nat.induct)
  case (1 n)
  have small: "unat (word_of_nat k :: byte) = k" if "k < 256" for k
    using that by (simp add: unat_of_nat)
  show ?case
  proof (cases "n < 128")
    case True
    then have "unat (word_of_nat n :: byte) = n" by (intro small) simp
    with True show ?thesis
      unfolding enc_nat.simps [of n] if_P [OF True] append_Cons append_Nil dec_nat.simps by simp
  next
    case False
    have "n mod 128 < 128" by simp
    then have b: "unat (word_of_nat (128 + n mod 128) :: byte) = 128 + n mod 128"
      by (intro small) linarith
    have "128 + n mod 128 - 128 + 128 * (n div 128) = n" by simp
    then show ?thesis
      unfolding enc_nat.simps [of n] if_not_P [OF False] append_Cons dec_nat.simps b 1 [OF False]
      by simp
  qed
qed

definition enc_bytes :: "bytes \<Rightarrow> bytes" where
  "enc_bytes bs = enc_nat (length bs) @ bs"

definition dec_bytes :: "bytes \<Rightarrow> (bytes \<times> bytes) res" where
  "dec_bytes bs = bind_res (dec_nat bs) (\<lambda>(n, rest). Ok (take n rest, drop n rest))"

lemma dec_enc_bytes [simp]: "dec_bytes (enc_bytes bs @ rest) = Ok (bs, rest)"
  by (simp add: dec_bytes_def enc_bytes_def)

lemma dec_enc_bytes_end [simp]: "dec_bytes (enc_bytes bs) = Ok (bs, [])"
  using dec_enc_bytes [of bs "[]"] by simp

definition enc_score :: "int option \<Rightarrow> bytes" where
  "enc_score s = (case s of None \<Rightarrow> enc_nat 0
     | Some i \<Rightarrow> if 0 \<le> i then enc_nat 1 @ enc_nat (nat i) else enc_nat 2 @ enc_nat (nat (- i)))"

definition dec_score :: "bytes \<Rightarrow> (int option \<times> bytes) res" where
  "dec_score bs = bind_res (dec_nat bs) (\<lambda>(t, rest).
     if t = 0 then Ok (None, rest)
     else bind_res (dec_nat rest) (\<lambda>(n, rest).
       Ok (Some (if t = 1 then int n else - int n), rest)))"

lemma dec_enc_score [simp]: "dec_score (enc_score s @ rest) = Ok (s, rest)"
  by (auto simp: dec_score_def enc_score_def split: option.splits)

fun enc_list :: "u64 list \<Rightarrow> bytes" where
  "enc_list [] = []"
| "enc_list (w # ws) = put_uint64 w @ enc_list ws"

fun dec_list :: "nat \<Rightarrow> bytes \<Rightarrow> u64 list res" where
  "dec_list 0 bs = Ok []"
| "dec_list (Suc n) bs =
     bind_res (get_uint64 (take 8 bs)) (\<lambda>w. bind_res (dec_list n (drop 8 bs)) (\<lambda>ws. Ok (w # ws)))"

lemma dec_enc_list [simp]: "dec_list (length ws) (enc_list ws) = Ok ws"
  by (induction ws) auto

end
