(* ===== verification/Demo.thy ===== *)
theory Demo
  imports LinkageForks LinkageReads Codec
begin

text \<open>
  A concrete instance of the third-party functions: the store in memory, block IDs of 256
  bits, a total encoding of the two stored records. It shows that \<^term>\<open>env_ok\<close> and
  \<^term>\<open>env_live\<close> can hold together. On it a small block graph is built with the operations
  of the \<open>Linkage\<close>, at which the closed examples of the development apply its theorems.
\<close>

section \<open>An encoding of the stored records\<close>

definition demo_block_marshal :: "block \<Rightarrow> bytes res" where
  "demo_block_marshal b =
     Ok (enc_nat (unat (bHeight b)) @ enc_nat (unat (bTimestamp b)) @ enc_score (bScore b) @
         enc_bytes (bID b) @ enc_bytes (bParent b) @ enc_bytes (bGenerator b))"

definition demo_block_unmarshal :: "bytes \<Rightarrow> block res" where
  "demo_block_unmarshal bs =
     bind_res (dec_nat bs) (\<lambda>(h, bs).
     bind_res (dec_nat bs) (\<lambda>(t, bs).
     bind_res (dec_score bs) (\<lambda>(s, bs).
     bind_res (dec_bytes bs) (\<lambda>(i, bs).
     bind_res (dec_bytes bs) (\<lambda>(p, bs).
     bind_res (dec_bytes bs) (\<lambda>(g, bs).
     Ok \<lparr>bHeight = word_of_nat h, bTimestamp = word_of_nat t, bScore = s, bID = i,
         bParent = p, bGenerator = g\<rparr>))))))"

definition demo_link_marshal :: "link \<Rightarrow> bytes res" where
  "demo_link_marshal l =
     Ok (enc_nat (unat (lHeight l)) @ enc_bytes (lBlockID l) @ enc_nat (length (lParents l)) @
         enc_list (lParents l))"

definition demo_link_unmarshal :: "bytes \<Rightarrow> link res" where
  "demo_link_unmarshal bs =
     bind_res (dec_nat bs) (\<lambda>(h, bs).
     bind_res (dec_bytes bs) (\<lambda>(i, bs).
     bind_res (dec_nat bs) (\<lambda>(n, bs).
     bind_res (dec_list n bs) (\<lambda>ps.
     Ok \<lparr>lHeight = word_of_nat h, lBlockID = i, lParents = ps\<rparr>))))"

lemma demo_block_codec: "demo_block_marshal b = Ok buf \<Longrightarrow> demo_block_unmarshal buf = Ok b"
  unfolding demo_block_marshal_def demo_block_unmarshal_def by (drule sym) (simp del: append_assoc add: append_assoc)

lemma demo_link_codec: "demo_link_marshal l = Ok buf \<Longrightarrow> demo_link_unmarshal buf = Ok l"
  by (auto simp: demo_link_marshal_def demo_link_unmarshal_def)

section \<open>The environment\<close>

type_synonym demo_id = "256 word"

definition demo_env :: "(mem, demo_id) env" where
  "demo_env =
     \<lparr>ldb = mem_leveldb,
      block_marshal = demo_block_marshal, block_unmarshal = demo_block_unmarshal,
      link_marshal = demo_link_marshal, link_unmarshal = demo_link_unmarshal,
      id_bytes = (\<lambda>i. be_bytes 32 (unat i)),
      id_of_bytes = (\<lambda>bs. if length bs = 32 then Ok (word_of_nat (be_nat bs)) else Err ErrProto),
      id_zero = 0,
      address_of_key = (\<lambda>s pk. Ok (take 26 (s # pk @ replicate 26 0))),
      address_of_bytes = (\<lambda>bs. if length bs = 26 then Ok bs else Err ErrProto),
      range_ids = rev, range_addresses = rev\<rparr>"

theorem demo_env_ok: "env_ok demo_env"
proof -
  have id: "word_of_nat (be_nat (be_bytes 32 (unat i))) = i" for i :: demo_id
    using unsigned_less [of i, where 'a = nat] by (simp add: be_nat_be_bytes)
  have bytes: "be_bytes 32 (unat (word_of_nat (be_nat bs) :: demo_id)) = bs" if "length bs = 32" for bs
    using that be_nat_bound [of bs] be_bytes_be_nat [OF that] by (simp add: unat_of_nat)
  show ?thesis
    by (auto simp: env_ok_def demo_env_def mem_leveldb_ok demo_block_codec demo_link_codec id bytes
        split: if_splits)
qed

theorem demo_env_live: "env_live demo_env"
  by (simp add: env_live_def demo_env_def mem_leveldb_live demo_block_marshal_def demo_link_marshal_def)

section \<open>A small block graph\<close>

text \<open>
  The genesis block 1, block 2 on it, the blocks 3 and 4 on block 2, and a micro-block 5 that
  refers to block 3. The first peer sent 2, 3 and 5, the second sent 4, whose base target is
  higher, so that its chain has the lower score.
\<close>

definition demo_proto :: "demo_id \<Rightarrow> demo_id \<Rightarrow> u64 \<Rightarrow> u64 \<Rightarrow> demo_id proto_block" where
  "demo_proto i p t bt =
     \<lparr>BlockID = i, BlockParent = p, BlockTimestamp = t, BlockBaseTarget = bt,
      GeneratorPublicKey = [ucast t]\<rparr>"

definition demo_stored :: "u32 \<Rightarrow> u64 \<Rightarrow> int \<Rightarrow> demo_id \<Rightarrow> bytes \<Rightarrow> block" where
  "demo_stored h t s i p =
     \<lparr>bHeight = h, bTimestamp = t, bScore = Some s, bID = id_bytes demo_env i, bParent = p,
      bGenerator = take 26 (87 # [ucast t] @ replicate 26 0)\<rparr>"

definition peer1 :: addr where "peer1 = Addr4 0x01010101"
definition peer2 :: addr where "peer2 = Addr4 0x02020202"
definition peer3 :: addr where "peer3 = Addr4 0x03030303"

lemma demo_peers [simp]:
  "plain peer1" "plain peer2" "plain peer3" "peer1 \<noteq> peer2" "peer2 \<noteq> peer1" "peer1 \<noteq> peer3"
  "peer2 \<noteq> peer3" "peer3 \<noteq> peer1" "peer3 \<noteq> peer2" "peer1 \<noteq> all_ones" "peer2 \<noteq> all_ones" "peer3 \<noteq> all_ones"
  by (simp_all add: peer1_def peer2_def peer3_def)

abbreviation bt16 :: u64 where "bt16 \<equiv> 1152921504606846976"
abbreviation bt8 :: u64 where "bt8 \<equiv> 2305843009213693952"

definition demo0 :: "(mem, demo_id) linkage" where
  "demo0 = (case NewLinkage demo_env [] 87 (demo_proto 1 0 1 bt16) of Ok l \<Rightarrow> l)"
definition demo1 :: "(mem, demo_id) linkage" where
  "demo1 = fst (PutBlock demo_env (demo_proto 2 1 2 bt16) peer1 demo0)"
definition demo2 :: "(mem, demo_id) linkage" where
  "demo2 = fst (PutBlock demo_env (demo_proto 3 2 3 bt16) peer1 demo1)"
definition demo3 :: "(mem, demo_id) linkage" where
  "demo3 = fst (PutBlock demo_env (demo_proto 4 2 4 bt8) peer2 demo2)"
definition demo_micro :: "demo_id micro_block_inv" where
  "demo_micro = \<lparr>TotalBlockID = 5, Reference = 3\<rparr>"
definition demo4 :: "(mem, demo_id) linkage" where
  "demo4 = fst (PutMicroBlock demo_env demo_micro peer1 demo3)"

definition demo_g0 :: "demo_id graph" where
  "demo_g0 = g_init 1 (demo_stored 1 1 16 1 [])"
definition demo_g1 :: "demo_id graph" where
  "demo_g1 = g_leash peer1 2 (g_add 1 1 2 (demo_stored 2 2 32 2 (id_bytes demo_env 1)) demo_g0)"
definition demo_g2 :: "demo_id graph" where
  "demo_g2 = g_leash peer1 3 (g_add 2 2 3 (demo_stored 3 3 48 3 (id_bytes demo_env 2)) demo_g1)"
definition demo_g3 :: "demo_id graph" where
  "demo_g3 = g_leash peer2 4 (g_add 2 2 4 (demo_stored 3 4 40 4 (id_bytes demo_env 2)) demo_g2)"
definition demo_g4 :: "demo_id graph" where
  "demo_g4 = g_leash peer1 5 (g_add 2 3 5
     (micro_block demo_env demo_micro (demo_stored 3 3 48 3 (id_bytes demo_env 2))) demo_g3)"

lemmas demo_graphs = demo_g0_def demo_g1_def demo_g2_def demo_g3_def demo_g4_def

text \<open>The fields of the graphs, evaluated.\<close>

lemma demo_sizes [simp]:
  "gSize demo_g0 = 1" "gSize demo_g1 = 2" "gSize demo_g2 = 3" "gSize demo_g3 = 4" "gSize demo_g4 = 5"
  by (simp_all add: demo_graphs g_init_def)

lemma nodes_upt: "nodes g = set [1..<Suc (gSize g)]"
  by (auto simp: nodes_def)

lemma demo_nodes [simp]:
  "nodes demo_g0 = {1}" "nodes demo_g1 = {1, 2}" "nodes demo_g2 = {1, 2, 3}"
  "nodes demo_g3 = {1, 2, 3, 4}" "nodes demo_g4 = {1, 2, 3, 4, 5}"
  by (simp_all add: nodes_upt upt_rec_numeral) auto

lemma demo_ids [simp]:
  "gId demo_g0 = (\<lambda>_. 1)" "gId demo_g1 = (\<lambda>_. 1)(2 := 2)" "gId demo_g2 = (\<lambda>_. 1)(2 := 2, 3 := 3)"
  "gId demo_g3 = (\<lambda>_. 1)(2 := 2, 3 := 3, 4 := 4)"
  "gId demo_g4 = (\<lambda>_. 1)(2 := 2, 3 := 3, 4 := 4, 5 := 5)"
proof -
  show 0: "gId demo_g0 = (\<lambda>_. 1)" by (simp add: demo_g0_def g_init_def)
  show 1: "gId demo_g1 = (\<lambda>_. 1)(2 := 2)" by (simp add: demo_g1_def 0 eval_nat_numeral)
  show 2: "gId demo_g2 = (\<lambda>_. 1)(2 := 2, 3 := 3)" by (simp add: demo_g2_def 1 eval_nat_numeral)
  show 3: "gId demo_g3 = (\<lambda>_. 1)(2 := 2, 3 := 3, 4 := 4)" by (simp add: demo_g3_def 2 eval_nat_numeral)
  show "gId demo_g4 = (\<lambda>_. 1)(2 := 2, 3 := 3, 4 := 4, 5 := 5)" by (simp add: demo_g4_def 3 eval_nat_numeral)
qed

lemma demo_parents [simp]:
  "gPar demo_g1 = (\<lambda>_. 0)(2 := 1)" "gPar demo_g2 = (\<lambda>_. 0)(2 := 1, 3 := 2)"
  "gPar demo_g3 = (\<lambda>_. 0)(2 := 1, 3 := 2, 4 := 2)"
  "gPar demo_g4 = (\<lambda>_. 0)(2 := 1, 3 := 2, 4 := 2, 5 := 2)"
proof -
  show 1: "gPar demo_g1 = (\<lambda>_. 0)(2 := 1)" by (simp add: demo_g1_def demo_g0_def g_init_def eval_nat_numeral)
  show 2: "gPar demo_g2 = (\<lambda>_. 0)(2 := 1, 3 := 2)" by (simp add: demo_g2_def 1 eval_nat_numeral)
  show 3: "gPar demo_g3 = (\<lambda>_. 0)(2 := 1, 3 := 2, 4 := 2)" by (simp add: demo_g3_def 2 eval_nat_numeral)
  show "gPar demo_g4 = (\<lambda>_. 0)(2 := 1, 3 := 2, 4 := 2, 5 := 2)" by (simp add: demo_g4_def 3 eval_nat_numeral)
qed

lemma demo_blocks [simp]:
  "gBlk demo_g0 1 = demo_stored 1 1 16 1 []" "gBlk demo_g1 1 = demo_stored 1 1 16 1 []"
  "gBlk demo_g1 2 = demo_stored 2 2 32 2 (id_bytes demo_env 1)"
  "gBlk demo_g2 2 = demo_stored 2 2 32 2 (id_bytes demo_env 1)"
  "gBlk demo_g2 3 = demo_stored 3 3 48 3 (id_bytes demo_env 2)"
  "gBlk demo_g3 3 = demo_stored 3 3 48 3 (id_bytes demo_env 2)"
  "gBlk demo_g4 1 = demo_stored 1 1 16 1 []"
  "gBlk demo_g4 2 = demo_stored 2 2 32 2 (id_bytes demo_env 1)"
  "gBlk demo_g4 3 = demo_stored 3 3 48 3 (id_bytes demo_env 2)"
  "gBlk demo_g4 4 = demo_stored 3 4 40 4 (id_bytes demo_env 2)"
  "gBlk demo_g4 5 = micro_block demo_env demo_micro (demo_stored 3 3 48 3 (id_bytes demo_env 2))"
  by (simp_all add: demo_graphs g_init_def eval_nat_numeral)

lemma demo_leashes [simp]:
  "gLeash demo_g0 = Map.empty" "gLeash demo_g1 = [peer1 \<mapsto> 2]" "gLeash demo_g2 = [peer1 \<mapsto> 3]"
  "gLeash demo_g3 = [peer1 \<mapsto> 3, peer2 \<mapsto> 4]" "gLeash demo_g4 = [peer1 \<mapsto> 5, peer2 \<mapsto> 4]"
  by (simp_all add: demo_graphs g_init_def fun_upd_twist [of peer1 peer2])

lemma demo_stored_simps [simp]:
  "bHeight (demo_stored h t s i p) = h" "bTimestamp (demo_stored h t s i p) = t"
  "bScore (demo_stored h t s i p) = Some s" "bParent (demo_stored h t s i p) = p"
  by (simp_all add: demo_stored_def)

lemma demo_proto_simps [simp]:
  "BlockID (demo_proto i p t bt) = i" "BlockParent (demo_proto i p t bt) = p"
  "BlockTimestamp (demo_proto i p t bt) = t" "BlockBaseTarget (demo_proto i p t bt) = bt"
  "GeneratorPublicKey (demo_proto i p t bt) = [ucast t]"
  by (simp_all add: demo_proto_def)

lemma demo_micro_simps [simp]: "TotalBlockID demo_micro = 5" "Reference demo_micro = 3"
  by (simp_all add: demo_micro_def)

lemma demo_known [simp]:
  "known demo_g0 i \<longleftrightarrow> i = 1" "known demo_g1 i \<longleftrightarrow> i \<in> {1, 2}" "known demo_g2 i \<longleftrightarrow> i \<in> {1, 2, 3}"
  "known demo_g3 i \<longleftrightarrow> i \<in> {1, 2, 3, 4}" "known demo_g4 i \<longleftrightarrow> i \<in> {1, 2, 3, 4, 5}"
  by (simp_all add: known_def)

lemma demo_upt:
  "[Suc 0..<Suc (Suc 0)] = [1]" "[Suc 0..<3] = [1, 2]" "[Suc 0..<4] = [1, 2, 3]"
  "[Suc 0..<6] = [1, 2, 3, 4, 5]" "[Suc 0..<5] = [1, 2, 3, 4]"
  by (simp_all add: upt_rec eval_nat_numeral)

lemma demo_node_of [simp]:
  "node_of demo_g0 1 = 1" "node_of demo_g1 2 = 2" "node_of demo_g2 2 = 2" "node_of demo_g3 3 = 3"
  "node_of demo_g4 1 = 1" "node_of demo_g4 2 = 2" "node_of demo_g4 3 = 3" "node_of demo_g4 4 = 4"
  "node_of demo_g4 5 = 5"
  by (simp_all add: node_of_def demo_upt)

lemmas demo_one [simp] = demo_blocks [unfolded One_nat_def]

lemma demo_newBlock [simp]:
  "calculateScore bt16 = Ok 16" "calculateScore bt8 = Ok 8"
  "newBlock demo_env 87 (demo_proto i p t bt16) h (Some q) =
     Ok (demo_stored h t (16 + q) i (id_bytes demo_env p))"
  "newBlock demo_env 87 (demo_proto i p t bt8) h (Some q) =
     Ok (demo_stored h t (8 + q) i (id_bytes demo_env p))"
  by (simp_all add: newBlock_def calculateCumulativeScore_def calculateScore_def MaxInt64_def
      maxBlockScore_def demo_stored_def demo_env_def)

section \<open>The store represents it\<close>

lemma demo0_created: "NewLinkage demo_env [] 87 (demo_proto 1 0 1 bt16) = Ok demo0"
proof -
  have empty: "db_empty (ldb demo_env) []" by (simp add: demo_env_def mem_empty_ok)
  obtain db where "st_initialize demo_env 87 (demo_proto 1 0 1 bt16) [] = Ok db"
    using st_initialize_live [OF demo_env_ok demo_env_live empty] by (force simp: MaxInt64_def)
  then show ?thesis by (simp add: demo0_def NewLinkage_def)
qed

lemma demo0_rep: "lk_rep demo_env demo0 demo_g0" "lnkScheme demo0 = 87"
proof -
  have empty: "db_empty (ldb demo_env) []" by (simp add: demo_env_def mem_empty_ok)
  obtain db where db: "st_initialize demo_env 87 (demo_proto 1 0 1 bt16) [] = Ok db"
    using st_initialize_live [OF demo_env_ok demo_env_live empty] by (force simp: MaxInt64_def)
  then have d: "demo0 = \<lparr>lnkScheme = 87, lnkGenesis = 1, lnkSt = db\<rparr>"
    by (simp add: demo0_def NewLinkage_def)
  from st_initialize_refines [OF demo_env_ok empty db] obtain ga s where
    "address_of_key demo_env 87 [1] = Ok ga" "calculateScore bt16 = Ok s"
    "repr demo_env db (g_init 1 (genesis_block demo_env (demo_proto 1 0 1 bt16) ga s))" by auto
  moreover then have "genesis_block demo_env (demo_proto 1 0 1 bt16) ga s = demo_stored 1 1 16 1 []"
    by (auto simp: genesis_block_def demo_stored_def demo_env_def)
  ultimately show "lk_rep demo_env demo0 demo_g0" "lnkScheme demo0 = 87"
    by (simp_all add: lk_rep_def d) (simp_all add: demo_g0_def g_init_def)
qed

lemma lnkScheme_PutBlock: "lnkScheme (fst (PutBlock E blk a l)) = lnkScheme l"
  by (auto simp: PutBlock_def read_st_def write_st_def act_simps writes_def bind_act_def reads_def
      bind_res_eq_Ok fail_act_def split: res.split prod.split)

lemma demo_step:
  assumes "lk_rep demo_env l g" "lnkScheme l = 87" "plain a" "room g"
    and "g_put_block demo_env 87 blk a g = Ok g'"
  shows "lk_rep demo_env (fst (PutBlock demo_env blk a l)) g'"
    and "lnkScheme (fst (PutBlock demo_env blk a l)) = 87"
    and "snd (PutBlock demo_env blk a l) = Ok ()"
  using PutBlock_refines [OF demo_env_ok demo_env_live assms(1,3,4), of blk] assms(2,5)
  by (auto simp: lnkScheme_PutBlock)

lemma demo1_rep: "lk_rep demo_env demo1 demo_g1" "lnkScheme demo1 = 87"
proof -
  have "g_put_block demo_env 87 (demo_proto 2 1 2 bt16) peer1 demo_g0 = Ok demo_g1"
    by (simp add: g_put_block_def Let_def demo_g1_def)
  from demo_step [OF demo0_rep _ _ this] show "lk_rep demo_env demo1 demo_g1" "lnkScheme demo1 = 87"
    by (simp_all add: demo1_def room_def)
qed

lemma demo2_rep: "lk_rep demo_env demo2 demo_g2" "lnkScheme demo2 = 87"
proof -
  have "g_put_block demo_env 87 (demo_proto 3 2 3 bt16) peer1 demo_g1 = Ok demo_g2"
    by (simp add: g_put_block_def Let_def demo_g2_def)
  from demo_step [OF demo1_rep _ _ this] show "lk_rep demo_env demo2 demo_g2" "lnkScheme demo2 = 87"
    by (simp_all add: demo2_def room_def)
qed

lemma demo3_rep: "lk_rep demo_env demo3 demo_g3" "lnkScheme demo3 = 87"
proof -
  have "g_put_block demo_env 87 (demo_proto 4 2 4 bt8) peer2 demo_g2 = Ok demo_g3"
    by (simp add: g_put_block_def Let_def demo_g3_def)
  from demo_step [OF demo2_rep _ _ this] show "lk_rep demo_env demo3 demo_g3" "lnkScheme demo3 = 87"
    by (simp_all add: demo3_def room_def)
qed

lemma demo4_rep: "lk_rep demo_env demo4 demo_g4"
proof -
  have "g_put_micro demo_env demo_micro peer1 demo_g3 = Ok demo_g4"
    by (simp add: g_put_micro_def Let_def demo_g4_def)
  moreover have "lnkGenesis demo3 = 1" using demo3_rep(1) by (simp add: lk_rep_def)
  ultimately show ?thesis
    using PutMicroBlock_refines [OF demo_env_ok demo_env_live demo3_rep(1), of peer1 demo_micro]
    by (auto simp: demo4_def room_def)
qed

lemma demo_times: "times_ok demo_g4"
  by (simp add: times_ok_def ts_ok_def MaxInt64_def)

lemma demo_room: "room demo_g4"
  by (simp add: room_def)

lemma demo4_reach: "lk_reach demo_env demo4"
proof -
  have empty: "db_empty (ldb demo_env) []" by (simp add: demo_env_def mem_empty_ok)
  have r0: "lk_reach demo_env demo0" by (rule lk_reach.created [OF empty demo0_created])
  have put: "lk_reach demo_env (fst (PutBlock demo_env blk a l))"
    if "lk_reach demo_env l" "lk_rep demo_env l g" "room g" "plain a" for blk a l g
    using lk_reach.put [OF that(1) _ that(4), of blk] has_room_iff [OF that(2)] that(3) by (metis prod.collapse)
  have r1: "lk_reach demo_env demo1"
    unfolding demo1_def by (rule put [OF r0 demo0_rep(1)]) (simp_all add: room_def)
  have r2: "lk_reach demo_env demo2"
    unfolding demo2_def by (rule put [OF r1 demo1_rep(1)]) (simp_all add: room_def)
  have r3: "lk_reach demo_env demo3"
    unfolding demo3_def by (rule put [OF r2 demo2_rep(1)]) (simp_all add: room_def)
  have "has_room demo_env demo3" using has_room_iff [OF demo3_rep(1)] by (simp add: room_def)
  then show ?thesis
    unfolding demo4_def using lk_reach.put_micro [OF r3 _ demo_peers(1), of demo_micro] by (metis prod.collapse)
qed

text \<open>The last common ancestors of the leashed blocks, computed.\<close>

lemma meet_numeral:
  "meet (numeral k) g x y =
     (if x = y then x
      else if ht g x < ht g y then meet (pred_numeral k) g x (gPar g y)
      else meet (pred_numeral k) g (gPar g x) y)"
  by (simp only: numeral_eq_Suc meet.simps)

lemma demo_common [simp]:
  "common_ancestor demo_g4 5 4 = 2" "common_ancestor demo_g4 4 5 = 2" "common_ancestor demo_g4 5 5 = 5"
  "common_ancestor demo_g4 4 4 = 4"
  by (simp_all add: common_ancestor_def meet_numeral)

lemma demo_peers_on [simp]:
  "peers_on demo_g4 [] 5 = {peer1}" "peers_on demo_g4 [] 4 = {peer2}"
  "peers_on demo_g4 [] i \<noteq> {} \<longleftrightarrow> i = 4 \<or> i = 5"
proof -
  show "peers_on demo_g4 [] 5 = {peer1}" "peers_on demo_g4 [] 4 = {peer2}"
    by (auto simp: peers_on_def split: if_splits)
  then show "peers_on demo_g4 [] i \<noteq> {} \<longleftrightarrow> i = 4 \<or> i = 5"
    by (auto simp: peers_on_def split: if_splits)
qed

lemma demo_scores [simp]: "score_of demo_g4 4 = 40" "score_of demo_g4 5 = 48"
  by (simp_all add: score_of_def score_value_def)

lemma demo_near: "x \<in> nodes demo_g4 \<Longrightarrow> y \<in> nodes demo_g4 \<Longrightarrow> peers_on demo_g4 [] (gId demo_g4 x) \<noteq> {} \<Longrightarrow>
    peers_on demo_g4 [] (gId demo_g4 y) \<noteq> {} \<Longrightarrow> near demo_g4 x y"
  unfolding demo_peers_on(3) near_def by (auto split: if_splits)

end
