(* ===== verification/ChainsProperties.thy ===== *)
theory ChainsProperties
  imports Demo
begin

text \<open>
  The properties of package \<open>chains\<close>: what the operations of the \<open>Linkage\<close> promise, each with
  an example at the small block graph of \<open>Demo\<close>.
\<close>

section \<open>The state and the operations that write\<close>



text \<open>C5: PutBlock refines its specification on the tree: a known block only moves the leash of
  the peer, a block with an unknown parent fails with ErrParentNotFound, any other block is added
  on its parent and leashed; and when the specification fails or panics the store is unchanged.\<close>

theorem PutBlock_contract:
  assumes "env_ok E" and "env_live E" and "lk_rep E l g" and "plain a" and "room g"
  shows "case g_put_block E (lnkScheme l) blk a g of
      Ok g' \<Rightarrow> \<exists>l'. PutBlock E blk a l = (l', Ok ()) \<and> lk_rep E l' g'
    | Err e \<Rightarrow> PutBlock E blk a l = (l, Err e)
    | Panic \<Rightarrow> PutBlock E blk a l = (l, Panic)"
  by (rule PutBlock_refines [OF assms])

theorem PutBlock_contract_witness:
  "PutBlock demo_env (demo_proto 7 9 1 bt16) peer1 demo4 = (demo4, Err ErrParentNotFound) \<and>
   (\<exists>l'. PutBlock demo_env (demo_proto 4 2 4 bt8) peer2 demo2 = (l', Ok ()) \<and> lk_rep demo_env l' demo_g3)"
proof -
  have "g_put_block demo_env (lnkScheme demo4) (demo_proto 7 9 1 bt16) peer1 demo_g4 = Err ErrParentNotFound"
    by (simp add: g_put_block_def)
  moreover have "g_put_block demo_env (lnkScheme demo2) (demo_proto 4 2 4 bt8) peer2 demo_g2 = Ok demo_g3"
    by (simp add: demo2_rep(2) g_put_block_def Let_def demo_g3_def)
  ultimately show ?thesis
    using PutBlock_contract [OF demo_env_ok demo_env_live demo4_rep, of peer1 "demo_proto 7 9 1 bt16"]
      PutBlock_contract [OF demo_env_ok demo_env_live demo2_rep(1), of peer2 "demo_proto 4 2 4 bt8"]
    by (simp add: room_def)
qed

text \<open>C6: PutMicroBlock, for a reference other than the genesis block, refines its specification:
  a known block only moves the leash, an unknown reference fails with ErrRefNotFound, any other
  micro-block becomes a block at the height of the referenced one, on the same parent, with the
  same score, and takes over its head.\<close>

theorem PutMicroBlock_contract:
  assumes "env_ok E" and "env_live E" and "lk_rep E l g" and "plain a" and "room g"
    and "Reference mb \<noteq> lnkGenesis l"
  shows "case g_put_micro E mb a g of
      Ok g' \<Rightarrow> \<exists>l'. PutMicroBlock E mb a l = (l', Ok ()) \<and> lk_rep E l' g'
    | Err e \<Rightarrow> PutMicroBlock E mb a l = (l, Err e)
    | Panic \<Rightarrow> False"
  by (rule PutMicroBlock_refines [OF assms])

theorem PutMicroBlock_contract_witness:
  "\<exists>l'. PutMicroBlock demo_env demo_micro peer1 demo3 = (l', Ok ()) \<and> lk_rep demo_env l' demo_g4"
proof -
  have "g_put_micro demo_env demo_micro peer1 demo_g3 = Ok demo_g4"
    by (simp add: g_put_micro_def Let_def demo_g4_def)
  moreover have "lnkGenesis demo3 = 1" using demo3_rep(1) by (simp add: lk_rep_def)
  ultimately show ?thesis
    using PutMicroBlock_contract [OF demo_env_ok demo_env_live demo3_rep(1), of peer1 demo_micro]
    by (simp add: room_def)
qed

section \<open>The last common block\<close>

text \<open>C7: For a leashed peer LCB returns the last common ancestor, in the tree, of the peer's
  block and of a leashed block with the best score, ties going to the one with more peers,
  whatever order the runtime ranges over the map in.\<close>

theorem LCB_last_common_block:
  assumes "env_ok E" and "env_live E" and "lk_rep E l g" and "times_ok g"
    and "y \<in> nodes g" and "gLeash g a = Some (gId g y)" and "a \<noteq> all_ones"
    and "\<And>x. x \<in> nodes g \<Longrightarrow> peers_on g [] (gId g x) \<noteq> {} \<Longrightarrow> near g x y"
  shows "\<exists>x \<in> nodes g. best_leash g [] (gId g x) \<and> is_lca g (common_ancestor g x y) x y \<and>
    LCB E l a = Ok (gId g (common_ancestor g x y))"
  using LCB_result [OF assms] common_ancestor_is_lca [OF lk_repD(3) [OF assms(3)] _ assms(5)] by blast

theorem LCB_last_common_block_witness: "LCB demo_env demo4 peer2 = Ok 2"
proof -
  have "\<exists>x \<in> nodes demo_g4. best_leash demo_g4 [] (gId demo_g4 x) \<and>
      is_lca demo_g4 (common_ancestor demo_g4 x 4) x 4 \<and>
      LCB demo_env demo4 peer2 = Ok (gId demo_g4 (common_ancestor demo_g4 x 4))"
    by (rule LCB_last_common_block [OF demo_env_ok demo_env_live demo4_rep demo_times])
      (simp, simp, simp, rule demo_near, simp_all)
  then obtain x where x: "x \<in> nodes demo_g4" "best_leash demo_g4 [] (gId demo_g4 x)"
    "LCB demo_env demo4 peer2 = Ok (gId demo_g4 (common_ancestor demo_g4 x 4))" by blast
  have "gId demo_g4 x = 4 \<or> gId demo_g4 x = 5" using x(2) by (simp only: best_leash_def demo_peers_on)
  moreover have "gId demo_g4 x \<noteq> 4"
  proof
    assume "gId demo_g4 x = 4"
    with x(2) have "score_of demo_g4 5 \<le> score_of demo_g4 4"
      unfolding best_leash_def demo_peers_on(3) by fastforce
    then show False by simp
  qed
  ultimately have "x = 5" using x(1) by (auto split: if_splits)
  with x(3) show ?thesis by simp
qed

text \<open>C8: The search of storage.lca with the ancestors at distances 1, 2, 4, ... returns exactly
  the last common ancestor of two known blocks, or panics; it panics exactly when an index runs
  past the end of a link, which the height h of the lower block and the height of the ancestor
  decide.\<close>

theorem lca_exact:
  assumes "env_ok E" and "leveldb_live (ldb E)" and "repr E db g" and "x \<in> nodes g" and "y \<in> nodes g"
    and "a = common_ancestor g x y" and "h = min (ht g x) (ht g y)"
  shows "is_lca g a x y \<and> st_lca E db (gId g x) (gId g y) =
    (if h = ht g a \<or> lca_safe (ceillog2 h) h (h - ht g a - 1) then Ok (gId g a) else Panic)"
  using lca_outcome [OF assms(1-5)] common_ancestor_is_lca [OF reprD(7) [OF assms(3)] assms(4,5)]
  by (simp only: assms(6,7))

theorem lca_exact_witness: "st_lca demo_env (lnkSt demo4) 5 4 = Ok 2"
proof -
  have "lca_safe (ceillog2 3) 3 0" by code_simp
  then show ?thesis
    using lca_exact [OF demo_env_ok env_liveD(1) [OF demo_env_live] lk_repD(1) [OF demo4_rep], of 5 4]
    by simp
qed

section \<open>Forks\<close>

text \<open>C9: The list of forks has one entry for each block a looked-up peer is leashed to, in the
  order of scores and of numbers of peers, the first one marked as the longest; every entry
  holds the block's data, exactly the peers on it, the last common block with the longest fork
  and the difference of the heights.\<close>

theorem Forks_list:
  assumes "env_ok E" and "env_live E" and "lk_rep E l g" and "times_ok g" and "peers_on g P j \<noteq> {}"
    and "\<And>x y. x \<in> nodes g \<Longrightarrow> y \<in> nodes g \<Longrightarrow> peers_on g P (gId g x) \<noteq> {} \<Longrightarrow>
      peers_on g P (gId g y) \<noteq> {} \<Longrightarrow> near g x y"
  shows "\<exists>fs k. Forks E l P = Ok fs \<and> best_leash g P k \<and> HeadBlock (hd fs) = k \<and>
    distinct (map HeadBlock fs) \<and> set (map HeadBlock fs) = {i. peers_on g P i \<noteq> {}} \<and>
    sorted_wrt (\<lambda>a b. \<not> fork_less b a) fs \<and> map Longest fs = True # replicate (length fs - 1) False \<and>
    (\<forall>f \<in> set fs. describes g P k f)"
  by (rule Forks_result [OF assms])

theorem Forks_list_witness:
  "\<exists>fs. Forks demo_env demo4 [] = Ok fs \<and> set (map HeadBlock fs) = {4, 5} \<and>
    (\<forall>f \<in> set fs. distinct (ForkPeers f))"
proof -
  have "peers_on demo_g4 [] 4 \<noteq> {}" by simp
  from Forks_list [OF demo_env_ok demo_env_live demo4_rep demo_times this demo_near]
  obtain fs k where "Forks demo_env demo4 [] = Ok fs"
    "set (map HeadBlock fs) = {i. peers_on demo_g4 [] i \<noteq> {}}" "\<forall>f \<in> set fs. describes demo_g4 [] k f"
    by blast
  moreover have "{i. peers_on demo_g4 [] i \<noteq> {}} = {4, 5}" unfolding demo_peers_on(3) by blast
  ultimately show ?thesis by (auto simp: describes_def Let_def)
qed

text \<open>For a leashed peer Fork returns the fork of the peer's block, with the data it has in the list,
  marked as the longest exactly when the peer is on the longest fork.\<close>

theorem Fork_of_leashed_peer:
  assumes "env_ok E" and "env_live E" and "lk_rep E l g" and "times_ok g"
    and "gLeash g a = Some i" and "a \<noteq> all_ones"
    and "\<And>x. x \<in> nodes g \<Longrightarrow> peers_on g [] (gId g x) \<noteq> {} \<Longrightarrow> near g x (node_of g i)"
  shows "\<exists>f k. ForkOf E l a = Ok f \<and> best_leash g [] k \<and> fork_of_peer g k i f"
  by (rule Fork_result [OF assms])

theorem Fork_of_leashed_peer_witness:
  "\<exists>f. ForkOf demo_env demo4 peer2 = Ok f \<and> HeadBlock f = 4 \<and> set (ForkPeers f) = {peer2}"
proof -
  have "\<exists>f k. ForkOf demo_env demo4 peer2 = Ok f \<and> best_leash demo_g4 [] k \<and> fork_of_peer demo_g4 k 4 f"
    by (rule Fork_of_leashed_peer [OF demo_env_ok demo_env_live demo4_rep demo_times])
      (simp, simp, rule demo_near, simp_all)
  then show ?thesis by (auto simp: fork_of_peer_def describes_def Let_def)
qed

text \<open>Without a leash of any looked-up peer the list of forks panics: the code takes the first
  element of an empty slice. The statistics of a new store panic for the same reason.\<close>

theorem Forks_panic_without_leash:
  assumes "env_ok E" and "env_live E" and "lk_rep E l g" and "\<And>i. peers_on g P i = {}"
  shows "Forks E l P = Panic \<and> (P = [] \<longrightarrow> StatsOf E l = Panic)"
  using Forks_no_leash [OF assms] by (auto simp: StatsOf_def Forks_def)

theorem Forks_panic_without_leash_witness:
  "Forks demo_env demo0 [] = Panic \<and> StatsOf demo_env demo0 = Panic"
proof -
  have "peers_on demo_g0 [] i = {}" for i by (simp add: peers_on_def)
  from Forks_panic_without_leash [OF demo_env_ok demo_env_live demo0_rep(1) this] show ?thesis by simp
qed

section \<open>Lookups\<close>

text \<open>A block that PutBlock accepted is known afterwards and the peer is leashed to it; the
  leash of every other peer stays, and every block known before is still known.\<close>

theorem PutBlock_then_read:
  assumes "env_ok E" and "env_live E" and "lk_reach E l" and "has_room E l" and "plain a"
    and "PutBlock E blk a l = (l', Ok ())"
  shows "HasBlock E l' (BlockID blk) = Ok True \<and> LeashOf E l' a = Ok (BlockID blk) \<and>
    (\<forall>b. plain b \<and> b \<noteq> a \<longrightarrow> LeashOf E l' b = LeashOf E l b) \<and>
    (\<forall>i. HasBlock E l i = Ok True \<longrightarrow> HasBlock E l' i = Ok True)"
proof -
  from lk_reach_rep [OF assms(3,1,2)] obtain g where g: "lk_rep E l g" ..
  have room: "room g" using has_room_iff [OF g] assms(4) by blast
  from PutBlock_refines [OF assms(1,2) g assms(5) room, of blk] assms(6) obtain g' where
    spec: "g_put_block E (lnkScheme l) blk a g = Ok g'" and g': "lk_rep E l' g'"
    by (auto split: res.splits)
  note view = g_put_block_view [OF spec lk_repD(3) [OF g]]
  note h = HasBlock_rep [OF assms(2)] and ls = LeashOf_rep [OF assms(1,2)]
  have "leash_of g' a = BlockID blk" using view(2) by (simp add: leash_of_def)
  moreover have "leash_of g' b = leash_of g b" if "b \<noteq> a" for b
    using view(2) that by (simp add: leash_of_def view(4) [simplified] split: option.split)
  ultimately show ?thesis
    using view(1,3) assms(5) by (simp add: h [OF g] h [OF g'] ls [OF g] ls [OF g'])
qed

theorem PutBlock_then_read_witness:
  "HasBlock demo_env (fst (PutBlock demo_env (demo_proto 6 5 9 bt16) peer3 demo4)) 6 = Ok True"
proof -
  have room: "has_room demo_env demo4" using has_room_iff [OF demo4_rep] demo_room by blast
  have "node_of demo_g4 5 = 5" by simp
  then have "is_ok (g_put_block demo_env (lnkScheme demo4) (demo_proto 6 5 9 bt16) peer3 demo_g4)"
    by (auto simp: g_put_block_def Let_def newBlock_def calculateCumulativeScore_def
        calculateScore_def MaxInt64_def demo_env_def)
  then obtain l' where "PutBlock demo_env (demo_proto 6 5 9 bt16) peer3 demo4 = (l', Ok ())"
    using PutBlock_refines [OF demo_env_ok demo_env_live demo4_rep demo_peers(3) demo_room, of "demo_proto 6 5 9 bt16"]
    by (auto simp: is_ok_iff)
  from PutBlock_then_read [OF demo_env_ok demo_env_live demo4_reach room demo_peers(3) this] this
  show ?thesis by simp
qed

text \<open>C11: Heads lists, numbered from 1, exactly the tips of the tree: the blocks no other block
  was built on, each once.\<close>

theorem Heads_are_tips:
  assumes "env_ok E" and "env_live E" and "lk_rep E l g" and "room g"
  shows "\<exists>hs. Heads E l = Ok hs \<and> distinct (map HeadBlockID hs) \<and>
    set (map HeadBlockID hs) = gId g ` tips g \<and>
    map HeadID hs = map (\<lambda>h. word_of_nat (Suc h)) [0..<length hs]"
proof -
  note tip = Heads_tips [OF assms(3)]
  let ?hs = "map (head_of g) [0..<length (gHeads g)]"
  have "set (map HeadBlockID ?hs) = gId g ` tips g" unfolding tip(1) set_map tip(2) ..
  moreover have "distinct (map HeadBlockID ?hs)" unfolding tip(1) by (rule tip(3))
  moreover have "map HeadID ?hs = map (\<lambda>h. word_of_nat (Suc h)) [0..<length ?hs]" by simp
  ultimately show ?thesis using Heads_rep [OF assms] by blast
qed

theorem Heads_are_tips_witness:
  "\<exists>hs. Heads demo_env demo4 = Ok hs \<and> distinct (map HeadBlockID hs)"
  using Heads_are_tips [OF demo_env_ok demo_env_live demo4_rep demo_room] by blast

text \<open>LastIDs returns the block itself and then its ancestors, parent after parent, newest
  first: as many as asked for, or all down to the genesis block.\<close>

theorem LastIDs_ancestors:
  assumes "env_ok E" and "env_live E" and "lk_rep E l g" and "n \<in> nodes g" and "0 \<le> cnt"
  shows "\<exists>ids. LastIDs E l (gId g n) cnt = Ok ids \<and> length ids = min (nat cnt) (ht g n) \<and>
    (\<forall>j < length ids. ids ! j = gId g (anc g j n)) \<and>
    (ht g n \<le> nat cnt \<longrightarrow> last ids = lnkGenesis l)"
proof -
  note wf = lk_repD(3) [OF assms(3)]
  have k: "known g (gId g n)" using assms(4) by (simp add: known_def)
  let ?ids = "map (gId g) (chain g (nat cnt) n)"
  have "LastIDs E l (gId g n) cnt = Ok ?ids"
    using LastIDs_rep [OF assms(1-3) k assms(5)] node_of_gId [OF wf assms(4)] by simp
  moreover have len: "length ?ids = min (nat cnt) (ht g n)" using length_chain [OF wf assms(4)] by simp
  moreover have nth: "\<forall>j < length ?ids. ?ids ! j = gId g (anc g j n)"
    using nth_chain [OF wf assms(4)] len by simp
  moreover have "last ?ids = lnkGenesis l" if "ht g n \<le> nat cnt"
  proof -
    have l: "length ?ids = ht g n" using len that by simp
    then have "?ids \<noteq> []" using ht_pos [OF wf assms(4)] by auto
    then have "last ?ids = ?ids ! (ht g n - 1)" using l by (simp add: last_conv_nth)
    also have "\<dots> = gId g (anc g (ht g n - 1) n)" using nth l ht_pos [OF wf assms(4)] by simp
    also have "\<dots> = lnkGenesis l" by (simp only: anc_genesis [OF wf assms(4)] lk_repD(2) [OF assms(3)])
    finally show ?thesis .
  qed
  ultimately show ?thesis by blast
qed

theorem LastIDs_ancestors_witness:
  "\<exists>ids. LastIDs demo_env demo4 5 100 = Ok ids \<and> length ids = 3 \<and> last ids = lnkGenesis demo4"
  using LastIDs_ancestors [OF demo_env_ok demo_env_live demo4_rep, of 5 100] by auto



end
