(* ===== verification/History.thy ===== *)
theory History
  imports LinkageReads
begin

text \<open>
  The interface \<open>chains.HistoryProvider\<close> (\<open>chains/linkage.go\<close>), through which package
  \<open>loading\<close> uses the block graph: the methods as a record of functions on a state \<open>'h\<close>, the
  promises the peer loader relies on as the locale \<open>history_provider\<close>, and its
  interpretation on the \<open>Linkage\<close>.
\<close>

section \<open>The interface\<close>

record ('h, 'id) history =
  hpLeash :: "addr \<Rightarrow> 'h \<Rightarrow> 'id res"
  hpMoveLeash :: "'id \<Rightarrow> addr \<Rightarrow> ('h, unit) action"
  hpLCB :: "addr \<Rightarrow> 'h \<Rightarrow> 'id res"
  hpHasBlock :: "'id \<Rightarrow> 'h \<Rightarrow> bool res"
  hpLastIDs :: "'id \<Rightarrow> int \<Rightarrow> 'h \<Rightarrow> 'id list res"
  hpPutBlock :: "'id proto_block \<Rightarrow> addr \<Rightarrow> ('h, unit) action"

text \<open>
  The contract: \<open>ok\<close> is the invariant of the provider, \<open>capacity\<close> the number of blocks it
  still has room for, \<open>valid\<close> says which peer addresses it can keep a leash for.
\<close>

locale history_provider =
  fixes hp :: "('h, 'id) history"
    and ok :: "'h \<Rightarrow> bool"
    and capacity :: "'h \<Rightarrow> nat"
    and valid :: "addr \<Rightarrow> bool"
  assumes leash_known: "ok s \<Longrightarrow> valid a \<Longrightarrow> \<exists>i. hpLeash hp a s = Ok i \<and> hpHasBlock hp i s = Ok True"
    and has_total: "ok s \<Longrightarrow> \<exists>b. hpHasBlock hp i s = Ok b"
    and last_ids: "ok s \<Longrightarrow> hpHasBlock hp i s = Ok True \<Longrightarrow> 0 < n \<Longrightarrow>
      \<exists>ids. hpLastIDs hp i n s = Ok (i # ids) \<and> length (i # ids) \<le> nat n \<and>
        (\<forall>j \<in> set ids. hpHasBlock hp j s = Ok True)"
    and move: "ok s \<Longrightarrow> valid a \<Longrightarrow> hpHasBlock hp i s = Ok True \<Longrightarrow>
      \<exists>s'. hpMoveLeash hp i a s = (s', Ok ()) \<and> ok s' \<and> capacity s' = capacity s \<and>
        hpLeash hp a s' = Ok i \<and> (\<forall>b. valid b \<and> b \<noteq> a \<longrightarrow> hpLeash hp b s' = hpLeash hp b s) \<and>
        (\<forall>j. hpHasBlock hp j s' = hpHasBlock hp j s)"
    and put_ok: "ok s \<Longrightarrow> valid a \<Longrightarrow> 0 < capacity s \<Longrightarrow> hpPutBlock hp b a s = (s', r) \<Longrightarrow>
      ok s' \<and> capacity s \<le> Suc (capacity s')"
    and put_Ok: "ok s \<Longrightarrow> valid a \<Longrightarrow> 0 < capacity s \<Longrightarrow> hpPutBlock hp b a s = (s', Ok ()) \<Longrightarrow>
      hpHasBlock hp (BlockID b) s' = Ok True \<and> hpLeash hp a s' = Ok (BlockID b) \<and>
      (\<forall>c. valid c \<and> c \<noteq> a \<longrightarrow> hpLeash hp c s' = hpLeash hp c s)"
    and put_keeps: "ok s \<Longrightarrow> valid a \<Longrightarrow> 0 < capacity s \<Longrightarrow> hpPutBlock hp b a s = (s', r) \<Longrightarrow>
      hpHasBlock hp i s = Ok True \<Longrightarrow> hpHasBlock hp i s' = Ok True"
    and put_error: "ok s \<Longrightarrow> valid a \<Longrightarrow> 0 < capacity s \<Longrightarrow> hpPutBlock hp b a s = (s', r) \<Longrightarrow>
      r \<noteq> Ok () \<Longrightarrow> s' = s"

text \<open>
  Putting a list of blocks one after another, as long as no call fails, and whether a block is
  known.
\<close>

fun put_all :: "('h, 'id) history \<Rightarrow> 'id proto_block list \<Rightarrow> addr \<Rightarrow> ('h, unit) action" where
  "put_all hp [] a = return_act ()"
| "put_all hp (b # bs) a = bind_act (hpPutBlock hp b a) (\<lambda>_. put_all hp bs a)"

definition hp_has :: "('h, 'id) history \<Rightarrow> 'h \<Rightarrow> 'id \<Rightarrow> bool" where
  "hp_has hp s i \<longleftrightarrow> hpHasBlock hp i s = Ok True"

context history_provider
begin

lemma put_all_ok:
  "ok s \<Longrightarrow> valid a \<Longrightarrow> length bs \<le> capacity s \<Longrightarrow> put_all hp bs a s = (s', r) \<Longrightarrow>
    ok s' \<and> capacity s \<le> capacity s' + length bs \<and>
    (\<forall>i. hpHasBlock hp i s = Ok True \<longrightarrow> hpHasBlock hp i s' = Ok True)"
proof (induction bs arbitrary: s)
  case Nil
  then show ?case by (simp add: return_act_def)
next
  case (Cons b bs)
  obtain s1 r1 where p: "hpPutBlock hp b a s = (s1, r1)" by (cases "hpPutBlock hp b a s")
  have cap: "0 < capacity s" using Cons.prems(3) by simp
  note o = put_ok [OF Cons.prems(1,2) cap p] and kp = put_keeps [OF Cons.prems(1,2) cap p]
  show ?case
  proof (cases r1)
    case (Ok u)
    then have "put_all hp bs a s1 = (s', r)" using Cons.prems(4) p by (simp add: bind_act_def)
    moreover have "length bs \<le> capacity s1" using Cons.prems(3) o by simp
    ultimately show ?thesis using Cons.IH [of s1] Cons.prems(2) o kp by fastforce
  qed (use Cons.prems(4) p o kp in \<open>auto simp: bind_act_def\<close>)
qed

lemma put_all_Ok:
  "ok s \<Longrightarrow> valid a \<Longrightarrow> length bs \<le> capacity s \<Longrightarrow> put_all hp bs a s = (s', Ok ()) \<Longrightarrow> bs \<noteq> [] \<Longrightarrow>
    hpLeash hp a s' = Ok (BlockID (last bs)) \<and>
    (\<forall>b \<in> set bs. hpHasBlock hp (BlockID b) s' = Ok True)"
proof (induction bs arbitrary: s)
  case (Cons b bs)
  have cap: "0 < capacity s" using Cons.prems(3) by simp
  obtain s1 where p: "hpPutBlock hp b a s = (s1, Ok ())" and rest: "put_all hp bs a s1 = (s', Ok ())"
    using Cons.prems(4) by (auto simp: bind_act_def split: prod.splits res.splits)
  note o = put_ok [OF Cons.prems(1,2) cap p] and P = put_Ok [OF Cons.prems(1,2) cap p]
  have len: "length bs \<le> capacity s1" using Cons.prems(3) o by simp
  show ?case
  proof (cases "bs = []")
    case True
    with rest have "s' = s1" by (simp add: return_act_def)
    with True P show ?thesis by simp
  next
    case False
    from Cons.IH [OF _ Cons.prems(2) len rest False] o
    have "hpLeash hp a s' = Ok (BlockID (last bs)) \<and> (\<forall>b \<in> set bs. hpHasBlock hp (BlockID b) s' = Ok True)"
      by blast
    moreover have "hpHasBlock hp (BlockID b) s' = Ok True"
      using put_all_ok [OF _ Cons.prems(2) len rest] o P by blast
    ultimately show ?thesis using False by simp
  qed
qed simp

end

section \<open>The Linkage provides it\<close>

text \<open>
  The state is the pair of the third-party functions, which never change, and the \<open>Linkage\<close>.
\<close>

definition lift_lk ::
  "(('db, 'id) env \<Rightarrow> (('db, 'id) linkage, 'a) action) \<Rightarrow> (('db, 'id) env \<times> ('db, 'id) linkage, 'a) action" where
  "lift_lk f s = (case f (fst s) (snd s) of (l', r) \<Rightarrow> ((fst s, l'), r))"

definition linkage_history :: "(('db, 'id) env \<times> ('db, 'id) linkage, 'id) history" where
  "linkage_history =
     \<lparr>hpLeash = (\<lambda>a (E, l). LeashOf E l a),
      hpMoveLeash = (\<lambda>i a. lift_lk (\<lambda>E. MoveLeash E i a)),
      hpLCB = (\<lambda>a (E, l). LCB E l a),
      hpHasBlock = (\<lambda>i (E, l). HasBlock E l i),
      hpLastIDs = (\<lambda>i n (E, l). LastIDs E l i n),
      hpPutBlock = (\<lambda>b a. lift_lk (\<lambda>E. PutBlock E b a))\<rparr>"

definition lk_ok :: "('db, 'id) env \<times> ('db, 'id) linkage \<Rightarrow> bool" where
  "lk_ok s \<longleftrightarrow> env_ok (fst s) \<and> env_live (fst s) \<and> (\<exists>g. lk_rep (fst s) (snd s) g)"

text \<open>How many blocks may still be put: see \<^term>\<open>has_room\<close>.\<close>

definition lk_capacity :: "('db, 'id) env \<times> ('db, 'id) linkage \<Rightarrow> nat" where
  "lk_capacity s =
     (case getCounter (fst s) (lnkSt (snd s)) blocksCounter of
        Ok w \<Rightarrow> 2 ^ 32 - 1 - unat w
      | _ \<Rightarrow> 0)"

lemma lk_capacity_rep: "lk_rep E l g \<Longrightarrow> lk_capacity (E, l) = 2 ^ 32 - 1 - gSize g"
proof -
  assume R: "lk_rep E l g"
  have "unat (word_of_nat (gSize g) :: u64) = gSize g"
    using rep_size [OF lk_repD(1) [OF R]] by (simp add: unat_of_nat)
  then show ?thesis
    using rep_getCounter [OF lk_repD(1) [OF R]] by (simp add: lk_capacity_def)
qed

lemma g_put_block_size:
  assumes "g_put_block E scheme blk a g = Ok g'"
  shows "gSize g' \<le> Suc (gSize g)"
  using assms by (auto simp: g_put_block_def Let_def bind_res_eq_Ok split: if_splits)

lemma chain_hd: "0 < k \<Longrightarrow> \<exists>ns. chain g k n = n # ns"
  by (cases k) auto

text \<open>One call of \<open>PutBlock\<close>, told in the terms of the contract.\<close>

definition put_effect ::
  "('db, 'id) env \<Rightarrow> ('db, 'id) linkage \<Rightarrow> ('db, 'id) linkage \<Rightarrow> addr \<Rightarrow> 'id \<Rightarrow> bool" where
  "put_effect E l l' a i \<longleftrightarrow>
     (\<exists>g g'. lk_rep E l g \<and> lk_rep E l' g' \<and> gSize g' \<le> Suc (gSize g) \<and> known g' i \<and>
        gLeash g' = (gLeash g)(a \<mapsto> i) \<and> (\<forall>j. known g j \<longrightarrow> known g' j) \<and> gId g' 1 = gId g 1)"

lemma PutBlock_effect:
  assumes ok: "lk_ok (E, l)" and a: "plain a" and cap: "0 < lk_capacity (E, l)"
    and put: "hpPutBlock linkage_history b a (E, l) = (s', r)"
  shows "(r \<noteq> Ok () \<and> s' = (E, l)) \<or> (r = Ok () \<and> (\<exists>l'. s' = (E, l') \<and> put_effect E l l' a (BlockID b)))"
proof -
  from put obtain l' where l': "PutBlock E b a l = (l', r)" "s' = (E, l')"
    by (auto simp: linkage_history_def lift_lk_def split: prod.splits)
  from ok obtain g where E: "env_ok E" "env_live E" and g: "lk_rep E l g" by (auto simp: lk_ok_def)
  have "room g" using cap lk_capacity_rep [OF g] by (simp add: room_def)
  note ref = PutBlock_refines [OF E g a this, of b]
  show ?thesis
  proof (cases "g_put_block E (lnkScheme l) b a g")
    case (Ok g')
    with ref l' have r: "r = Ok ()" and g': "lk_rep E l' g'" by auto
    note view = g_put_block_view [OF Ok lk_repD(3) [OF g]]
    have "put_effect E l l' a (BlockID b)"
      unfolding put_effect_def using g g' view g_put_block_size [OF Ok] by blast
    with r l'(2) show ?thesis by blast
  qed (use ref l' in auto)
qed

lemma put_effect_reads:
  assumes ok: "lk_ok (E, l)" and eff: "put_effect E l l' a i" and a: "plain a"
  shows "lk_ok (E, l')" "lk_capacity (E, l) \<le> Suc (lk_capacity (E, l'))" "HasBlock E l' i = Ok True"
    "LeashOf E l' a = Ok i" "plain c \<Longrightarrow> c \<noteq> a \<Longrightarrow> LeashOf E l' c = LeashOf E l c"
    "HasBlock E l j = Ok True \<Longrightarrow> HasBlock E l' j = Ok True"
proof -
  from eff obtain g g' where g: "lk_rep E l g" and g': "lk_rep E l' g'" and view: "gSize g' \<le> Suc (gSize g)"
    "known g' i" "gLeash g' = (gLeash g)(a \<mapsto> i)" "\<forall>j. known g j \<longrightarrow> known g' j" "gId g' 1 = gId g 1"
    unfolding put_effect_def by blast
  from ok have E: "env_ok E" "env_live E" by (simp_all add: lk_ok_def)
  show "lk_ok (E, l')" using E g' by (auto simp: lk_ok_def)
  show "lk_capacity (E, l) \<le> Suc (lk_capacity (E, l'))"
    using view(1) by (simp add: lk_capacity_rep [OF g] lk_capacity_rep [OF g'])
  note has = HasBlock_rep [OF E(2) g] HasBlock_rep [OF E(2) g']
  note leash = LeashOf_rep [OF E g] LeashOf_rep [OF E g']
  show "HasBlock E l' i = Ok True" "HasBlock E l j = Ok True \<Longrightarrow> HasBlock E l' j = Ok True"
    using view(2,4) by (simp_all add: has)
  show "LeashOf E l' a = Ok i" using a view(3) by (simp add: leash leash_of_def)
  show "plain c \<Longrightarrow> c \<noteq> a \<Longrightarrow> LeashOf E l' c = LeashOf E l c"
    by (simp only: leash) (simp add: leash_of_def view(3) view(5) [simplified] split: option.split)
qed

lemma MoveLeash_effect:
  assumes ok: "lk_ok (E, l)" and a: "plain a" and i: "HasBlock E l i = Ok True"
  shows "\<exists>l'. MoveLeash E i a l = (l', Ok ()) \<and> lk_ok (E, l') \<and> lk_capacity (E, l') = lk_capacity (E, l) \<and>
    LeashOf E l' a = Ok i \<and> (\<forall>b. plain b \<and> b \<noteq> a \<longrightarrow> LeashOf E l' b = LeashOf E l b) \<and>
    (\<forall>j. HasBlock E l' j = HasBlock E l j)"
proof -
  from ok obtain g where E: "env_ok E" "env_live E" and g: "lk_rep E l g" by (auto simp: lk_ok_def)
  have "known g i" using i by (simp add: HasBlock_rep [OF E(2) g])
  from write_leash_refines [OF E g a this] obtain l' where
    w: "MoveLeash E i a l = (l', Ok ())" and g': "lk_rep E l' (g_leash a i g)"
    unfolding MoveLeash_def by blast
  have "leash_of (g_leash a i g) a = i" "\<And>b. b \<noteq> a \<Longrightarrow> leash_of (g_leash a i g) b = leash_of g b"
    by (simp_all add: leash_of_def split: option.split)
  moreover have "lk_ok (E, l')" using E g' by (auto simp: lk_ok_def)
  ultimately show ?thesis
    using w a by (simp add: HasBlock_rep [OF E(2) g] HasBlock_rep [OF E(2) g'] LeashOf_rep [OF E g]
        LeashOf_rep [OF E g'] lk_capacity_rep [OF g] lk_capacity_rep [OF g'])
qed

lemma LastIDs_effect:
  assumes ok: "lk_ok (E, l)" and i: "HasBlock E l i = Ok True" and n: "0 < n"
  shows "\<exists>ids. LastIDs E l i n = Ok (i # ids) \<and> length (i # ids) \<le> nat n \<and>
    (\<forall>j \<in> set ids. HasBlock E l j = Ok True)"
proof -
  from ok obtain g where E: "env_ok E" "env_live E" and g: "lk_rep E l g" by (auto simp: lk_ok_def)
  note has = HasBlock_rep [OF E(2) g]
  have k: "known g i" using i by (simp add: has)
  note nd = node_of [OF k]
  obtain ns where c: "chain g (nat n) (node_of g i) = node_of g i # ns"
    using chain_hd [of "nat n"] n by auto
  have "known g (gId g m)" if "m \<in> set ns" for m
    using chain_nodes [OF lk_repD(3) [OF g] conjunct1 [OF nd], of m "nat n"] that c
    by (auto simp: known_def)
  moreover have "length (node_of g i # ns) \<le> nat n"
    using length_chain [OF lk_repD(3) [OF g] conjunct1 [OF nd], of "nat n"] c by simp
  ultimately show ?thesis using LastIDs_rep [OF E g k, of n] n c nd by (simp add: has)
qed

lemma linkage_history_simps:
  "hpLeash linkage_history a (E, l) = LeashOf E l a"
  "hpHasBlock linkage_history i (E, l) = HasBlock E l i"
  "hpLCB linkage_history a (E, l) = LCB E l a"
  "hpLastIDs linkage_history i n (E, l) = LastIDs E l i n"
  "hpMoveLeash linkage_history i a (E, l) = (case MoveLeash E i a l of (l', r) \<Rightarrow> ((E, l'), r))"
  by (simp_all add: linkage_history_def lift_lk_def)

interpretation lk_history: history_provider linkage_history lk_ok lk_capacity plain
proof (unfold_locales, goal_cases)
  case (1 s a)
  obtain E l where s: "s = (E, l)" by (cases s)
  from 1(1) s obtain g where E: "env_ok E" "env_live E" and g: "lk_rep E l g" by (auto simp: lk_ok_def)
  show ?case
    using leash_of_known [OF g] by (simp add: s linkage_history_simps HasBlock_rep [OF E(2) g] LeashOf_rep [OF E g 1(2)])
next
  case (2 s i)
  obtain E l where s: "s = (E, l)" by (cases s)
  from 2 s obtain g where E: "env_ok E" "env_live E" and g: "lk_rep E l g" by (auto simp: lk_ok_def)
  show ?case by (simp add: s linkage_history_simps HasBlock_rep [OF E(2) g])
next
  case (3 s i n)
  then show ?case using LastIDs_effect [of _ _ i n] by (cases s) (simp add: linkage_history_simps)
next
  case (4 s a i)
  obtain E l where s: "s = (E, l)" by (cases s)
  from MoveLeash_effect [of E l a i] 4 obtain l' where "MoveLeash E i a l = (l', Ok ())" "lk_ok (E, l')"
    "lk_capacity (E, l') = lk_capacity (E, l)" "LeashOf E l' a = Ok i"
    "\<forall>b. plain b \<and> b \<noteq> a \<longrightarrow> LeashOf E l' b = LeashOf E l b" "\<forall>j. HasBlock E l' j = HasBlock E l j"
    by (auto simp: s linkage_history_simps)
  then show ?case by (simp add: s linkage_history_simps)
next
  case (5 s a b s' r)
  obtain E l where s: "s = (E, l)" by (cases s)
  from PutBlock_effect [of E l a b s' r] 5 put_effect_reads(1,2) [of E l _ a "BlockID b"]
  show ?case unfolding s by fastforce
next
  case (6 s a b s')
  obtain E l where s: "s = (E, l)" by (cases s)
  from PutBlock_effect [of E l a b s' "Ok ()"] 6 obtain l' where
    l': "s' = (E, l')" "put_effect E l l' a (BlockID b)" unfolding s by blast
  from put_effect_reads [OF _ l'(2) 6(2)] 6(1) show ?case
    by (simp add: s l'(1) linkage_history_simps)
next
  case (7 s a b s' r i)
  obtain E l where s: "s = (E, l)" by (cases s)
  from PutBlock_effect [of E l a b s' r] 7 put_effect_reads(6) [of E l _ a "BlockID b" i]
  show ?case unfolding s by (fastforce simp: linkage_history_simps)
next
  case (8 s a b s' r)
  obtain E l where s: "s = (E, l)" by (cases s)
  from PutBlock_effect [of E l a b s' r] 8 show ?case unfolding s by blast
qed

end
