(* ===== verification/Queue.thy ===== *)
theory Queue
  imports ChainsEntities
begin

text \<open>
  \<open>loading/queue.go\<close>: the blocks requested from a peer, in the order of their IDs, with the
  ones received so far.
\<close>

section \<open>The queue\<close>

record 'id item =
  requested :: 'id
  received :: "'id proto_block option"

type_synonym 'id queue = "'id item list"

definition newQueue :: "'id list \<Rightarrow> 'id queue" where
  "newQueue ids = map (\<lambda>i. \<lparr>requested = i, received = None\<rparr>) ids"

text \<open>The loop of \<open>put\<close>, which returns at the first item with the ID of the block.\<close>

fun put_first :: "'id proto_block \<Rightarrow> 'id queue \<Rightarrow> 'id queue" where
  "put_first b [] = []"
| "put_first b (p # q) =
     (if requested p = BlockID b then p\<lparr>received := Some b\<rparr> # q else p # put_first b q)"

definition put :: "'id proto_block option \<Rightarrow> 'id queue \<Rightarrow> 'id queue" where
  "put blk q = (case blk of None \<Rightarrow> q | Some b \<Rightarrow> put_first b q)"

text \<open>The test both \<open>ready\<close>, \<open>lastReceived\<close> and \<open>handleFailure\<close> make of an item.\<close>

definition item_ok :: "'id item \<Rightarrow> bool" where
  "item_ok it = (case received it of None \<Rightarrow> False | Some b \<Rightarrow> BlockID b = requested it)"

fun ready :: "'id queue \<Rightarrow> bool" where
  "ready [] = True"
| "ready (it # q) = (if \<not> item_ok it then False else ready q)"

text \<open>Decimal digits: \<open>%d\<close> of \<open>fmt.Sprintf\<close>.\<close>

fun show_nat :: "nat \<Rightarrow> string" where
  "show_nat n =
     (if n < 10 then [char_of (48 + n)] else show_nat (n div 10) @ [char_of (48 + n mod 10)])"

declare show_nat.simps [simp del]

text \<open>\<open>ShortString\<close> of a block ID is a parameter.\<close>

definition rangeString :: "('id \<Rightarrow> string) \<Rightarrow> 'id queue \<Rightarrow> string" where
  "rangeString shortString q =
     (let l = length q in
      if l = 0 then ''[](EMPTY)''
      else
        let blocksCnt = length (filter item_ok q);
            sizeStr = (if blocksCnt = l then ''READY/'' @ show_nat l
                       else show_nat blocksCnt @ ''/'' @ show_nat l)
        in ''['' @ shortString (requested (q ! 0)) @ ''..'' @
           shortString (requested (q ! (length q - 1))) @ ''](''  @ sizeStr @ '')'')"

text \<open>The loop of \<open>lastReceived\<close>: \<open>i\<close> is the index of the first item.\<close>

fun last_index :: "int \<Rightarrow> int \<Rightarrow> 'id queue \<Rightarrow> int" where
  "last_index i l [] = l"
| "last_index i l (it # q) = (if \<not> item_ok it then l else last_index (i + 1) i q)"

definition lastReceived :: "'id queue \<Rightarrow> 'id proto_block option" where
  "lastReceived q =
     (let l = last_index 0 (- 1) q in
      if l \<ge> 0 then received (q ! nat l) else None)"

section \<open>Its invariant\<close>

text \<open>A received block has the ID that was requested.\<close>

definition queue_ok :: "'id queue \<Rightarrow> bool" where
  "queue_ok q \<longleftrightarrow> (\<forall>it \<in> set q. \<forall>b. received it = Some b \<longrightarrow> BlockID b = requested it)"

lemma queue_ok_new [simp]: "queue_ok (newQueue ids)"
  by (auto simp: queue_ok_def newQueue_def)

lemma requested_new [simp]: "map requested (newQueue ids) = ids"
  by (simp add: newQueue_def comp_def)

lemma requested_put_first [simp]: "map requested (put_first b q) = map requested q"
  by (induction q) auto

lemma requested_put [simp]: "map requested (put blk q) = map requested q"
  by (simp add: put_def split: option.split)

lemma requested_puts [simp]: "map requested (fold (\<lambda>b. put (Some b)) bs q) = map requested q"
  by (induction bs arbitrary: q) simp_all

lemma queue_ok_put: "queue_ok q \<Longrightarrow> queue_ok (put blk q)"
proof -
  have "queue_ok q \<Longrightarrow> queue_ok (put_first b q)" for b :: "'a proto_block"
    by (induction q) (auto simp: queue_ok_def)
  then show "queue_ok q \<Longrightarrow> queue_ok (put blk q)" by (simp add: put_def split: option.split)
qed

lemma length_put [simp]: "length (put blk q) = length q"
  by (metis length_map requested_put)

lemma item_ok_iff: "queue_ok q \<Longrightarrow> it \<in> set q \<Longrightarrow> item_ok it \<longleftrightarrow> received it \<noteq> None"
  by (auto simp: item_ok_def queue_ok_def split: option.split)

lemma ready_iff: "ready q \<longleftrightarrow> (\<forall>it \<in> set q. item_ok it)"
  by (induction q) auto

text \<open>The blocks of a ready queue, in the order of the requested IDs.\<close>

definition blocks_of :: "'id queue \<Rightarrow> 'id proto_block list" where
  "blocks_of q = map (\<lambda>it. case received it of Some b \<Rightarrow> b) q"

lemma ready_blocks: "ready q \<Longrightarrow> map BlockID (blocks_of q) = map requested q"
  by (auto simp: ready_iff blocks_of_def item_ok_def split: option.splits)

text \<open>An item holds a block after a put as soon as its ID is the first one equal to the block's.\<close>

lemma received_put_first:
  assumes "distinct (map requested q)"
  shows "map received (put_first b q) =
    map (\<lambda>it. if requested it = BlockID b then Some b else received it) q"
  using assms
proof (induction q)
  case (Cons p q)
  show ?case
  proof (cases "requested p = BlockID b")
    case True
    then have "requested it \<noteq> BlockID b" if "it \<in> set q" for it
      using Cons.prems that by force
    with True show ?thesis by simp
  next
    case False
    with Cons show ?thesis by simp
  qed
qed simp

text \<open>
  Blocks may arrive in any order, be repeated or not be requested at all: once every
  requested one has arrived the queue is ready.
\<close>

lemma ready_after_puts:
  assumes "distinct ids" "set ids \<subseteq> BlockID ` set bs"
  shows "ready (fold (\<lambda>b. put (Some b)) bs (newQueue ids))"
proof -
  let ?q = "\<lambda>bs. fold (\<lambda>b. put (Some b)) bs (newQueue ids)"
  have req: "map requested (?q bs) = ids" for bs
    by simp
  have ok: "queue_ok (?q bs)" for bs
    by (induction bs rule: rev_induct) (simp_all add: queue_ok_put)
  have rec: "\<forall>i < length ids. ids ! i \<in> BlockID ` set bs \<longrightarrow> received (?q bs ! i) \<noteq> None" for bs
  proof (induction bs rule: rev_induct)
    case (snoc b bs)
    have len: "length (?q bs) = length ids" by (metis length_map req)
    have nth: "requested (?q bs ! i) = ids ! i" if "i < length ids" for i
      using that len req by (metis nth_map)
    have e: "map received (?q (bs @ [b])) =
        map (\<lambda>it. if requested it = BlockID b then Some b else received it) (?q bs)"
      using received_put_first [of "?q bs" b] assms(1) req by (simp add: put_def)
    have len': "length (?q (bs @ [b])) = length ids" by (metis length_map req)
    have "received (?q (bs @ [b]) ! i) =
        (if ids ! i = BlockID b then Some b else received (?q bs ! i))" if i: "i < length ids" for i
    proof -
      have "received (?q (bs @ [b]) ! i) = map received (?q (bs @ [b])) ! i"
        using i len' by (simp only: nth_map)
      also have "\<dots> = (if requested (?q bs ! i) = BlockID b then Some b else received (?q bs ! i))"
        using i len by (simp only: e nth_map)
      finally show ?thesis by (simp only: nth [OF i])
    qed
    with snoc show ?case by auto
  qed simp
  have "length (?q bs) = length ids" by (metis length_map req)
  then have "received it \<noteq> None" if it: "it \<in> set (?q bs)" for it
  proof -
    from it obtain i where i: "i < length (?q bs)" "it = ?q bs ! i" unfolding in_set_conv_nth by blast
    with \<open>length (?q bs) = length ids\<close> have "ids ! i \<in> BlockID ` set bs" using assms(2) by auto
    with rec [of bs] i \<open>length (?q bs) = length ids\<close> show ?thesis by simp
  qed
  with ok [of bs] show ?thesis by (simp add: ready_iff item_ok_iff)
qed

text \<open>And it cannot be ready before.\<close>

lemma received_from_puts:
  assumes "it \<in> set (fold (\<lambda>b. put (Some b)) bs q)" "received it = Some b"
  shows "b \<in> set bs \<or> (\<exists>it' \<in> set q. received it' = Some b)"
  using assms
proof (induction bs arbitrary: q)
  case (Cons c bs)
  have "it' \<in> set (put_first c q) \<Longrightarrow> received it' = Some b \<Longrightarrow> b = c \<or> (\<exists>it' \<in> set q. received it' = Some b)" for it'
    by (induction q) (auto split: if_splits)
  with Cons.IH [of "put (Some c) q"] Cons.prems show ?case by (auto simp: put_def)
qed auto

lemma ready_needs_all:
  assumes "ready (fold (\<lambda>b. put (Some b)) bs (newQueue ids))"
  shows "set ids \<subseteq> BlockID ` set bs"
proof
  let ?q = "fold (\<lambda>b. put (Some b)) bs (newQueue ids)"
  have "map requested ?q = ids" by simp
  moreover fix i assume "i \<in> set ids"
  ultimately obtain it where it: "it \<in> set ?q" "requested it = i" by (metis in_set_conv_nth length_map nth_map)
  with assms obtain b where b: "received it = Some b" "BlockID b = i"
    by (auto simp: ready_iff item_ok_def split: option.splits)
  from received_from_puts [OF it(1) b(1)] b(2) show "i \<in> BlockID ` set bs"
    by (auto simp: newQueue_def)
qed

section \<open>The received prefix\<close>

lemma last_index_eq:
  "last_index i l q = (if takeWhile item_ok q = [] then l else i + int (length (takeWhile item_ok q)) - 1)"
  by (induction i l q rule: last_index.induct) auto

lemma lastReceived_eq:
  "lastReceived q =
     (let p = takeWhile item_ok q in if p = [] then None else received (last p))"
proof (cases "takeWhile item_ok q = []")
  case True
  then show ?thesis by (simp add: lastReceived_def last_index_eq)
next
  case False
  let ?p = "takeWhile item_ok q"
  have "q ! (length ?p - 1) = ?p ! (length ?p - 1)"
    using False by (simp add: takeWhile_nth)
  moreover have "nat (0 + int (length ?p) - 1) = length ?p - 1" by simp
  moreover have "0 \<le> 0 + int (length ?p) - 1" using False by (simp add: Suc_le_eq)
  ultimately show ?thesis
    using False by (simp add: lastReceived_def last_index_eq last_conv_nth Let_def)
qed

lemma takeWhile_ready: "ready q \<Longrightarrow> takeWhile item_ok q = q"
  by (simp add: ready_iff)

end
