(* ===== verification/StateMachine.thy ===== *)
theory StateMachine
  imports GoStd
begin

text \<open>
  The state machines of the library \<open>stateless\<close>, as package \<open>loading\<close> uses them: the tables
  the code builds with \<open>Configure\<close> are a record, and the library's \<open>Fire\<close> is a parameter of
  the model. What its documentation says of \<open>Fire\<close> is the relation \<^term>\<open>stateless_ok\<close>:
  triggers fired by actions while a trigger is handled are queued and handled after it (run to
  completion), a permitted transition sets the state and then runs the entry actions, an
  internal transition runs its action in the same state, an ignored trigger does nothing and
  any other trigger is an error.
\<close>

section \<open>Configurations\<close>

datatype 's reaction = Permit 's | InternalTransition | Ignore | Unhandled

record ('s, 't) sm =
  smState :: 's
  smPending :: "'t list"

record ('s, 't, 'z) sm_config =
  sm_reaction :: "'s \<Rightarrow> 't \<Rightarrow> 's reaction"
  sm_entry :: "'s \<Rightarrow> 't \<Rightarrow> (('s, 't, 'z) sm_scheme, unit) action"
  sm_internal :: "'s \<Rightarrow> 't \<Rightarrow> (('s, 't, 'z) sm_scheme, unit) action"

text \<open>\<open>sm.Fire\<close> inside an action: the trigger is queued and the call returns nil.\<close>

definition fire_nested :: "'t \<Rightarrow> (('s, 't, 'z) sm_scheme, unit) action" where
  "fire_nested t w = (w\<lparr>smPending := smPending w @ [t]\<rparr>, Ok ())"

section \<open>The documented behaviour of \<open>Fire\<close>\<close>

definition fire_one ::
  "('s, 't, 'z) sm_config \<Rightarrow> 't \<Rightarrow> (('s, 't, 'z) sm_scheme, unit) action" where
  "fire_one cfg t w =
     (case sm_reaction cfg (smState w) t of
        Permit s \<Rightarrow> sm_entry cfg s t (w\<lparr>smState := s\<rparr>)
      | InternalTransition \<Rightarrow> sm_internal cfg (smState w) t w
      | Ignore \<Rightarrow> (w, Ok ())
      | Unhandled \<Rightarrow> (w, Err ErrUnhandledTrigger))"

text \<open>
  Handling the queued triggers one after another; an error ends it. What becomes of triggers
  that are still queued then is not documented, and nothing is said of that case.
\<close>

inductive completes ::
  "('s, 't, 'z) sm_config \<Rightarrow> ('s, 't, 'z) sm_scheme \<Rightarrow> ('s, 't, 'z) sm_scheme \<times> unit res \<Rightarrow> bool"
  for cfg where
  finished: "smPending w = [] \<Longrightarrow> completes cfg w (w, Ok ())"
| handled: "smPending w = t # ts \<Longrightarrow> fire_one cfg t (w\<lparr>smPending := ts\<rparr>) = (w', Ok ()) \<Longrightarrow>
    completes cfg w' x \<Longrightarrow> completes cfg w x"
| failed: "smPending w = t # ts \<Longrightarrow> fire_one cfg t (w\<lparr>smPending := ts\<rparr>) = (w', Err e) \<Longrightarrow>
    smPending w' = [] \<Longrightarrow> completes cfg w (w', Err e)"
| panicked: "smPending w = t # ts \<Longrightarrow> fire_one cfg t (w\<lparr>smPending := ts\<rparr>) = (w', Panic) \<Longrightarrow>
    smPending w' = [] \<Longrightarrow> completes cfg w (w', Panic)"

inductive_cases completesE: "completes cfg w x"

type_synonym ('s, 't, 'z) fire = "('s, 't, 'z) sm_config \<Rightarrow> 't \<Rightarrow> (('s, 't, 'z) sm_scheme, unit) action"

definition stateless_ok :: "('s, 't, 'z) fire \<Rightarrow> bool" where
  "stateless_ok F \<longleftrightarrow>
     (\<forall>cfg t w x. smPending w = [] \<longrightarrow> completes cfg (w\<lparr>smPending := [t]\<rparr>) x \<longrightarrow> F cfg t w = x)"

lemma stateless_fire:
  "stateless_ok F \<Longrightarrow> smPending w = [] \<Longrightarrow> completes cfg (w\<lparr>smPending := [t]\<rparr>) x \<Longrightarrow> F cfg t w = x"
  unfolding stateless_ok_def by blast

text \<open>The two shapes a chain of triggers has in the peer loader.\<close>

lemma sm_collapse [simp]: "smPending w = ts \<Longrightarrow> w\<lparr>smPending := ts\<rparr> = w"
  by simp

lemma completes_one:
  assumes "smPending w = [t]" "fire_one cfg t (w\<lparr>smPending := []\<rparr>) = (w', r)" "smPending w' = []"
  shows "completes cfg w (w', r)"
proof (cases r)
  case (Ok u)
  with assms completes.handled [OF assms(1), of cfg w'] completes.finished [OF assms(3)] show ?thesis by simp
next
  case (Err e)
  with assms completes.failed [OF assms(1)] show ?thesis by simp
next
  case Panic
  with assms completes.panicked [OF assms(1)] show ?thesis by simp
qed

lemma completes_more:
  assumes "smPending w = [t]" "fire_one cfg t (w\<lparr>smPending := []\<rparr>) = (w', Ok ())" "completes cfg w' x"
  shows "completes cfg w x"
  using completes.handled [OF assms(1) _ assms(3)] assms(2) by simp

section \<open>The behaviour is consistent\<close>

text \<open>An interpreter that meets the documentation, so that \<^term>\<open>stateless_ok\<close> can hold.\<close>

partial_function (option) run_fire ::
  "('s, 't, 'z) sm_config \<Rightarrow> ('s, 't, 'z) sm_scheme \<Rightarrow> (('s, 't, 'z) sm_scheme \<times> unit res) option" where
  "run_fire cfg w =
     (case smPending w of
        [] \<Rightarrow> Some (w, Ok ())
      | t # ts \<Rightarrow>
          (case fire_one cfg t (w\<lparr>smPending := ts\<rparr>) of
             (w', Ok _) \<Rightarrow> run_fire cfg w'
           | (w', Err e) \<Rightarrow> Some (w', Err e)
           | (w', Panic) \<Rightarrow> Some (w', Panic)))"

lemma run_fire_completes: "completes cfg w x \<Longrightarrow> run_fire cfg w = Some x"
  by (induction rule: completes.induct) (subst run_fire.simps, simp)+

definition demo_fire :: "('s, 't, 'z) fire" where
  "demo_fire cfg t w =
     (case run_fire cfg (w\<lparr>smPending := [t]\<rparr>) of Some x \<Rightarrow> x | None \<Rightarrow> (w, Panic))"

theorem demo_fire_ok: "stateless_ok demo_fire"
  by (simp add: stateless_ok_def demo_fire_def run_fire_completes)

end
