(* ===== verification/PeerLoader.thy ===== *)
theory PeerLoader
  imports History Queue StateMachine
begin

text \<open>
  \<open>loading/peer_loader.go\<close>, \<open>loading/state.go\<close>, \<open>loading/event.go\<close>: the state machine that
  loads the history of one peer. It asks the peer for the IDs after the last known ones,
  requests the blocks of the unknown IDs and applies them when the last one has arrived.
\<close>

section \<open>States, events, triggers\<close>

datatype state = stateIdle | stateWaitingForIDs | stateWaitingForBlocks | stateDone

datatype event =
  eventStart | eventRestart | eventIDs | eventBlock | eventTick | eventTimeout | eventQueueReady

text \<open>The argument a trigger carries; the actions check its type.\<close>

datatype 'id arg = NoArg | ArgIDs "'id list" | ArgBlock "'id proto_block option" | ArgTime int

type_synonym 'id trigger = "event \<times> 'id arg"

text \<open>
  What a \<open>HistoryRequester\<close> is told to send. Times are nanoseconds; \<open>None\<close> is the zero
  \<open>time.Time\<close>, whose distance from any clock reading saturates above the timeout.
\<close>

datatype 'id request = ReqBlockIDs "'id list" | ReqBlock 'id

definition idsBatchSize :: int where "idsBatchSize = 100"
definition timeoutDuration :: int where "timeoutDuration = 30 * 1000000000"

text \<open>
  The peer loader with what it works on: the history provider's state, the requests sent to
  the peer so far, the reporter's state, and the clock \<open>time.Now()\<close> reads.
\<close>

record ('h, 'r, 'id) peerLoader = "(state, 'id trigger) sm" +
  plPeer :: addr
  plTimestamp :: "int option"
  plQueue :: "'id queue"
  plHp :: 'h
  plSent :: "'id request list"
  plRep :: 'r
  plNow :: int

type_synonym ('h, 'r, 'id) pl_action = "(('h, 'r, 'id) peerLoader, unit) action"

text \<open>The interface \<open>Reporter\<close>; its methods may look at the machine and fire triggers.\<close>

record ('h, 'r, 'id) reporter =
  repOK :: "('h, 'r, 'id) pl_action"
  repFail :: "('h, 'r, 'id) pl_action"

definition newPeerLoader :: "addr \<Rightarrow> 'h \<Rightarrow> 'r \<Rightarrow> int \<Rightarrow> ('h, 'r, 'id) peerLoader" where
  "newPeerLoader peer h r now =
     \<lparr>smState = stateIdle, smPending = [], plPeer = peer, plTimestamp = None, plQueue = [],
      plHp = h, plSent = [], plRep = r, plNow = now\<rparr>"

section \<open>Calls of the interfaces\<close>

definition read_hp :: "('h \<Rightarrow> 'a res) \<Rightarrow> (('h, 'r, 'id) peerLoader, 'a) action" where
  "read_hp f = reads (\<lambda>w. f (plHp w))"

definition call_hp :: "('h, unit) action \<Rightarrow> ('h, 'r, 'id) pl_action" where
  "call_hp f w = (case f (plHp w) of (h, r) \<Rightarrow> (w\<lparr>plHp := h\<rparr>, r))"

text \<open>\<open>Peer.RequestBlockIDs\<close> indexes the first and the last ID for its log message.\<close>

definition RequestBlockIDs :: "'id list \<Rightarrow> ('h, 'r, 'id) pl_action" where
  "RequestBlockIDs ids w =
     (if ids = [] then (w, Panic) else (w\<lparr>plSent := plSent w @ [ReqBlockIDs ids]\<rparr>, Ok ()))"

definition RequestBlock :: "'id \<Rightarrow> ('h, 'r, 'id) peerLoader \<Rightarrow> ('h, 'r, 'id) peerLoader" where
  "RequestBlock i w = w\<lparr>plSent := plSent w @ [ReqBlock i]\<rparr>"

definition touch :: "('h, 'r, 'id) pl_action" where
  "touch w = (w\<lparr>plTimestamp := Some (plNow w)\<rparr>, Ok ())"

section \<open>Actions\<close>

definition requestIDs :: "('h, 'id) history \<Rightarrow> ('h, 'r, 'id) pl_action" where
  "requestIDs hp =
     bind_act (\<lambda>w. read_hp (hpLeash hp (plPeer w)) w) (\<lambda>leash.
     bind_act (read_hp (hpLastIDs hp leash idsBatchSize)) (\<lambda>lastIDs.
     bind_act (RequestBlockIDs lastIDs) (\<lambda>_. touch)))"

definition requestIDsFromLCA :: "('h, 'id) history \<Rightarrow> ('h, 'r, 'id) pl_action" where
  "requestIDsFromLCA hp =
     bind_act (\<lambda>w. read_hp (hpLCB hp (plPeer w)) w) (\<lambda>lca.
     bind_act (read_hp (hpLastIDs hp lca idsBatchSize)) (\<lambda>lastIDs.
     bind_act (RequestBlockIDs lastIDs) (\<lambda>_. touch)))"

text \<open>
  The loop of \<open>requestBlocks\<close>: it moves the leash along the known IDs and returns the IDs
  from the first unknown one on.
\<close>

fun knownLoop :: "('h, 'id) history \<Rightarrow> 'id list \<Rightarrow> (('h, 'r, 'id) peerLoader, 'id list) action" where
  "knownLoop hp [] = return_act []"
| "knownLoop hp (i # ids) =
     bind_act (read_hp (hpHasBlock hp i)) (\<lambda>hasBlock.
     if hasBlock then
       bind_act (\<lambda>w. read_hp (hpLeash hp (plPeer w)) w) (\<lambda>leash.
       bind_act (\<lambda>w. if i \<noteq> leash then call_hp (hpMoveLeash hp i (plPeer w)) w else (w, Ok ())) (\<lambda>_.
       knownLoop hp ids))
     else return_act (i # ids))"

definition requestBlocks :: "('h, 'id) history \<Rightarrow> 'id arg \<Rightarrow> ('h, 'r, 'id) pl_action" where
  "requestBlocks hp arg =
     (case arg of
        ArgIDs ids \<Rightarrow>
          bind_act (knownLoop hp ids) (\<lambda>req.
          if req = [] then fire_nested (eventQueueReady, NoArg)
          else (\<lambda>w. touch (fold RequestBlock req (w\<lparr>plQueue := newQueue req\<rparr>))))
      | _ \<Rightarrow> fail_act ErrArgument)"

text \<open>A nil block would be dereferenced by \<open>PutBlock\<close>.\<close>

fun applyLoop :: "('h, 'id) history \<Rightarrow> 'id queue \<Rightarrow> ('h, 'r, 'id) pl_action" where
  "applyLoop hp [] = return_act ()"
| "applyLoop hp (it # q) =
     (case received it of
        None \<Rightarrow> (\<lambda>w. (w, Panic))
      | Some b \<Rightarrow>
          bind_act (\<lambda>w. call_hp (hpPutBlock hp b (plPeer w)) w) (\<lambda>_. applyLoop hp q))"

definition appendBlock :: "('h, 'id) history \<Rightarrow> 'id arg \<Rightarrow> ('h, 'r, 'id) pl_action" where
  "appendBlock hp arg =
     (case arg of
        ArgBlock b \<Rightarrow>
          (\<lambda>w. let w = w\<lparr>plQueue := put b (plQueue w)\<rparr> in
               if ready (plQueue w)
               then bind_act (applyLoop hp (plQueue w)) (\<lambda>_. fire_nested (eventQueueReady, NoArg)) w
               else (w, Ok ()))
      | _ \<Rightarrow> fail_act ErrArgument)"

definition onTick :: "'id arg \<Rightarrow> ('h, 'r, 'id) pl_action" where
  "onTick arg =
     (case arg of
        ArgTime tm \<Rightarrow>
          (\<lambda>w. if (case plTimestamp w of None \<Rightarrow> True | Some t \<Rightarrow> tm - t > timeoutDuration)
               then fire_nested (eventTimeout, NoArg) w
               else (w, Ok ()))
      | _ \<Rightarrow> fail_act ErrArgument)"

text \<open>The loop of \<open>handleFailure\<close> stops at the first item that was not received.\<close>

fun failLoop :: "('h, 'id) history \<Rightarrow> 'id queue \<Rightarrow> ('h, 'r, 'id) pl_action" where
  "failLoop hp [] = return_act ()"
| "failLoop hp (it # q) =
     (if item_ok it then
        (case received it of
           None \<Rightarrow> return_act ()
         | Some b \<Rightarrow>
             bind_act (\<lambda>w. call_hp (hpPutBlock hp b (plPeer w)) w) (\<lambda>_. failLoop hp q))
      else return_act ())"

definition handleFailure ::
  "('h, 'id) history \<Rightarrow> ('h, 'r, 'id) reporter \<Rightarrow> ('h, 'r, 'id) pl_action" where
  "handleFailure hp rep =
     bind_act (\<lambda>w. failLoop hp (plQueue w) w) (\<lambda>_. repFail rep)"

definition reportOK :: "('h, 'r, 'id) reporter \<Rightarrow> ('h, 'r, 'id) pl_action" where
  "reportOK rep = repOK rep"

section \<open>The configuration of the machine\<close>

fun plReaction :: "state \<Rightarrow> event \<Rightarrow> state reaction" where
  "plReaction stateIdle eventStart = Permit stateWaitingForIDs"
| "plReaction stateIdle eventRestart = Permit stateWaitingForIDs"
| "plReaction stateIdle _ = Ignore"
| "plReaction stateWaitingForIDs eventIDs = Permit stateWaitingForBlocks"
| "plReaction stateWaitingForIDs eventTick = InternalTransition"
| "plReaction stateWaitingForIDs eventTimeout = Permit stateDone"
| "plReaction stateWaitingForIDs _ = Ignore"
| "plReaction stateWaitingForBlocks eventBlock = InternalTransition"
| "plReaction stateWaitingForBlocks eventTick = InternalTransition"
| "plReaction stateWaitingForBlocks eventTimeout = Permit stateDone"
| "plReaction stateWaitingForBlocks eventQueueReady = Permit stateIdle"
| "plReaction stateWaitingForBlocks _ = Ignore"
| "plReaction stateDone eventQueueReady = Unhandled"
| "plReaction stateDone _ = Ignore"

fun plEntry ::
  "('h, 'id) history \<Rightarrow> ('h, 'r, 'id) reporter \<Rightarrow> state \<Rightarrow> 'id trigger \<Rightarrow> ('h, 'r, 'id) pl_action" where
  "plEntry hp rep stateIdle (e, arg) =
     (if e = eventQueueReady then reportOK rep else return_act ())"
| "plEntry hp rep stateWaitingForIDs (e, arg) =
     (if e = eventStart then requestIDs hp
      else if e = eventRestart then requestIDsFromLCA hp
      else return_act ())"
| "plEntry hp rep stateWaitingForBlocks (e, arg) =
     (if e = eventIDs then requestBlocks hp arg else return_act ())"
| "plEntry hp rep stateDone (e, arg) = handleFailure hp rep"

fun plInternal :: "('h, 'id) history \<Rightarrow> state \<Rightarrow> 'id trigger \<Rightarrow> ('h, 'r, 'id) pl_action" where
  "plInternal hp s (eventTick, arg) = onTick arg"
| "plInternal hp s (eventBlock, arg) = appendBlock hp arg"
| "plInternal hp s (_, arg) = return_act ()"

definition plConfig ::
  "('h, 'id) history \<Rightarrow> ('h, 'r, 'id) reporter \<Rightarrow>
    (state, 'id trigger, \<lparr>plPeer :: addr, plTimestamp :: int option, plQueue :: 'id queue,
      plHp :: 'h, plSent :: 'id request list, plRep :: 'r, plNow :: int\<rparr>) sm_config" where
  "plConfig hp rep =
     \<lparr>sm_reaction = (\<lambda>s t. plReaction s (fst t)), sm_entry = plEntry hp rep,
      sm_internal = plInternal hp\<rparr>"

section \<open>The methods the loader calls\<close>

type_synonym ('h, 'r, 'id) pl_fire =
  "(state, 'id trigger, \<lparr>plPeer :: addr, plTimestamp :: int option, plQueue :: 'id queue,
      plHp :: 'h, plSent :: 'id request list, plRep :: 'r, plNow :: int\<rparr>) fire"

definition pl_start ::
  "('h, 'r, 'id) pl_fire \<Rightarrow> ('h, 'id) history \<Rightarrow> ('h, 'r, 'id) reporter \<Rightarrow> ('h, 'r, 'id) pl_action" where
  "pl_start F hp rep = F (plConfig hp rep) (eventStart, NoArg)"

definition pl_restart ::
  "('h, 'r, 'id) pl_fire \<Rightarrow> ('h, 'id) history \<Rightarrow> ('h, 'r, 'id) reporter \<Rightarrow> ('h, 'r, 'id) pl_action" where
  "pl_restart F hp rep = F (plConfig hp rep) (eventRestart, NoArg)"

definition processIDs ::
  "('h, 'r, 'id) pl_fire \<Rightarrow> ('h, 'id) history \<Rightarrow> ('h, 'r, 'id) reporter \<Rightarrow> 'id list \<Rightarrow> ('h, 'r, 'id) pl_action" where
  "processIDs F hp rep ids = F (plConfig hp rep) (eventIDs, ArgIDs ids)"

definition processBlock ::
  "('h, 'r, 'id) pl_fire \<Rightarrow> ('h, 'id) history \<Rightarrow> ('h, 'r, 'id) reporter \<Rightarrow> 'id proto_block option \<Rightarrow>
    ('h, 'r, 'id) pl_action" where
  "processBlock F hp rep b = F (plConfig hp rep) (eventBlock, ArgBlock b)"

definition processTick ::
  "('h, 'r, 'id) pl_fire \<Rightarrow> ('h, 'id) history \<Rightarrow> ('h, 'r, 'id) reporter \<Rightarrow> int \<Rightarrow> ('h, 'r, 'id) pl_action" where
  "processTick F hp rep tm = F (plConfig hp rep) (eventTick, ArgTime tm)"

end
