(* ===== verification/PeerLoaderSpec.thy ===== *)
theory PeerLoaderSpec
  imports PeerLoader
begin

text \<open>
  What the actions of the peer loader do with any provider that keeps the contract
  \<open>history_provider\<close>, and what a call of its methods does under the documented behaviour of
  \<open>Fire\<close>.
\<close>

section \<open>The actions\<close>

lemmas pl_act_simps = act_simps read_hp_def call_hp_def touch_def bind_act_def reads_def

context history_provider
begin

lemma has_eq: "ok s \<Longrightarrow> hpHasBlock hp i s = Ok (hp_has hp s i)"
  using has_total [of s i] by (auto simp: hp_has_def)

text \<open>The request for IDs starts at the leash and names at most 100 known blocks.\<close>

lemma requestIDs_sends:
  assumes "ok (plHp w)" "valid (plPeer w)"
  shows "\<exists>i ids. hpLeash hp (plPeer w) (plHp w) = Ok i \<and> hpLastIDs hp i 100 (plHp w) = Ok (i # ids) \<and>
    length (i # ids) \<le> 100 \<and> (\<forall>j \<in> set (i # ids). hp_has hp (plHp w) j) \<and>
    requestIDs hp w = (w\<lparr>plSent := plSent w @ [ReqBlockIDs (i # ids)], plTimestamp := Some (plNow w)\<rparr>, Ok ())"
proof -
  obtain i where i: "hpLeash hp (plPeer w) (plHp w) = Ok i" "hpHasBlock hp i (plHp w) = Ok True"
    using leash_known [OF assms] by blast
  obtain ids where ids: "hpLastIDs hp i idsBatchSize (plHp w) = Ok (i # ids)"
    "length (i # ids) \<le> nat idsBatchSize" "\<forall>j \<in> set ids. hpHasBlock hp j (plHp w) = Ok True"
    using last_ids [OF assms(1) i(2), of idsBatchSize] by (auto simp: idsBatchSize_def)
  have "requestIDs hp w = (w\<lparr>plSent := plSent w @ [ReqBlockIDs (i # ids)], plTimestamp := Some (plNow w)\<rparr>, Ok ())"
    by (simp add: requestIDs_def pl_act_simps i ids RequestBlockIDs_def)
  then show ?thesis using i ids by (auto simp: hp_has_def idsBatchSize_def)
qed

text \<open>The leash of the peer follows the known IDs; nothing else of the provider changes.\<close>

lemma knownLoop_result:
  "ok (plHp w) \<Longrightarrow> valid (plPeer w) \<Longrightarrow>
    \<exists>s'. knownLoop hp ids w = (w\<lparr>plHp := s'\<rparr>, Ok (dropWhile (hp_has hp (plHp w)) ids)) \<and>
      ok s' \<and> capacity s' = capacity (plHp w) \<and> (\<forall>j. hp_has hp s' j = hp_has hp (plHp w) j) \<and>
      hpLeash hp (plPeer w) s' =
        (if takeWhile (hp_has hp (plHp w)) ids = [] then hpLeash hp (plPeer w) (plHp w)
         else Ok (last (takeWhile (hp_has hp (plHp w)) ids))) \<and>
      (\<forall>b. valid b \<and> b \<noteq> plPeer w \<longrightarrow> hpLeash hp b s' = hpLeash hp b (plHp w))"
proof (induction ids arbitrary: w)
  case Nil
  then show ?case by (intro exI [of _ "plHp w"]) (simp add: return_act_def)
next
  case (Cons i ids)
  let ?s = "plHp w" and ?a = "plPeer w"
  show ?case
  proof (cases "hp_has hp ?s i")
    case False
    with Cons.prems show ?thesis
      by (intro exI [of _ ?s]) (simp add: pl_act_simps has_eq)
  next
    case True
    obtain l where l: "hpLeash hp ?a ?s = Ok l" using leash_known [OF Cons.prems] by blast
    have known: "hpHasBlock hp i ?s = Ok True" using True by (simp add: hp_has_def)
    obtain s1 where s1: "ok s1" "capacity s1 = capacity ?s" "hpLeash hp ?a s1 = Ok i"
      "\<forall>b. valid b \<and> b \<noteq> ?a \<longrightarrow> hpLeash hp b s1 = hpLeash hp b ?s" "\<forall>j. hp_has hp s1 j = hp_has hp ?s j"
      and step: "(if i \<noteq> l then call_hp (hpMoveLeash hp i ?a) w else (w, Ok ())) = (w\<lparr>plHp := s1\<rparr>, Ok ())"
    proof (cases "i = l")
      case True
      with l Cons.prems that [of ?s] show ?thesis by simp
    next
      case False
      from move [OF Cons.prems known] obtain s1 where
        "hpMoveLeash hp i ?a ?s = (s1, Ok ())" "ok s1" "capacity s1 = capacity ?s" "hpLeash hp ?a s1 = Ok i"
        "\<forall>b. valid b \<and> b \<noteq> ?a \<longrightarrow> hpLeash hp b s1 = hpLeash hp b ?s"
        "\<forall>j. hpHasBlock hp j s1 = hpHasBlock hp j ?s" by blast
      with False that [of s1] show ?thesis by (simp add: call_hp_def hp_has_def)
    qed
    let ?w1 = "w\<lparr>plHp := s1\<rparr>"
    have rec: "knownLoop hp (i # ids) w = knownLoop hp ids ?w1"
      using True l step by (simp add: bind_act_def read_hp_def reads_def has_eq [OF Cons.prems(1)])
    have eq: "hp_has hp s1 = hp_has hp ?s" using s1(5) by blast
    from Cons.IH [of ?w1] s1 Cons.prems obtain s' where
      s': "knownLoop hp ids ?w1 = (w\<lparr>plHp := s'\<rparr>, Ok (dropWhile (hp_has hp ?s) ids))" "ok s'"
      "capacity s' = capacity ?s" "\<forall>j. hp_has hp s' j = hp_has hp ?s j"
      "hpLeash hp ?a s' = (if takeWhile (hp_has hp ?s) ids = [] then Ok i else Ok (last (takeWhile (hp_has hp ?s) ids)))"
      "\<forall>b. valid b \<and> b \<noteq> ?a \<longrightarrow> hpLeash hp b s' = hpLeash hp b ?s"
      by (auto simp: eq)
    show ?thesis
      unfolding rec using s' True by (intro exI [of _ s']) auto
  qed
qed

text \<open>Applying a queue puts its blocks in the order of the requested IDs.\<close>

lemma applyLoop_put_all:
  "ready q \<Longrightarrow> applyLoop hp q w =
    (case put_all hp (blocks_of q) (plPeer w) (plHp w) of (s', r) \<Rightarrow> (w\<lparr>plHp := s'\<rparr>, r))"
proof (induction q arbitrary: w)
  case Nil
  then show ?case by (simp add: blocks_of_def return_act_def)
next
  case (Cons it q)
  then obtain b where b: "received it = Some b" and q: "ready q"
    by (auto simp: item_ok_def split: if_splits option.splits)
  obtain s1 r1 where p: "hpPutBlock hp b (plPeer w) (plHp w) = (s1, r1)"
    by (cases "hpPutBlock hp b (plPeer w) (plHp w)")
  show ?case
    using Cons.IH [OF q, of "w\<lparr>plHp := s1\<rparr>"] b p
    by (cases r1) (auto simp: bind_act_def call_hp_def blocks_of_def split: prod.splits)
qed

lemma failLoop_put_all:
  "failLoop hp q w =
    (case put_all hp (blocks_of (takeWhile item_ok q)) (plPeer w) (plHp w) of (s', r) \<Rightarrow> (w\<lparr>plHp := s'\<rparr>, r))"
proof (induction q arbitrary: w)
  case Nil
  then show ?case by (simp add: blocks_of_def return_act_def)
next
  case (Cons it q)
  show ?case
  proof (cases "item_ok it")
    case False
    then show ?thesis by (simp add: blocks_of_def return_act_def)
  next
    case True
    then obtain b where b: "received it = Some b" by (auto simp: item_ok_def split: option.splits)
    obtain s1 r1 where p: "hpPutBlock hp b (plPeer w) (plHp w) = (s1, r1)"
      by (cases "hpPutBlock hp b (plPeer w) (plHp w)")
    show ?thesis
      using Cons.IH [of "w\<lparr>plHp := s1\<rparr>"] True b p
      by (cases r1) (auto simp: bind_act_def call_hp_def blocks_of_def split: prod.splits)
  qed
qed

end

section \<open>One trigger\<close>

lemma plConfig_simps [simp]:
  "sm_reaction (plConfig hp rep) s t = plReaction s (fst t)"
  "sm_entry (plConfig hp rep) = plEntry hp rep" "sm_internal (plConfig hp rep) = plInternal hp"
  by (simp_all add: plConfig_def)

text \<open>A trigger the state ignores changes nothing.\<close>

lemma fire_ignored:
  assumes "stateless_ok F" "smPending w = []" "plReaction (smState w) (fst t) = Ignore"
  shows "F (plConfig hp rep) t w = (w, Ok ())"
proof (rule stateless_fire [OF assms(1,2)], rule completes_one)
  show "fire_one (plConfig hp rep) t (w\<lparr>smPending := [t], smPending := []\<rparr>) = (w, Ok ())"
    using assms(2,3) by (simp add: fire_one_def)
qed (simp_all add: assms(2))

text \<open>The reactions no event meets: only a ready queue in the final state is not handled.\<close>

lemma plReaction_unhandled: "plReaction s e = Unhandled \<longleftrightarrow> s = stateDone \<and> e = eventQueueReady"
  by (cases s; cases e) simp_all

lemma plReaction_done: "plReaction stateDone e = (if e = eventQueueReady then Unhandled else Ignore)"
  by (cases e) simp_all

text \<open>A transition whose entry action fires nothing.\<close>

lemma fire_transition:
  assumes "stateless_ok F" "smPending w = []" "plReaction (smState w) (fst t) = Permit s"
    and "plEntry hp rep s t (w\<lparr>smState := s\<rparr>) = (w', r)" "smPending w' = []"
  shows "F (plConfig hp rep) t w = (w', r)"
proof (rule stateless_fire [OF assms(1,2)], rule completes_one [OF _ _ assms(5)])
  show "fire_one (plConfig hp rep) t (w\<lparr>smPending := [t], smPending := []\<rparr>) = (w', r)"
    using assms(2-4) by (simp add: fire_one_def)
qed simp

text \<open>An internal transition whose action fires nothing.\<close>

lemma fire_internal:
  assumes "stateless_ok F" "smPending w = []" "plReaction (smState w) (fst t) = InternalTransition"
    and "plInternal hp (smState w) t w = (w', r)" "smPending w' = []"
  shows "F (plConfig hp rep) t w = (w', r)"
proof (rule stateless_fire [OF assms(1,2)], rule completes_one [OF _ _ assms(5)])
  show "fire_one (plConfig hp rep) t (w\<lparr>smPending := [t], smPending := []\<rparr>) = (w', r)"
    using assms(2-4) by (simp add: fire_one_def)
qed simp

text \<open>
  What happens after an action has fired one more trigger: \<open>Timeout\<close> ends in the final state,
  \<open>QueueReady\<close> in the idle state, where the reporter may fire \<open>Start\<close>.
\<close>

lemma completes_timeout:
  assumes "smPending w = [(eventTimeout, NoArg)]" "smState w \<in> {stateWaitingForIDs, stateWaitingForBlocks}"
    and "handleFailure hp rep (w\<lparr>smPending := [], smState := stateDone\<rparr>) = (w', r)" "smPending w' = []"
  shows "completes (plConfig hp rep) w (w', r)"
  using assms(2,3) by (intro completes_one [OF assms(1) _ assms(4)]) (auto simp: fire_one_def)

lemma completes_ready:
  assumes "smPending w = [(eventQueueReady, NoArg)]" "smState w = stateWaitingForBlocks"
    and "repOK rep (w\<lparr>smPending := [], smState := stateIdle\<rparr>) = (w', r)" "smPending w' = []"
  shows "completes (plConfig hp rep) w (w', r)"
  using assms(2,3) by (intro completes_one [OF assms(1) _ assms(4)]) (simp add: fire_one_def reportOK_def)

lemma completes_ready_start:
  assumes "smPending w = [(eventQueueReady, NoArg)]" "smState w = stateWaitingForBlocks"
    and "repOK rep (w\<lparr>smPending := [], smState := stateIdle\<rparr>) = (w1, Ok ())"
    and "smPending w1 = [(eventStart, NoArg)]" "smState w1 = stateIdle"
    and "requestIDs hp (w1\<lparr>smPending := [], smState := stateWaitingForIDs\<rparr>) = (w', r)" "smPending w' = []"
  shows "completes (plConfig hp rep) w (w', r)"
proof (rule completes_more [OF assms(1)])
  show "fire_one (plConfig hp rep) (eventQueueReady, NoArg) (w\<lparr>smPending := []\<rparr>) = (w1, Ok ())"
    using assms(2,3) by (simp add: fire_one_def reportOK_def)
  show "completes (plConfig hp rep) w1 (w', r)"
    using assms(5,6) by (intro completes_one [OF assms(4) _ assms(7)]) (simp add: fire_one_def)
qed

section \<open>The methods\<close>

text \<open>The operation of the peer loader has taken too long.\<close>

definition late :: "int \<Rightarrow> ('h, 'r, 'id) peerLoader \<Rightarrow> bool" where
  "late tm w \<longleftrightarrow> (case plTimestamp w of None \<Rightarrow> True | Some t \<Rightarrow> tm - t > timeoutDuration)"

lemma pl_pending_simps [simp]: "w\<lparr>smPending := a, smPending := b\<rparr> = w\<lparr>smPending := b\<rparr>"
  by simp

context history_provider
begin

lemma start_result:
  assumes "stateless_ok F" "smPending w = []" "smState w = stateIdle" "ok (plHp w)" "valid (plPeer w)"
  shows "\<exists>i ids. hpLeash hp (plPeer w) (plHp w) = Ok i \<and> hpLastIDs hp i 100 (plHp w) = Ok (i # ids) \<and>
    length (i # ids) \<le> 100 \<and> (\<forall>j \<in> set (i # ids). hp_has hp (plHp w) j) \<and>
    pl_start F hp rep w = (w\<lparr>smState := stateWaitingForIDs,
      plSent := plSent w @ [ReqBlockIDs (i # ids)], plTimestamp := Some (plNow w)\<rparr>, Ok ())"
proof -
  obtain i ids where r: "hpLeash hp (plPeer w) (plHp w) = Ok i" "hpLastIDs hp i 100 (plHp w) = Ok (i # ids)"
    "length (i # ids) \<le> 100" "\<forall>j \<in> set (i # ids). hp_has hp (plHp w) j"
    "requestIDs hp (w\<lparr>smState := stateWaitingForIDs\<rparr>) = (w\<lparr>smState := stateWaitingForIDs,
      plSent := plSent w @ [ReqBlockIDs (i # ids)], plTimestamp := Some (plNow w)\<rparr>, Ok ())"
    using requestIDs_sends [of "w\<lparr>smState := stateWaitingForIDs\<rparr>"] assms(4,5) by auto
  have "pl_start F hp rep w = (w\<lparr>smState := stateWaitingForIDs,
      plSent := plSent w @ [ReqBlockIDs (i # ids)], plTimestamp := Some (plNow w)\<rparr>, Ok ())"
    unfolding pl_start_def
    by (rule fire_transition [OF assms(1,2), where s = stateWaitingForIDs]) (simp_all add: assms(2,3) r(5))
  with r show ?thesis by blast
qed

lemma fold_RequestBlock: "fold RequestBlock req w = w\<lparr>plSent := plSent w @ map ReqBlock req\<rparr>"
  by (induction req arbitrary: w) (simp_all add: RequestBlock_def)

text \<open>The IDs a peer answered with, when some of them is unknown.\<close>

lemma processIDs_unknown:
  assumes F: "stateless_ok F" and w: "smPending w = []" "smState w = stateWaitingForIDs"
    and ok: "ok (plHp w)" "valid (plPeer w)" and req: "dropWhile (hp_has hp (plHp w)) ids = i # req"
  shows "\<exists>s'. processIDs F hp rep ids w = (w\<lparr>smState := stateWaitingForBlocks, plHp := s',
      plQueue := newQueue (i # req), plSent := plSent w @ map ReqBlock (i # req),
      plTimestamp := Some (plNow w)\<rparr>, Ok ()) \<and>
    ok s' \<and> capacity s' = capacity (plHp w) \<and> (\<forall>j. hp_has hp s' j = hp_has hp (plHp w) j) \<and>
    hpLeash hp (plPeer w) s' =
      (if takeWhile (hp_has hp (plHp w)) ids = [] then hpLeash hp (plPeer w) (plHp w)
       else Ok (last (takeWhile (hp_has hp (plHp w)) ids))) \<and>
    (\<forall>b. valid b \<and> b \<noteq> plPeer w \<longrightarrow> hpLeash hp b s' = hpLeash hp b (plHp w))"
proof -
  let ?w = "w\<lparr>smState := stateWaitingForBlocks\<rparr>"
  from knownLoop_result [of ?w ids] ok req obtain s' where
    k: "knownLoop hp ids ?w = (w\<lparr>smState := stateWaitingForBlocks, plHp := s'\<rparr>, Ok (i # req))"
    and s': "ok s'" "capacity s' = capacity (plHp w)" "\<forall>j. hp_has hp s' j = hp_has hp (plHp w) j"
    "hpLeash hp (plPeer w) s' =
      (if takeWhile (hp_has hp (plHp w)) ids = [] then hpLeash hp (plPeer w) (plHp w)
       else Ok (last (takeWhile (hp_has hp (plHp w)) ids)))"
    "\<forall>b. valid b \<and> b \<noteq> plPeer w \<longrightarrow> hpLeash hp b s' = hpLeash hp b (plHp w)" by auto
  let ?w' = "w\<lparr>smState := stateWaitingForBlocks, plHp := s',
      plQueue := newQueue (i # req), plSent := plSent w @ map ReqBlock (i # req),
      plTimestamp := Some (plNow w)\<rparr>"
  have "requestBlocks hp (ArgIDs ids) ?w = (?w', Ok ())"
    by (simp add: requestBlocks_def bind_act_def k fold_RequestBlock RequestBlock_def touch_def)
  then have "processIDs F hp rep ids w = (?w', Ok ())"
    unfolding processIDs_def using w
    by (intro fire_transition [OF F w(1), where s = stateWaitingForBlocks]) simp_all
  with s' show ?thesis by blast
qed

text \<open>And when all of them are known: the machine goes back to the idle state and reports.\<close>

lemma processIDs_known:
  assumes F: "stateless_ok F" and w: "smPending w = []" "smState w = stateWaitingForIDs"
    and ok: "ok (plHp w)" "valid (plPeer w)" and all: "\<forall>i \<in> set ids. hp_has hp (plHp w) i"
  shows "\<exists>s'. ok s' \<and> capacity s' = capacity (plHp w) \<and> (\<forall>j. hp_has hp s' j = hp_has hp (plHp w) j) \<and>
    hpLeash hp (plPeer w) s' = (if ids = [] then hpLeash hp (plPeer w) (plHp w) else Ok (last ids)) \<and>
    (\<forall>w' r. completes (plConfig hp rep) (w\<lparr>smState := stateWaitingForBlocks, plHp := s',
        smPending := [(eventQueueReady, NoArg)]\<rparr>) (w', r) \<longrightarrow>
      processIDs F hp rep ids w = (w', r))"
proof -
  let ?w = "w\<lparr>smState := stateWaitingForBlocks\<rparr>"
  have tw: "takeWhile (hp_has hp (plHp w)) ids = ids" "dropWhile (hp_has hp (plHp w)) ids = []" using all by simp_all
  from knownLoop_result [of ?w ids] ok obtain s' where
    k: "knownLoop hp ids ?w = (w\<lparr>smState := stateWaitingForBlocks, plHp := s'\<rparr>, Ok [])"
    and s': "ok s'" "capacity s' = capacity (plHp w)" "\<forall>j. hp_has hp s' j = hp_has hp (plHp w) j"
    "hpLeash hp (plPeer w) s' = (if ids = [] then hpLeash hp (plPeer w) (plHp w) else Ok (last ids))"
    by (auto simp: tw)
  have one: "fire_one (plConfig hp rep) (eventIDs, ArgIDs ids) w =
      (w\<lparr>smState := stateWaitingForBlocks, plHp := s', smPending := [(eventQueueReady, NoArg)]\<rparr>, Ok ())"
    using w by (simp add: fire_one_def requestBlocks_def bind_act_def k fire_nested_def)
  have "processIDs F hp rep ids w = (w', r)"
    if "completes (plConfig hp rep) (w\<lparr>smState := stateWaitingForBlocks, plHp := s',
        smPending := [(eventQueueReady, NoArg)]\<rparr>) (w', r)" for w' r
    unfolding processIDs_def
    by (rule stateless_fire [OF F w(1)], rule completes_more [OF _ _ that]) (use one w in simp_all)
  with s' show ?thesis by blast
qed

text \<open>A block of a queue that is still incomplete is only stored.\<close>

lemma processBlock_incomplete:
  assumes "stateless_ok F" "smPending w = []" "smState w = stateWaitingForBlocks"
    and "\<not> ready (put b (plQueue w))"
  shows "processBlock F hp rep b w = (w\<lparr>plQueue := put b (plQueue w)\<rparr>, Ok ())"
  unfolding processBlock_def
  by (rule fire_internal [OF assms(1,2)]) (use assms(2-4) in \<open>simp_all add: appendBlock_def\<close>)

text \<open>The last missing block: all blocks are applied, then the machine is idle and reports.\<close>

lemma processBlock_complete:
  assumes F: "stateless_ok F" and w: "smPending w = []" "smState w = stateWaitingForBlocks"
    and rdy: "ready (put b (plQueue w))"
    and put: "put_all hp (blocks_of (put b (plQueue w))) (plPeer w) (plHp w) = (s', Ok ())"
    and c: "completes (plConfig hp rep) (w\<lparr>plQueue := put b (plQueue w), plHp := s',
        smPending := [(eventQueueReady, NoArg)]\<rparr>) (w', r)"
  shows "processBlock F hp rep b w = (w', r)"
proof -
  have one: "fire_one (plConfig hp rep) (eventBlock, ArgBlock b) w =
      (w\<lparr>plQueue := put b (plQueue w), plHp := s', smPending := [(eventQueueReady, NoArg)]\<rparr>, Ok ())"
    using w rdy put by (simp add: fire_one_def appendBlock_def applyLoop_put_all bind_act_def fire_nested_def)
  show ?thesis
    unfolding processBlock_def
    by (rule stateless_fire [OF F w(1)], rule completes_more [OF _ _ c]) (use one w in simp_all)
qed

text \<open>When applying fails the error is returned and the machine stays where it is.\<close>

lemma processBlock_error:
  assumes F: "stateless_ok F" and w: "smPending w = []" "smState w = stateWaitingForBlocks"
    and rdy: "ready (put b (plQueue w))"
    and put: "put_all hp (blocks_of (put b (plQueue w))) (plPeer w) (plHp w) = (s', Err e)"
  shows "processBlock F hp rep b w = (w\<lparr>plQueue := put b (plQueue w), plHp := s'\<rparr>, Err e)"
  unfolding processBlock_def
  by (rule fire_internal [OF F w(1)])
     (use w rdy put in \<open>simp_all add: appendBlock_def applyLoop_put_all bind_act_def\<close>)

text \<open>Ticks: in time nothing happens, later the received prefix is applied and \<open>Fail\<close> is called.\<close>

lemma processTick_in_time:
  assumes "stateless_ok F" "smPending w = []" "\<not> late tm w"
  shows "processTick F hp rep tm w = (w, Ok ())"
proof (cases "smState w \<in> {stateWaitingForIDs, stateWaitingForBlocks}")
  case True
  then have "plReaction (smState w) eventTick = InternalTransition" by auto
  then show ?thesis
    unfolding processTick_def using assms(2,3)
    by (intro fire_internal [OF assms(1,2)]) (simp_all add: onTick_def late_def)
next
  case False
  then have "plReaction (smState w) eventTick = Ignore" by (cases "smState w") simp_all
  then show ?thesis unfolding processTick_def by (intro fire_ignored [OF assms(1,2)]) simp
qed

lemma processTick_late:
  assumes F: "stateless_ok F" and w: "smPending w = []" "smState w \<in> {stateWaitingForIDs, stateWaitingForBlocks}"
    and late: "late tm w"
    and h: "handleFailure hp rep (w\<lparr>smState := stateDone\<rparr>) = (w', r)" "smPending w' = []"
  shows "processTick F hp rep tm w = (w', r)"
proof -
  have one: "fire_one (plConfig hp rep) (eventTick, ArgTime tm) w =
      (w\<lparr>smPending := [(eventTimeout, NoArg)]\<rparr>, Ok ())"
    using w late by (auto simp: fire_one_def onTick_def late_def fire_nested_def split: option.splits)
  have eq: "w\<lparr>smPending := [(eventTimeout, NoArg)], smPending := [], smState := stateDone\<rparr> = w\<lparr>smState := stateDone\<rparr>"
    using sm_collapse [OF w(1)] by (simp del: sm_collapse)
  have c: "completes (plConfig hp rep) (w\<lparr>smPending := [(eventTimeout, NoArg)]\<rparr>) (w', r)"
    by (rule completes_timeout [OF _ _ _ h(2)]) (simp, use w(2) in simp, simp only: eq h(1))
  show ?thesis
    unfolding processTick_def
    by (rule stateless_fire [OF F w(1)], rule completes_more [OF _ _ c])
       (simp, simp only: pl_pending_simps sm_collapse [OF w(1)] one)
qed

lemma handleFailure_result:
  "handleFailure hp rep w =
    (case put_all hp (blocks_of (takeWhile item_ok (plQueue w))) (plPeer w) (plHp w) of
       (s', Ok _) \<Rightarrow> repFail rep (w\<lparr>plHp := s'\<rparr>)
     | (s', Err e) \<Rightarrow> (w\<lparr>plHp := s'\<rparr>, Err e)
     | (s', Panic) \<Rightarrow> (w\<lparr>plHp := s'\<rparr>, Panic))"
  unfolding handleFailure_def bind_act_def failLoop_put_all by (auto split: prod.split res.split)

end

end
