(* ===== verification/Loader.thy ===== *)
theory Loader
  imports PeerLoaderSpec
begin

text \<open>
  \<open>loading/loader.go\<close>: the loader picks a lagging peer, drives its peer loader and, as the
  \<open>Reporter\<close> of that peer loader, decides whether to go on with it. The fields of the Go
  struct that are the peer loader itself (\<open>l.pl\<close>) and the block graph are in the record
  \<open>peerLoader\<close>, whose reporter state is the rest of the struct: \<open>ldActive\<close> says that \<open>l.pl\<close>
  is not nil. The registry is what its methods answer at the moment.
\<close>

section \<open>The failure counter\<close>

text \<open>A nil map reads as an empty one.\<close>

type_synonym failureCounter = "addr \<rightharpoonup> int"

definition fc_inc :: "addr \<Rightarrow> failureCounter \<Rightarrow> failureCounter" where
  "fc_inc a m =
     (let m = (if m a = None then m(a \<mapsto> 0) else m) in
      m(a \<mapsto> (case m a of None \<Rightarrow> 0 | Some c \<Rightarrow> c) + 1))"

definition fc_count :: "addr \<Rightarrow> failureCounter \<Rightarrow> int" where
  "fc_count a m = (case m a of Some c \<Rightarrow> c | None \<Rightarrow> 0)"

definition fc_reset :: "addr \<Rightarrow> failureCounter \<Rightarrow> failureCounter" where
  "fc_reset a m = m(a \<mapsto> 0)"

lemma fc_simps [simp]:
  "fc_count a (fc_inc b m) = (if a = b then fc_count a m + 1 else fc_count a m)"
  "fc_count a (fc_reset b m) = (if a = b then 0 else fc_count a m)"
  by (auto simp: fc_count_def fc_inc_def fc_reset_def Let_def split: option.splits)

section \<open>State\<close>

definition restartThreshold :: int where "restartThreshold = 10"

text \<open>
  \<open>ldPeerScore\<close>: the score in the answer of \<open>registry.Peer\<close>; \<open>ldConnections\<close>: the answer of
  \<open>registry.Connections\<close>, addresses with scores.
\<close>

record loader =
  ldActive :: bool
  ldPrevDiff :: "int option"
  ldFails :: failureCounter
  ldTicker :: bool
  ldPeerScore :: "addr \<Rightarrow> int option res"
  ldConnections :: "(addr \<times> int option) list res"

type_synonym ('h, 'id) world = "('h, loader, 'id) peerLoader"
type_synonym ('h, 'id) ld_action = "('h, loader, 'id) pl_action"

definition NewLoader :: "loader" where
  "NewLoader =
     \<lparr>ldActive = False, ldPrevDiff = None, ldFails = Map.empty, ldTicker = False,
      ldPeerScore = (\<lambda>_. Err ErrNotFound), ldConnections = Ok []\<rparr>"

definition on_loader :: "(loader \<Rightarrow> loader) \<Rightarrow> ('h, 'id) world \<Rightarrow> ('h, 'id) world" where
  "on_loader f w = w\<lparr>plRep := f (plRep w)\<rparr>"

section \<open>The reporter\<close>

text \<open>\<open>big.Int\<close> arithmetic on a nil pointer panics.\<close>

definition isLagging :: "int option \<Rightarrow> int option \<Rightarrow> int option \<Rightarrow> (int \<times> bool) res" where
  "isLagging prevDiff peerScore leashScore =
     (case (peerScore, leashScore) of
        (Some p, Some s) \<Rightarrow>
          let diff = p - s in
          (case prevDiff of
             None \<Rightarrow> Ok (diff, p > s)
           | Some d \<Rightarrow> Ok (diff, p > s \<and> d \<noteq> diff))
      | _ \<Rightarrow> Panic)"

definition resetLoadingPeer :: "loader \<Rightarrow> loader" where
  "resetLoadingPeer r = r\<lparr>ldActive := False, ldPrevDiff := None\<rparr>"

text \<open>
  \<open>continueSync\<close> called by \<open>OK\<close>, that is, while the machine handles a trigger: the start is
  queued. The first argument of \<open>OK\<close> is \<open>linkage.LeashScore\<close>.
\<close>

definition continueSync_nested :: "('h, 'id) ld_action" where
  "continueSync_nested w =
     fire_nested (eventStart, NoArg) (on_loader (\<lambda>r. r\<lparr>ldTicker := True\<rparr>) w)"

definition ld_OK :: "(addr \<Rightarrow> 'h \<Rightarrow> int option res) \<Rightarrow> ('h, 'id) ld_action" where
  "ld_OK leashScore w =
     (if ldActive (plRep w) \<and> smState w = stateIdle then
        let a = plPeer w;
            w = on_loader (\<lambda>r. r\<lparr>ldFails := fc_reset a (ldFails r)\<rparr>) w in
        (case ldPeerScore (plRep w) a of
           Err _ \<Rightarrow> (w, Ok ())
         | Panic \<Rightarrow> (w, Panic)
         | Ok p \<Rightarrow>
             (case leashScore a (plHp w) of
                Err _ \<Rightarrow> (w, Ok ())
              | Panic \<Rightarrow> (w, Panic)
              | Ok score \<Rightarrow>
                  (case isLagging (ldPrevDiff (plRep w)) p score of
                     Ok (diff, lagging) \<Rightarrow>
                       if lagging
                       then continueSync_nested (on_loader (\<lambda>r. r\<lparr>ldPrevDiff := Some diff\<rparr>) w)
                       else (on_loader resetLoadingPeer w, Ok ())
                   | _ \<Rightarrow> (w, Panic))))
      else (w, Ok ()))"

definition ld_Fail :: "('h, 'id) ld_action" where
  "ld_Fail w =
     (if ldActive (plRep w) \<and> smState w = stateDone
      then (on_loader (\<lambda>r. r\<lparr>ldFails := fc_inc (plPeer w) (ldFails r), ldActive := False\<rparr>) w, Ok ())
      else (w, Ok ()))"

definition ld_reporter :: "(addr \<Rightarrow> 'h \<Rightarrow> int option res) \<Rightarrow> ('h, loader, 'id) reporter" where
  "ld_reporter leashScore = \<lparr>repOK = ld_OK leashScore, repFail = ld_Fail\<rparr>"

section \<open>Starting\<close>

text \<open>Errors of the peer loader are logged.\<close>

definition log_error :: "('h, 'id) ld_action \<Rightarrow> ('h, 'id) ld_action" where
  "log_error m w = (case m w of (w', Err _) \<Rightarrow> (w', Ok ()) | x \<Rightarrow> x)"

definition continueSync ::
  "('h, loader, 'id) pl_fire \<Rightarrow> ('h, 'id) history \<Rightarrow> (addr \<Rightarrow> 'h \<Rightarrow> int option res) \<Rightarrow> ('h, 'id) ld_action" where
  "continueSync F hp leashScore w =
     log_error (pl_start F hp (ld_reporter leashScore)) (on_loader (\<lambda>r. r\<lparr>ldTicker := True\<rparr>) w)"

definition restartSync ::
  "('h, loader, 'id) pl_fire \<Rightarrow> ('h, 'id) history \<Rightarrow> (addr \<Rightarrow> 'h \<Rightarrow> int option res) \<Rightarrow> ('h, 'id) ld_action" where
  "restartSync F hp leashScore w =
     log_error (pl_restart F hp (ld_reporter leashScore))
       (on_loader (\<lambda>r. r\<lparr>ldFails := fc_reset (plPeer w) (ldFails r), ldTicker := True\<rparr>) w)"

text \<open>The loop of \<open>sync\<close> over the connections; comparing with a nil score panics.\<close>

fun laggingLoop ::
  "(addr \<Rightarrow> 'h \<Rightarrow> int option res) \<Rightarrow> 'h \<Rightarrow> (addr \<times> int option) list \<Rightarrow> addr list res" where
  "laggingLoop leashScore h [] = Ok []"
| "laggingLoop leashScore h ((a, None) # cs) = laggingLoop leashScore h cs"
| "laggingLoop leashScore h ((a, Some p) # cs) =
     (case leashScore a h of
        Err _ \<Rightarrow> laggingLoop leashScore h cs
      | Panic \<Rightarrow> Panic
      | Ok None \<Rightarrow> Panic
      | Ok (Some s) \<Rightarrow>
          if p > s then bind_res (laggingLoop leashScore h cs) (\<lambda>r. Ok (a # r))
          else laggingLoop leashScore h cs)"

text \<open>\<open>pick n\<close> is the result of \<open>rand2.IntN(n)\<close>.\<close>

definition ld_sync ::
  "('h, loader, 'id) pl_fire \<Rightarrow> ('h, 'id) history \<Rightarrow> (addr \<Rightarrow> 'h \<Rightarrow> int option res) \<Rightarrow>
    (nat \<Rightarrow> nat) \<Rightarrow> ('h, 'id) ld_action" where
  "ld_sync F hp leashScore pick w =
     (if ldActive (plRep w) then (w, Ok ())
      else
        (case ldConnections (plRep w) of
           Err _ \<Rightarrow> (w, Ok ())
         | Panic \<Rightarrow> (w, Panic)
         | Ok connections \<Rightarrow>
             if connections = [] then (w, Ok ())
             else
               (case laggingLoop leashScore (plHp w) connections of
                  Ok lagging \<Rightarrow>
                    if lagging = [] then (w, Ok ())
                    else
                      let p = lagging ! pick (length lagging);
                          w = newPeerLoader p (plHp w) ((plRep w)\<lparr>ldActive := True\<rparr>) (plNow w) in
                      if fc_count p (ldFails (plRep w)) \<ge> restartThreshold
                      then bind_act (restartSync F hp leashScore) (\<lambda>_. continueSync F hp leashScore) w
                      else continueSync F hp leashScore w
                | _ \<Rightarrow> (w, Panic))))"

section \<open>Events\<close>

definition ld_tick ::
  "('h, loader, 'id) pl_fire \<Rightarrow> ('h, 'id) history \<Rightarrow> (addr \<Rightarrow> 'h \<Rightarrow> int option res) \<Rightarrow> ('h, 'id) ld_action" where
  "ld_tick F hp leashScore w =
     (if \<not> ldActive (plRep w) then (w, Ok ())
      else log_error (processTick F hp (ld_reporter leashScore) (plNow w)) w)"

definition handleIDs ::
  "('h, loader, 'id) pl_fire \<Rightarrow> ('h, 'id) history \<Rightarrow> (addr \<Rightarrow> 'h \<Rightarrow> int option res) \<Rightarrow>
    addr \<Rightarrow> 'id list \<Rightarrow> ('h, 'id) ld_action" where
  "handleIDs F hp leashScore peer ids w =
     (if \<not> ldActive (plRep w) then (w, Ok ())
      else if ids = [] then (w, Ok ())
      else if peer \<noteq> plPeer w then (w, Ok ())
      else log_error (processIDs F hp (ld_reporter leashScore) ids) w)"

definition handleBlock ::
  "('h, loader, 'id) pl_fire \<Rightarrow> ('h, 'id) history \<Rightarrow> (addr \<Rightarrow> 'h \<Rightarrow> int option res) \<Rightarrow>
    addr \<Rightarrow> 'id proto_block option \<Rightarrow> ('h, 'id) ld_action" where
  "handleBlock F hp leashScore peer b w =
     (if \<not> ldActive (plRep w) then (w, Ok ())
      else if peer \<noteq> plPeer w then (w, Ok ())
      else log_error (processBlock F hp (ld_reporter leashScore) b) w)"

text \<open>One round of \<open>loop\<close>: what the select statement received.\<close>

datatype 'id ld_input =
  InIDs addr "'id list" | InBlock addr "'id proto_block option" | InTick | InTimer "nat \<Rightarrow> nat"

fun ld_step ::
  "('h, loader, 'id) pl_fire \<Rightarrow> ('h, 'id) history \<Rightarrow> (addr \<Rightarrow> 'h \<Rightarrow> int option res) \<Rightarrow>
    'id ld_input \<Rightarrow> ('h, 'id) ld_action" where
  "ld_step F hp ls (InIDs a ids) w = handleIDs F hp ls a ids w"
| "ld_step F hp ls (InBlock a b) w = handleBlock F hp ls a b w"
| "ld_step F hp ls InTick w =
     bind_act (ld_tick F hp ls) (\<lambda>_ w. (on_loader (\<lambda>r. r\<lparr>ldTicker := True\<rparr>) w, Ok ())) w"
| "ld_step F hp ls (InTimer pick) w = ld_sync F hp ls pick w"

end
