(* ===== verification/SyncedHistory.thy ===== *)
theory SyncedHistory
  imports Loader LinkageForks
begin

text \<open>
  What the loader needs from the block graph beyond the interface \<open>HistoryProvider\<close>: the
  scores of the leashed blocks, the last common block a restart begins at, and that applying a
  block does not panic. It is an extension of the locale \<open>history_provider\<close>, interpreted on
  the \<open>Linkage\<close>.
\<close>

locale synced_history = history_provider hp ok capacity valid
  for hp :: "('h, 'id) history" and ok :: "'h \<Rightarrow> bool" and capacity :: "'h \<Rightarrow> nat" and valid :: "addr \<Rightarrow> bool" +
  fixes leashScore :: "addr \<Rightarrow> 'h \<Rightarrow> int option res"
    and lcb_ok :: "addr \<Rightarrow> 'h \<Rightarrow> bool"
    and sound :: "'id proto_block \<Rightarrow> bool"
  assumes leash_score: "ok s \<Longrightarrow> valid a \<Longrightarrow> \<exists>x. leashScore a s = Ok (Some x)"
    and lcb_known: "ok s \<Longrightarrow> valid a \<Longrightarrow> lcb_ok a s \<Longrightarrow>
      \<exists>i. hpLCB hp a s = Ok i \<and> hpHasBlock hp i s = Ok True"
    and put_no_panic: "ok s \<Longrightarrow> valid a \<Longrightarrow> 0 < capacity s \<Longrightarrow> sound b \<Longrightarrow>
      hpPutBlock hp b a s = (s', r) \<Longrightarrow> r \<noteq> Panic"

section \<open>The Linkage provides it\<close>

definition lk_score :: "addr \<Rightarrow> ('db, 'id) env \<times> ('db, 'id) linkage \<Rightarrow> int option res" where
  "lk_score a s = LeashScore (fst s) (snd s) a"

text \<open>
  The forks of the leashed blocks are not too long and their timestamps can be converted, or
  the peer has no leash at all.
\<close>

definition lk_lcb_ok :: "addr \<Rightarrow> ('db, 'id) env \<times> ('db, 'id) linkage \<Rightarrow> bool" where
  "lk_lcb_ok a s \<longleftrightarrow>
     (\<exists>g. lk_rep (fst s) (snd s) g \<and>
        (gLeash g a = None \<or>
         a \<noteq> all_ones \<and> times_ok g \<and>
         (\<forall>x \<in> nodes g. peers_on g [] (gId g x) \<noteq> {} \<longrightarrow> near g x (node_of g (leash_of g a)))))"

definition lk_sound :: "'id proto_block \<Rightarrow> bool" where
  "lk_sound b \<longleftrightarrow> unat (BlockBaseTarget b) \<le> MaxInt64"

lemma LCB_known:
  assumes E: "env_ok E" "env_live E" and a: "plain a" and lcb: "lk_lcb_ok a (E, l)"
  shows "\<exists>i. LCB E l a = Ok i \<and> HasBlock E l i = Ok True"
proof -
  from lcb obtain g where g: "lk_rep E l g" and c: "gLeash g a = None \<or>
      a \<noteq> all_ones \<and> times_ok g \<and>
      (\<forall>x \<in> nodes g. peers_on g [] (gId g x) \<noteq> {} \<longrightarrow> near g x (node_of g (leash_of g a)))"
    unfolding lk_lcb_ok_def by auto
  show ?thesis
  proof (cases "gLeash g a")
    case None
    then show ?thesis
      using LCB_unleashed [OF E g a] genesis_known [OF g] by (simp add: HasBlock_rep [OF E(2) g])
  next
    case (Some i)
    let ?y = "node_of g i"
    have eq: "leash_of g a = i" using Some by (simp add: leash_of_def)
    have y: "?y \<in> nodes g" "gId g ?y = i" using node_of [OF leash_of_known [OF g, of a]] eq by simp_all
    from LCB_result [OF E g _ y(1), of a] c Some y(2) eq obtain x where
      x: "x \<in> nodes g" "LCB E l a = Ok (gId g (common_ancestor g x ?y))" by auto
    have "common_ancestor g x ?y \<in> nodes g"
      by (rule common_ancestor_node [OF lk_repD(3) [OF g] x(1) y(1)])
    then have "known g (gId g (common_ancestor g x ?y))" by (auto simp: known_def)
    with x show ?thesis by (simp add: HasBlock_rep [OF E(2) g])
  qed
qed


interpretation lk_loader: synced_history linkage_history lk_ok lk_capacity plain lk_score lk_lcb_ok lk_sound
proof (unfold_locales, goal_cases)
  case (1 s a)
  obtain E l where s: "s = (E, l)" by (cases s)
  from 1(1) s obtain g where E: "env_ok E" "env_live E" and g: "lk_rep E l g" by (auto simp: lk_ok_def)
  have "node_of g (leash_of g a) \<in> nodes g" using node_of [OF leash_of_known [OF g, of a]] by blast
  from score_Some [OF lk_repD(6) [OF g] this] show ?case
    by (simp add: s lk_score_def LeashScore_rep [OF E g 1(2)])
next
  case (2 s a)
  then show ?case
    using LCB_known [of "fst s" a "snd s"] by (cases s) (simp add: lk_ok_def linkage_history_simps)
next
  case (3 s a b s' r)
  obtain E l where s: "s = (E, l)" by (cases s)
  from 3(1) s obtain g where E: "env_ok E" "env_live E" and g: "lk_rep E l g" by (auto simp: lk_ok_def)
  have "room g" using 3(3) s lk_capacity_rep [OF g] by (simp add: room_def)
  note ref = PutBlock_refines [OF E g 3(2) this, of b]
  have "g_put_block E (lnkScheme l) b a g \<noteq> Panic"
    using 3(4) env_liveD(4) [OF E(2), of "lnkScheme l" "GeneratorPublicKey b"]
    by (auto simp: g_put_block_def newBlock_def calculateCumulativeScore_def calculateScore_def
        lk_sound_def Let_def split: option.splits)
  with ref 3(5) show ?case
    by (auto simp: s linkage_history_def lift_lk_def split: res.splits prod.splits)
qed

end
