(* ===== verification/LoaderSpec.thy ===== *)
theory LoaderSpec
  imports SyncedHistory
begin

text \<open>
  The loader over any provider of the contract \<open>synced_history\<close>: what it decides when a peer
  loader reports, and that no input makes it panic.
\<close>

section \<open>The decision to go on\<close>

text \<open>The rest of the loader after \<open>OK\<close> for a peer that broadcasts score \<open>p\<close> and is leashed at score \<open>s\<close>.\<close>

definition goes_on :: "loader \<Rightarrow> int \<Rightarrow> int \<Rightarrow> bool" where
  "goes_on r p s \<longleftrightarrow> p > s \<and> ldPrevDiff r \<noteq> Some (p - s)"

definition going_on :: "addr \<Rightarrow> int \<Rightarrow> int \<Rightarrow> loader \<Rightarrow> loader" where
  "going_on a p s r = r\<lparr>ldFails := fc_reset a (ldFails r), ldPrevDiff := Some (p - s), ldTicker := True\<rparr>"

definition released :: "addr \<Rightarrow> loader \<Rightarrow> loader" where
  "released a r = r\<lparr>ldFails := fc_reset a (ldFails r), ldActive := False, ldPrevDiff := None\<rparr>"

lemma ld_OK_decides:
  assumes "ldActive (plRep w)" "smState w = stateIdle" "ldPeerScore (plRep w) (plPeer w) = Ok (Some p)"
    and "leashScore (plPeer w) (plHp w) = Ok (Some s)"
  shows "ld_OK leashScore w =
    (if goes_on (plRep w) p s
     then (w\<lparr>plRep := going_on (plPeer w) p s (plRep w), smPending := smPending w @ [(eventStart, NoArg)]\<rparr>, Ok ())
     else (w\<lparr>plRep := released (plPeer w) (plRep w)\<rparr>, Ok ()))"
  using assms
  by (cases "ldPrevDiff (plRep w)")
     (auto simp: ld_OK_def on_loader_def isLagging_def Let_def continueSync_nested_def fire_nested_def
       goes_on_def going_on_def released_def resetLoadingPeer_def)

lemma ld_reporter_simps [simp]:
  "repOK (ld_reporter ls) = ld_OK ls" "repFail (ld_reporter ls) = ld_Fail"
  by (simp_all add: ld_reporter_def)

lemma ld_Fail_counts:
  "ldActive (plRep w) \<Longrightarrow> smState w = stateDone \<Longrightarrow>
    ld_Fail w = (w\<lparr>plRep := (plRep w)\<lparr>ldFails := fc_inc (plPeer w) (ldFails (plRep w)), ldActive := False\<rparr>\<rparr>, Ok ())"
  by (simp add: ld_Fail_def on_loader_def)

section \<open>The final state\<close>

text \<open>Several rounds of the loop.\<close>

fun ld_run ::
  "('h, loader, 'id) pl_fire \<Rightarrow> ('h, 'id) history \<Rightarrow> (addr \<Rightarrow> 'h \<Rightarrow> int option res) \<Rightarrow>
    'id ld_input list \<Rightarrow> ('h, 'id) ld_action" where
  "ld_run F hp ls [] = return_act ()"
| "ld_run F hp ls (i # is) = bind_act (ld_step F hp ls i) (\<lambda>_. ld_run F hp ls is)"

text \<open>A peer loader in the final state that the loader still holds is held for ever.\<close>

lemma done_ignores:
  assumes "stateless_ok F" "smPending w = []" "smState w = stateDone" "e \<noteq> eventQueueReady"
  shows "F (plConfig hp rep) (e, arg) w = (w, Ok ())"
  by (rule fire_ignored [OF assms(1,2)]) (use assms(3,4) in \<open>simp add: plReaction_done\<close>)

lemma done_step:
  assumes "stateless_ok F" "smPending w = []" "smState w = stateDone" "ldActive (plRep w)"
  shows "\<exists>t. ld_step F hp ls inp w = (on_loader (\<lambda>r. r\<lparr>ldTicker := t\<rparr>) w, Ok ())"
proof -
  have same: "on_loader (\<lambda>r. r\<lparr>ldTicker := ldTicker (plRep w)\<rparr>) w = w" by (simp add: on_loader_def)
  note ig = done_ignores [OF assms(1-3)]
  have "ld_step F hp ls inp w = (w, Ok ()) \<or> ld_step F hp ls inp w = (on_loader (\<lambda>r. r\<lparr>ldTicker := True\<rparr>) w, Ok ())"
    using assms(4) by (cases inp)
      (simp_all add: handleIDs_def handleBlock_def ld_tick_def ld_sync_def log_error_def bind_act_def
        processIDs_def processBlock_def processTick_def ig)
  with same show ?thesis by metis
qed

lemma done_run:
  assumes "stateless_ok F"
  shows "smPending w = [] \<Longrightarrow> smState w = stateDone \<Longrightarrow> ldActive (plRep w) \<Longrightarrow>
    \<exists>t. ld_run F hp ls is w = (on_loader (\<lambda>r. r\<lparr>ldTicker := t\<rparr>) w, Ok ())"
proof (induction "is" arbitrary: w)
  case Nil
  then show ?case by (intro exI [of _ "ldTicker (plRep w)"]) (simp add: return_act_def on_loader_def)
next
  case (Cons i "is")
  from done_step [OF assms Cons.prems] obtain t where
    t: "ld_step F hp ls i w = (on_loader (\<lambda>r. r\<lparr>ldTicker := t\<rparr>) w, Ok ())" by blast
  from Cons.IH [of "on_loader (\<lambda>r. r\<lparr>ldTicker := t\<rparr>) w"] Cons.prems t show ?case
    by (simp add: bind_act_def on_loader_def)
qed

section \<open>Nothing panics\<close>

text \<open>
  What the registry answers, \<open>A\<close>, does not change while the loader works: a connection that has a score in the list of connections has one
  when it is looked up, and so has the peer the loader works on.
\<close>

type_synonym answers = "(addr \<Rightarrow> int option res) \<times> (addr \<times> int option) list res"

definition answers_ok :: "(addr \<Rightarrow> bool) \<Rightarrow> answers \<Rightarrow> loader \<Rightarrow> bool" where
  "answers_ok valid A r \<longleftrightarrow>
     (ldPeerScore r, ldConnections r) = A \<and>
     (\<forall>a. valid a \<longrightarrow> ldPeerScore r a \<noteq> Panic) \<and> ldConnections r \<noteq> Panic \<and>
     (\<forall>cs. ldConnections r = Ok cs \<longrightarrow>
        (\<forall>c \<in> set cs. valid (fst c) \<and> (snd c \<noteq> None \<longrightarrow> (\<exists>s. ldPeerScore r (fst c) = Ok (Some s)))))"

definition registry_ok :: "(addr \<Rightarrow> bool) \<Rightarrow> answers \<Rightarrow> addr \<Rightarrow> loader \<Rightarrow> bool" where
  "registry_ok valid A a r \<longleftrightarrow> answers_ok valid A r \<and> (ldActive r \<longrightarrow> (\<exists>s. ldPeerScore r a = Ok (Some s)))"

definition queue_sound :: "('id proto_block \<Rightarrow> bool) \<Rightarrow> 'id queue \<Rightarrow> bool" where
  "queue_sound sound q \<longleftrightarrow> (\<forall>it \<in> set q. \<forall>b. received it = Some b \<longrightarrow> sound b)"

lemma queue_sound_new [simp]: "queue_sound P (newQueue ids)" "queue_sound P []"
  by (auto simp: queue_sound_def newQueue_def)

lemma queue_sound_put:
  assumes "queue_sound P q" "\<forall>b. blk = Some b \<longrightarrow> P b"
  shows "queue_sound P (put blk q)"
proof -
  have "P b \<Longrightarrow> queue_sound P q \<Longrightarrow> queue_sound P (put_first b q)" for b
    by (induction q) (auto simp: queue_sound_def)
  with assms show ?thesis by (simp add: put_def split: option.split)
qed

lemma queue_sound_blocks:
  "queue_sound P q \<Longrightarrow> \<forall>it \<in> set q'. it \<in> set q \<and> item_ok it \<Longrightarrow> \<forall>b \<in> set (blocks_of q'). P b"
  by (force simp: queue_sound_def blocks_of_def item_ok_def split: option.splits)

lemma length_blocks_of [simp]: "length (blocks_of q) = length q"
  by (simp add: blocks_of_def)

lemma registry_ok_simps [simp]:
  "registry_ok v A a (r\<lparr>ldFails := x\<rparr>) = registry_ok v A a r" "registry_ok v A a (r\<lparr>ldPrevDiff := d\<rparr>) = registry_ok v A a r"
  "registry_ok v A a (r\<lparr>ldTicker := t\<rparr>) = registry_ok v A a r" "registry_ok v A a (going_on b p s r) = registry_ok v A a r"
  "registry_ok v A a (r\<lparr>ldActive := False\<rparr>) = answers_ok v A r" "registry_ok v A a (released b r) = answers_ok v A r"
  "answers_ok v A (r\<lparr>ldFails := x\<rparr>) = answers_ok v A r" "answers_ok v A (r\<lparr>ldActive := b'\<rparr>) = answers_ok v A r"
  by (simp_all add: registry_ok_def answers_ok_def going_on_def released_def)

lemma registry_okD: "registry_ok v A a r \<Longrightarrow> answers_ok v A r"
  by (simp add: registry_ok_def)

definition world_ok ::
  "('h \<Rightarrow> bool) \<Rightarrow> (addr \<Rightarrow> bool) \<Rightarrow> ('id proto_block \<Rightarrow> bool) \<Rightarrow> answers \<Rightarrow> ('h, 'id) world \<Rightarrow> bool" where
  "world_ok ok valid sound A w \<longleftrightarrow>
     ok (plHp w) \<and> valid (plPeer w) \<and> smPending w = [] \<and> queue_sound sound (plQueue w) \<and>
     registry_ok valid A (plPeer w) (plRep w)"

text \<open>What the loader receives: sound blocks, and a random number below the bound it asks for.\<close>

fun input_ok :: "('id proto_block \<Rightarrow> bool) \<Rightarrow> 'id ld_input \<Rightarrow> bool" where
  "input_ok sound (InBlock a b) = (\<forall>c. b = Some c \<longrightarrow> sound c)"
| "input_ok sound (InTimer pick) = (\<forall>n > 0. pick n < n)"
| "input_ok sound _ = True"

text \<open>The triggers the methods of the peer loader fire, each with its argument.\<close>

fun method_trigger :: "('id proto_block \<Rightarrow> bool) \<Rightarrow> 'id trigger \<Rightarrow> bool" where
  "method_trigger sound (e, NoArg) = (e = eventStart \<or> e = eventRestart)"
| "method_trigger sound (e, ArgIDs ids) = (e = eventIDs)"
| "method_trigger sound (e, ArgBlock b) = (e = eventBlock \<and> (\<forall>c. b = Some c \<longrightarrow> sound c))"
| "method_trigger sound (e, ArgTime tm) = (e = eventTick)"

text \<open>A connection whose broadcast score is above the score of its leash.\<close>

definition lags :: "(addr \<Rightarrow> 'h \<Rightarrow> int option res) \<Rightarrow> 'h \<Rightarrow> addr \<times> int option \<Rightarrow> bool" where
  "lags leashScore s c \<longleftrightarrow> (\<exists>p x. snd c = Some p \<and> leashScore (fst c) s = Ok (Some x) \<and> p > x)"

text \<open>The blocks a peer sends, handled one after another.\<close>

fun feed ::
  "('h, 'r, 'id) pl_fire \<Rightarrow> ('h, 'id) history \<Rightarrow> ('h, 'r, 'id) reporter \<Rightarrow> 'id proto_block list \<Rightarrow> ('h, 'r, 'id) pl_action"
where
  "feed F hp rep [] = return_act ()"
| "feed F hp rep (b # bs) = bind_act (processBlock F hp rep (Some b)) (\<lambda>_. feed F hp rep bs)"

context synced_history
begin

lemma put_all_no_panic:
  "ok s \<Longrightarrow> valid a \<Longrightarrow> length bs \<le> capacity s \<Longrightarrow> \<forall>b \<in> set bs. sound b \<Longrightarrow>
    put_all hp bs a s = (s', r) \<Longrightarrow> r \<noteq> Panic"
proof (induction bs arbitrary: s)
  case (Cons b bs)
  obtain s1 r1 where p: "hpPutBlock hp b a s = (s1, r1)" by (cases "hpPutBlock hp b a s")
  have cap: "0 < capacity s" using Cons.prems(3) by simp
  note o = put_ok [OF Cons.prems(1,2) cap p]
  have "r1 \<noteq> Panic" using put_no_panic [OF Cons.prems(1,2) cap _ p] Cons.prems(4) by simp
  with Cons.prems Cons.IH [of s1] o p show ?case by (cases r1) (auto simp: bind_act_def)
qed (auto simp: return_act_def)

text \<open>Applying the blocks of a part of the queue.\<close>

lemma put_blocks:
  assumes w: "world_ok ok valid sound A w" and cap: "length (plQueue w) \<le> capacity (plHp w)"
    and q: "\<forall>it \<in> set q. it \<in> set (plQueue w) \<and> item_ok it" "length q \<le> length (plQueue w)"
  shows "\<exists>s' r. put_all hp (blocks_of q) (plPeer w) (plHp w) = (s', r) \<and> ok s' \<and> r \<noteq> Panic"
proof -
  obtain s' r where p: "put_all hp (blocks_of q) (plPeer w) (plHp w) = (s', r)"
    by (cases "put_all hp (blocks_of q) (plPeer w) (plHp w)")
  have w': "ok (plHp w)" "valid (plPeer w)" "queue_sound sound (plQueue w)"
    using w by (simp_all add: world_ok_def)
  have len: "length (blocks_of q) \<le> capacity (plHp w)" using cap q(2) by simp
  note all = queue_sound_blocks [OF w'(3) q(1)]
  from put_all_ok [OF w'(1,2) len p] put_all_no_panic [OF w'(1,2) len all p] p show ?thesis by blast
qed

lemma requestIDsFromLCA_sends:
  assumes "ok (plHp w)" "valid (plPeer w)" "lcb_ok (plPeer w) (plHp w)"
  shows "\<exists>i ids. hpLCB hp (plPeer w) (plHp w) = Ok i \<and> hpLastIDs hp i 100 (plHp w) = Ok (i # ids) \<and>
    length (i # ids) \<le> 100 \<and> (\<forall>j \<in> set (i # ids). hp_has hp (plHp w) j) \<and>
    requestIDsFromLCA hp w = (w\<lparr>plSent := plSent w @ [ReqBlockIDs (i # ids)], plTimestamp := Some (plNow w)\<rparr>, Ok ())"
proof -
  obtain i where i: "hpLCB hp (plPeer w) (plHp w) = Ok i" "hpHasBlock hp i (plHp w) = Ok True"
    using lcb_known [OF assms] by blast
  obtain ids where ids: "hpLastIDs hp i idsBatchSize (plHp w) = Ok (i # ids)"
    "length (i # ids) \<le> nat idsBatchSize" "\<forall>j \<in> set ids. hpHasBlock hp j (plHp w) = Ok True"
    using last_ids [OF assms(1) i(2), of idsBatchSize] by (auto simp: idsBatchSize_def)
  have "requestIDsFromLCA hp w = (w\<lparr>plSent := plSent w @ [ReqBlockIDs (i # ids)], plTimestamp := Some (plNow w)\<rparr>, Ok ())"
    by (simp add: requestIDsFromLCA_def pl_act_simps i ids RequestBlockIDs_def)
  then show ?thesis using i ids by (auto simp: hp_has_def idsBatchSize_def)
qed

lemma restart_result:
  assumes "stateless_ok F" "smPending w = []" "smState w = stateIdle" "ok (plHp w)" "valid (plPeer w)"
    and "lcb_ok (plPeer w) (plHp w)"
  shows "\<exists>i ids. hpLCB hp (plPeer w) (plHp w) = Ok i \<and> hpLastIDs hp i 100 (plHp w) = Ok (i # ids) \<and>
    length (i # ids) \<le> 100 \<and> (\<forall>j \<in> set (i # ids). hp_has hp (plHp w) j) \<and>
    pl_restart F hp rep w = (w\<lparr>smState := stateWaitingForIDs,
      plSent := plSent w @ [ReqBlockIDs (i # ids)], plTimestamp := Some (plNow w)\<rparr>, Ok ())"
proof -
  obtain i ids where r: "hpLCB hp (plPeer w) (plHp w) = Ok i" "hpLastIDs hp i 100 (plHp w) = Ok (i # ids)"
    "length (i # ids) \<le> 100" "\<forall>j \<in> set (i # ids). hp_has hp (plHp w) j"
    "requestIDsFromLCA hp (w\<lparr>smState := stateWaitingForIDs\<rparr>) = (w\<lparr>smState := stateWaitingForIDs,
      plSent := plSent w @ [ReqBlockIDs (i # ids)], plTimestamp := Some (plNow w)\<rparr>, Ok ())"
    using requestIDsFromLCA_sends [of "w\<lparr>smState := stateWaitingForIDs\<rparr>"] assms(4-6) by auto
  have "pl_restart F hp rep w = (w\<lparr>smState := stateWaitingForIDs,
      plSent := plSent w @ [ReqBlockIDs (i # ids)], plTimestamp := Some (plNow w)\<rparr>, Ok ())"
    unfolding pl_restart_def
    by (rule fire_transition [OF assms(1,2), where s = stateWaitingForIDs]) (simp_all add: assms(2,3) r(5))
  with r show ?thesis by blast
qed


text \<open>The calls of the peer loader, in any state of the machine.\<close>

definition safe :: "answers \<Rightarrow> ('h, 'id) world \<times> unit res \<Rightarrow> bool" where
  "safe A x \<longleftrightarrow> world_ok ok valid sound A (fst x) \<and> snd x \<noteq> Panic"

lemma start_safe:
  assumes "stateless_ok F" "world_ok ok valid sound A w"
  shows "safe A (pl_start F hp rep w)"
proof (cases "smState w = stateIdle")
  case True
  from assms(2) have "smPending w = []" "ok (plHp w)" "valid (plPeer w)" by (simp_all add: world_ok_def)
  from start_result [OF assms(1) this(1) True this(2,3), of rep] show ?thesis
    using assms(2) by (auto simp: safe_def world_ok_def)
next
  case False
  then have "plReaction (smState w) eventStart = Ignore" by (cases "smState w") simp_all
  with fire_ignored [OF assms(1), of w "(eventStart, NoArg)"] assms(2) show ?thesis
    by (simp add: safe_def pl_start_def world_ok_def)
qed

lemma restart_safe:
  assumes "stateless_ok F" "world_ok ok valid sound A w" "lcb_ok (plPeer w) (plHp w)"
  shows "safe A (pl_restart F hp rep w)"
proof (cases "smState w = stateIdle")
  case True
  from assms(2) have "smPending w = []" "ok (plHp w)" "valid (plPeer w)" by (simp_all add: world_ok_def)
  from restart_result [OF assms(1) this(1) True this(2,3) assms(3), of rep] show ?thesis
    using assms(2) by (auto simp: safe_def world_ok_def)
next
  case False
  then have "plReaction (smState w) eventRestart = Ignore" by (cases "smState w") simp_all
  with fire_ignored [OF assms(1), of w "(eventRestart, NoArg)"] assms(2) show ?thesis
    by (simp add: safe_def pl_restart_def world_ok_def)
qed

text \<open>\<open>QueueReady\<close>: the loader decides, and a second trigger may start the machine again.\<close>

lemma ld_OK_cases:
  assumes "world_ok ok valid sound A w" "smState w = stateIdle"
  shows "\<exists>r pend. ld_OK leashScore w = (w\<lparr>plRep := r, smPending := pend\<rparr>, Ok ()) \<and> registry_ok valid A (plPeer w) r \<and>
    (pend = [] \<or> pend = [(eventStart, NoArg)])"
proof (cases "ldActive (plRep w)")
  case False
  then have "ld_OK leashScore w = (w\<lparr>plRep := plRep w, smPending := []\<rparr>, Ok ())"
    using assms by (simp add: ld_OK_def world_ok_def)
  moreover have "registry_ok valid A (plPeer w) (plRep w)" using assms(1) by (simp add: world_ok_def)
  ultimately show ?thesis by blast
next
  case True
  from assms(1) have w: "ok (plHp w)" "valid (plPeer w)" "smPending w = []" "registry_ok valid A (plPeer w) (plRep w)"
    by (simp_all add: world_ok_def)
  obtain s where s: "leashScore (plPeer w) (plHp w) = Ok (Some s)" using leash_score [OF w(1,2)] by blast
  show ?thesis
  proof (cases "ldPeerScore (plRep w) (plPeer w)")
    case (Ok po)
    then obtain p where "ldPeerScore (plRep w) (plPeer w) = Ok (Some p)"
      using w(4) True by (cases po) (auto simp: registry_ok_def)
    note d = ld_OK_decides [of w, OF True assms(2) this, of leashScore, OF s]
    show ?thesis
    proof (cases "goes_on (plRep w) p s")
      case True
      with d w(3) have "ld_OK leashScore w = (w\<lparr>plRep := going_on (plPeer w) p s (plRep w),
          smPending := [(eventStart, NoArg)]\<rparr>, Ok ())" by simp
      moreover have "registry_ok valid A (plPeer w) (going_on (plPeer w) p s (plRep w))" using w(4) by simp
      ultimately show ?thesis by blast
    next
      case False
      with d w(3) have "ld_OK leashScore w = (w\<lparr>plRep := released (plPeer w) (plRep w), smPending := []\<rparr>, Ok ())"
        by simp
      moreover have "registry_ok valid A (plPeer w) (released (plPeer w) (plRep w))" using registry_okD [OF w(4)] by simp
      ultimately show ?thesis by blast
    qed
  next
    case (Err e)
    with True assms(2) have "ld_OK leashScore w =
        (w\<lparr>plRep := (plRep w)\<lparr>ldFails := fc_reset (plPeer w) (ldFails (plRep w))\<rparr>, smPending := []\<rparr>, Ok ())"
      using w(3) by (simp add: ld_OK_def on_loader_def Let_def)
    moreover have "registry_ok valid A (plPeer w) ((plRep w)\<lparr>ldFails := fc_reset (plPeer w) (ldFails (plRep w))\<rparr>)"
      using w(4) by simp
    ultimately show ?thesis by blast
  next
    case Panic
    then show ?thesis using w(2,4) by (simp add: registry_ok_def answers_ok_def)
  qed
qed

lemma ready_safe:
  assumes p: "smPending w = [(eventQueueReady, NoArg)]" and s: "smState w = stateWaitingForBlocks"
    and w: "world_ok ok valid sound A (w\<lparr>smPending := []\<rparr>)"
  shows "\<exists>w'. completes (plConfig hp (ld_reporter leashScore)) w (w', Ok ()) \<and> world_ok ok valid sound A w'"
proof -
  let ?w = "w\<lparr>smPending := [], smState := stateIdle\<rparr>"
  have "world_ok ok valid sound A ?w" using w by (simp add: world_ok_def)
  from ld_OK_cases [OF this] obtain r pend where
    r: "ld_OK leashScore ?w = (?w\<lparr>plRep := r, smPending := pend\<rparr>, Ok ())" "registry_ok valid A (plPeer w) r"
    and c: "pend = [] \<or> pend = [(eventStart, NoArg)]" by auto
  let ?w1 = "?w\<lparr>plRep := r, smPending := pend\<rparr>"
  from c show ?thesis
  proof
    assume "pend = []"
    then have "world_ok ok valid sound A ?w1" using w r(2) by (simp add: world_ok_def)
    moreover have "completes (plConfig hp (ld_reporter leashScore)) w (?w1, Ok ())"
      by (rule completes_ready [OF p s]) (use r(1) \<open>pend = []\<close> in simp_all)
    ultimately show ?thesis by blast
  next
    assume pend: "pend = [(eventStart, NoArg)]"
    let ?w2 = "?w1\<lparr>smPending := [], smState := stateWaitingForIDs\<rparr>"
    from w have "ok (plHp ?w2)" "valid (plPeer ?w2)" by (simp_all add: world_ok_def)
    from requestIDs_sends [OF this] obtain ids where
      q: "requestIDs hp ?w2 = (?w2\<lparr>plSent := plSent ?w2 @ [ReqBlockIDs ids], plTimestamp := Some (plNow ?w2)\<rparr>, Ok ())"
      by blast
    have "completes (plConfig hp (ld_reporter leashScore)) w
        (?w2\<lparr>plSent := plSent ?w2 @ [ReqBlockIDs ids], plTimestamp := Some (plNow ?w2)\<rparr>, Ok ())"
      by (rule completes_ready_start [OF p s, where ?w1.0 = ?w1]) (use r(1) q pend in simp_all)
    moreover have "world_ok ok valid sound A (?w2\<lparr>plSent := plSent ?w2 @ [ReqBlockIDs ids], plTimestamp := Some (plNow ?w2)\<rparr>)"
      using w r(2) by (simp add: world_ok_def)
    ultimately show ?thesis by blast
  qed
qed


text \<open>The final state: the received prefix of the queue is applied.\<close>

lemma ld_Fail_safe: "world_ok ok valid sound A w \<Longrightarrow> safe A (ld_Fail w)"
  by (auto simp: ld_Fail_def safe_def on_loader_def world_ok_def dest: registry_okD)

lemma failure_safe:
  assumes w: "world_ok ok valid sound A w" and cap: "length (plQueue w) \<le> capacity (plHp w)"
  shows "safe A (handleFailure hp (ld_reporter leashScore) w)"
proof -
  let ?q = "takeWhile item_ok (plQueue w)"
  have "\<forall>it \<in> set ?q. it \<in> set (plQueue w) \<and> item_ok it" by (auto dest: set_takeWhileD)
  from put_blocks [OF w cap this length_takeWhile_le] obtain s' r where
    p: "put_all hp (blocks_of ?q) (plPeer w) (plHp w) = (s', r)" "ok s'" "r \<noteq> Panic" by blast
  have "world_ok ok valid sound A (w\<lparr>plHp := s'\<rparr>)" using w p(2) by (simp add: world_ok_def)
  with ld_Fail_safe [OF this] p show ?thesis
    by (cases r) (simp_all add: handleFailure_result safe_def)
qed

lemma tick_safe:
  assumes F: "stateless_ok F" and w: "world_ok ok valid sound A w" and cap: "length (plQueue w) \<le> capacity (plHp w)"
  shows "safe A (processTick F hp (ld_reporter leashScore) tm w)"
proof -
  have pend: "smPending w = []" using w by (simp add: world_ok_def)
  consider "\<not> late tm w" | "smState w \<notin> {stateWaitingForIDs, stateWaitingForBlocks}"
    | "late tm w" "smState w \<in> {stateWaitingForIDs, stateWaitingForBlocks}" by blast
  then show ?thesis
  proof cases
    case 1
    with processTick_in_time [OF F pend] w show ?thesis by (simp add: safe_def)
  next
    case 2
    then have "plReaction (smState w) eventTick = Ignore" by (cases "smState w") simp_all
    with fire_ignored [OF F pend, of "(eventTick, ArgTime tm)"] w show ?thesis
      by (simp add: safe_def processTick_def)
  next
    case 3
    obtain w' r where h: "handleFailure hp (ld_reporter leashScore) (w\<lparr>smState := stateDone\<rparr>) = (w', r)"
      by fastforce
    have "world_ok ok valid sound A (w\<lparr>smState := stateDone\<rparr>)" using w by (simp add: world_ok_def)
    from failure_safe [OF this] cap h have s: "world_ok ok valid sound A w'" "r \<noteq> Panic" by (simp_all add: safe_def)
    then have "smPending w' = []" by (simp add: world_ok_def)
    from processTick_late [OF F pend 3(2,1) h this] s show ?thesis by (simp add: safe_def)
  qed
qed

lemma ids_safe:
  assumes F: "stateless_ok F" and w: "world_ok ok valid sound A w"
  shows "safe A (processIDs F hp (ld_reporter leashScore) ids w)"
proof -
  from w have u: "smPending w = []" "ok (plHp w)" "valid (plPeer w)" "queue_sound sound (plQueue w)"
    "registry_ok valid A (plPeer w) (plRep w)" by (simp_all add: world_ok_def)
  show ?thesis
  proof (cases "smState w = stateWaitingForIDs")
    case False
    then have "plReaction (smState w) eventIDs = Ignore" by (cases "smState w") simp_all
    with fire_ignored [OF F u(1), of "(eventIDs, ArgIDs ids)"] w show ?thesis
      by (simp add: safe_def processIDs_def)
  next
    case st: True
    show ?thesis
    proof (cases "dropWhile (hp_has hp (plHp w)) ids")
      case (Cons i req)
      from processIDs_unknown [OF F u(1) st u(2,3) this, of "ld_reporter leashScore"] u show ?thesis
        by (auto simp: safe_def world_ok_def)
    next
      case Nil
      then have "\<forall>i \<in> set ids. hp_has hp (plHp w) i" by (simp add: dropWhile_eq_Nil_conv)
      from processIDs_known [OF F u(1) st u(2,3) this, of "ld_reporter leashScore"] obtain s' where s': "ok s'"
        and c: "\<And>w' r. completes (plConfig hp (ld_reporter leashScore)) (w\<lparr>smState := stateWaitingForBlocks,
            plHp := s', smPending := [(eventQueueReady, NoArg)]\<rparr>) (w', r) \<Longrightarrow>
          processIDs F hp (ld_reporter leashScore) ids w = (w', r)" by blast
      let ?w = "w\<lparr>smState := stateWaitingForBlocks, plHp := s', smPending := [(eventQueueReady, NoArg)]\<rparr>"
      have "world_ok ok valid sound A (?w\<lparr>smPending := []\<rparr>)" using u s' by (simp add: world_ok_def)
      from ready_safe [OF _ _ this] obtain w' where
        "completes (plConfig hp (ld_reporter leashScore)) ?w (w', Ok ())" "world_ok ok valid sound A w'" by auto
      with c show ?thesis by (simp add: safe_def)
    qed
  qed
qed

lemma block_safe:
  assumes F: "stateless_ok F" and w: "world_ok ok valid sound A w" and cap: "length (plQueue w) \<le> capacity (plHp w)"
    and b: "\<forall>c. b = Some c \<longrightarrow> sound c"
  shows "safe A (processBlock F hp (ld_reporter leashScore) b w)"
proof -
  from w have u: "smPending w = []" "ok (plHp w)" "valid (plPeer w)" "queue_sound sound (plQueue w)"
    "registry_ok valid A (plPeer w) (plRep w)" by (simp_all add: world_ok_def)
  let ?q = "put b (plQueue w)"
  have w1: "world_ok ok valid sound A (w\<lparr>plQueue := ?q\<rparr>)" using w queue_sound_put [OF u(4) b] by (simp add: world_ok_def)
  show ?thesis
  proof (cases "smState w = stateWaitingForBlocks")
    case False
    then have "plReaction (smState w) eventBlock = Ignore" by (cases "smState w") simp_all
    with fire_ignored [OF F u(1), of "(eventBlock, ArgBlock b)"] w show ?thesis
      by (simp add: safe_def processBlock_def)
  next
    case st: True
    show ?thesis
    proof (cases "ready ?q")
      case False
      with processBlock_incomplete [OF F u(1) st] w1 show ?thesis by (simp add: safe_def)
    next
      case True
      then have "\<forall>it \<in> set ?q. it \<in> set ?q \<and> item_ok it" by (simp add: ready_iff)
      with put_blocks [OF w1, of ?q] cap obtain s' r where
        p: "put_all hp (blocks_of ?q) (plPeer w) (plHp w) = (s', r)" "ok s'" "r \<noteq> Panic" by auto
      let ?w = "w\<lparr>plQueue := ?q, plHp := s', smPending := [(eventQueueReady, NoArg)]\<rparr>"
      have w2: "world_ok ok valid sound A (?w\<lparr>smPending := []\<rparr>)" using w1 p(2) by (simp add: world_ok_def)
      show ?thesis
      proof (cases r)
        case (Err e)
        with processBlock_error [OF F u(1) st True] p w2 u(1) show ?thesis
          by (simp add: safe_def world_ok_def)
      next
        case (Ok x)
        with p have p': "put_all hp (blocks_of ?q) (plPeer w) (plHp w) = (s', Ok ())" by simp
        from ready_safe [OF _ _ w2] st obtain w' where
          "completes (plConfig hp (ld_reporter leashScore)) ?w (w', Ok ())" "world_ok ok valid sound A w'" by auto
        with processBlock_complete [OF F u(1) st True p'] show ?thesis by (simp add: safe_def)
      qed (use p in simp)
    qed
  qed
qed


text \<open>The loader logs the errors of the peer loader, so its events always return.\<close>

text \<open>
  So a chain of triggers that starts with a method ends: the interpreter \<^term>\<open>run_fire\<close> returns,
  with \<^term>\<open>demo_fire\<close> a panic would stand for the chain that does not.
\<close>

lemma trigger_safe:
  assumes F: "stateless_ok F" and w: "world_ok ok valid sound A w" and cap: "length (plQueue w) \<le> capacity (plHp w)"
    and lcb: "lcb_ok (plPeer w) (plHp w)" and t: "method_trigger sound t"
  shows "safe A (F (plConfig hp (ld_reporter leashScore)) t w)"
  using t start_safe [OF F w, of "ld_reporter leashScore"] restart_safe [OF F w lcb, of "ld_reporter leashScore"]
    ids_safe [OF F w] block_safe [OF F w cap] tick_safe [OF F w cap]
  by (cases "(sound, t)" rule: method_trigger.cases)
     (auto simp: pl_start_def pl_restart_def processIDs_def processBlock_def processTick_def)

lemma trigger_chain_ends:
  assumes "world_ok ok valid sound A w" "length (plQueue w) \<le> capacity (plHp w)"
    and "lcb_ok (plPeer w) (plHp w)" "method_trigger sound t"
  shows "\<exists>w' r. run_fire (plConfig hp (ld_reporter leashScore)) (w\<lparr>smPending := [t]\<rparr>) = Some (w', r) \<and>
    r \<noteq> Panic \<and> world_ok ok valid sound A w'"
  using trigger_safe [OF demo_fire_ok assms] by (auto simp: demo_fire_def safe_def split: option.splits)

lemma log_error_safe: "safe A (m w) \<Longrightarrow> \<exists>w'. log_error m w = (w', Ok ()) \<and> world_ok ok valid sound A w'"
  by (cases "m w"; cases "snd (m w)") (auto simp: log_error_def safe_def)

lemma ticker_ok [simp]: "world_ok ok valid sound A (on_loader (\<lambda>r. r\<lparr>ldTicker := t\<rparr>) w) = world_ok ok valid sound A w"
  by (simp add: world_ok_def on_loader_def)

lemma continueSync_safe:
  assumes "stateless_ok F" "world_ok ok valid sound A w"
  shows "\<exists>w'. continueSync F hp leashScore w = (w', Ok ()) \<and> world_ok ok valid sound A w'"
  unfolding continueSync_def by (rule log_error_safe, rule start_safe [OF assms(1)]) (simp add: assms(2))

lemma restartSync_safe:
  assumes "stateless_ok F" "world_ok ok valid sound A w" "lcb_ok (plPeer w) (plHp w)"
  shows "\<exists>w'. restartSync F hp leashScore w = (w', Ok ()) \<and> world_ok ok valid sound A w'"
  unfolding restartSync_def
  by (rule log_error_safe, rule restart_safe [OF assms(1)])
     (use assms(2,3) in \<open>simp_all add: world_ok_def on_loader_def\<close>)

lemma laggingLoop_filter:
  "ok s \<Longrightarrow> \<forall>c \<in> set cs. valid (fst c) \<Longrightarrow>
    laggingLoop leashScore s cs = Ok (map fst (filter (lags leashScore s) cs))"
proof (induction cs)
  case (Cons c cs)
  obtain a po where c: "c = (a, po)" by (cases c)
  from leash_score [OF Cons.prems(1), of a] Cons.prems(2) obtain x where "leashScore a s = Ok (Some x)"
    by (auto simp: c)
  with Cons show ?case by (cases po) (auto simp: c lags_def)
qed simp

lemma sync_safe:
  assumes F: "stateless_ok F" and w: "world_ok ok valid sound A w" and pick: "\<And>n. 0 < n \<Longrightarrow> pick n < n"
    and lcb: "\<And>a. valid a \<Longrightarrow> lcb_ok a (plHp w)"
  shows "\<exists>w'. ld_sync F hp leashScore pick w = (w', Ok ()) \<and> world_ok ok valid sound A w'"
proof -
  from w have u: "ok (plHp w)" "answers_ok valid A (plRep w)"
    by (auto simp: world_ok_def dest: registry_okD)
  have idle: "ld_sync F hp leashScore pick w = (w, Ok ()) \<Longrightarrow> ?thesis" using w by blast
  show ?thesis
  proof (cases "ldActive (plRep w)")
    case True
    then show ?thesis by (intro idle) (simp add: ld_sync_def)
  next
    case inactive: False
    show ?thesis
    proof (cases "ldConnections (plRep w)")
      case (Ok cs)
      with u have v: "\<forall>c \<in> set cs. valid (fst c)" by (simp add: answers_ok_def)
      let ?l = "map fst (filter (lags leashScore (plHp w)) cs)"
      note loop = laggingLoop_filter [OF u(1) v]
      show ?thesis
      proof (cases "cs = [] \<or> ?l = []")
        case True
        then show ?thesis using inactive Ok loop by (intro idle) (auto simp: ld_sync_def)
      next
        case False
        then have "0 < length ?l" by simp
        from pick [OF this] have "?l ! pick (length ?l) \<in> set ?l" by (rule nth_mem)
        then obtain c where c: "c \<in> set cs" "lags leashScore (plHp w) c" "?l ! pick (length ?l) = fst c" by auto
        then have a: "valid (?l ! pick (length ?l))" "\<exists>s. ldPeerScore (plRep w) (?l ! pick (length ?l)) = Ok (Some s)"
          using Ok u(2) by (auto simp: answers_ok_def lags_def)
        define v :: "('h, 'id) world" where "v = newPeerLoader (?l ! pick (length ?l)) (plHp w) ((plRep w)\<lparr>ldActive := True\<rparr>) (plNow w)"
        have ok: "world_ok ok valid sound A v" using a u by (simp add: world_ok_def newPeerLoader_def v_def registry_ok_def)
        have eq: "ld_sync F hp leashScore pick w =
          (if fc_count (plPeer v) (ldFails (plRep v)) \<ge> restartThreshold
           then bind_act (restartSync F hp leashScore) (\<lambda>_. continueSync F hp leashScore) v
           else continueSync F hp leashScore v)"
          using inactive Ok False loop by (simp add: ld_sync_def Let_def newPeerLoader_def v_def)
        have "lcb_ok (plPeer v) (plHp v)" using lcb [OF a(1)] by (simp add: newPeerLoader_def v_def)
        from restartSync_safe [OF F ok this] obtain w1 where
          r: "restartSync F hp leashScore v = (w1, Ok ())" "world_ok ok valid sound A w1" by blast
        show ?thesis
          using continueSync_safe [OF F r(2)] continueSync_safe [OF F ok] r(1)
          by (simp add: eq bind_act_def)
      qed
    next
      case (Err e)
      with inactive show ?thesis by (intro idle) (simp add: ld_sync_def)
    next
      case Panic
      with u show ?thesis by (simp add: answers_ok_def)
    qed
  qed
qed

lemma ld_step_safe:
  assumes F: "stateless_ok F" and w: "world_ok ok valid sound A w" and cap: "length (plQueue w) \<le> capacity (plHp w)"
    and lcb: "\<And>a. valid a \<Longrightarrow> lcb_ok a (plHp w)" and inp: "input_ok sound inp"
  shows "\<exists>w'. ld_step F hp leashScore inp w = (w', Ok ()) \<and> world_ok ok valid sound A w'"
proof (cases inp)
  case (InIDs a ids)
  have "\<exists>w'. log_error (processIDs F hp (ld_reporter leashScore) ids) w = (w', Ok ()) \<and> world_ok ok valid sound A w'"
    by (rule log_error_safe, rule ids_safe [OF F w])
  with w InIDs show ?thesis by (simp add: handleIDs_def)
next
  case (InBlock a b)
  then have "\<forall>c. b = Some c \<longrightarrow> sound c" using inp by simp
  then have "\<exists>w'. log_error (processBlock F hp (ld_reporter leashScore) b) w = (w', Ok ()) \<and> world_ok ok valid sound A w'"
    by (intro log_error_safe block_safe [OF F w cap]) simp
  with w InBlock show ?thesis by (simp add: handleBlock_def)
next
  case InTick
  have "\<exists>w'. ld_tick F hp leashScore w = (w', Ok ()) \<and> world_ok ok valid sound A w'"
    using log_error_safe [where m = "processTick F hp (ld_reporter leashScore) (plNow w)" and w = w] tick_safe [OF F w cap] w
    by (simp add: ld_tick_def)
  then obtain w' where "ld_tick F hp leashScore w = (w', Ok ())" "world_ok ok valid sound A w'" by blast
  then show ?thesis using InTick by (simp add: bind_act_def)
next
  case (InTimer pick)
  with sync_safe [OF F w _ lcb, of pick] inp show ?thesis by simp
qed


section \<open>A loading session\<close>

text \<open>What follows when the last requested block was applied.\<close>

lemma ready_outcome:
  assumes p: "smPending w = [(eventQueueReady, NoArg)]" and st: "smState w = stateWaitingForBlocks"
    and act: "ldActive (plRep w)" and ok: "ok (plHp w)" "valid (plPeer w)"
    and P: "ldPeerScore (plRep w) (plPeer w) = Ok (Some p)" and S: "leashScore (plPeer w) (plHp w) = Ok (Some s)"
  shows "\<exists>w'. completes (plConfig hp (ld_reporter leashScore)) w (w', Ok ()) \<and>
    (if goes_on (plRep w) p s
     then \<exists>i ids. hpLeash hp (plPeer w) (plHp w) = Ok i \<and>
       w' = w\<lparr>plRep := going_on (plPeer w) p s (plRep w), smPending := [], smState := stateWaitingForIDs,
         plSent := plSent w @ [ReqBlockIDs (i # ids)], plTimestamp := Some (plNow w)\<rparr>
     else w' = w\<lparr>smPending := [], smState := stateIdle, plRep := released (plPeer w) (plRep w)\<rparr>)"
proof -
  let ?w = "w\<lparr>smPending := [], smState := stateIdle\<rparr>"
  have d: "ld_OK leashScore ?w =
    (if goes_on (plRep w) p s
     then (?w\<lparr>plRep := going_on (plPeer w) p s (plRep w), smPending := [(eventStart, NoArg)]\<rparr>, Ok ())
     else (?w\<lparr>plRep := released (plPeer w) (plRep w)\<rparr>, Ok ()))"
    by (subst ld_OK_decides [where p = p and s = s]) (use act P S in simp_all)
  show ?thesis
  proof (cases "goes_on (plRep w) p s")
    case False
    have "completes (plConfig hp (ld_reporter leashScore)) w
        (?w\<lparr>plRep := released (plPeer w) (plRep w)\<rparr>, Ok ())"
      by (rule completes_ready [OF p st]) (use d False in simp_all)
    with False show ?thesis by auto
  next
    case True
    let ?w1 = "?w\<lparr>plRep := going_on (plPeer w) p s (plRep w), smPending := [(eventStart, NoArg)]\<rparr>"
    let ?w2 = "?w1\<lparr>smPending := [], smState := stateWaitingForIDs\<rparr>"
    from ok have "ok (plHp ?w2)" "valid (plPeer ?w2)" by simp_all
    from requestIDs_sends [OF this] obtain i ids where i: "hpLeash hp (plPeer w) (plHp w) = Ok i"
      and q: "requestIDs hp ?w2 = (?w2\<lparr>plSent := plSent ?w2 @ [ReqBlockIDs (i # ids)], plTimestamp := Some (plNow ?w2)\<rparr>, Ok ())"
      by auto
    have "completes (plConfig hp (ld_reporter leashScore)) w
        (?w2\<lparr>plSent := plSent ?w2 @ [ReqBlockIDs (i # ids)], plTimestamp := Some (plNow ?w2)\<rparr>, Ok ())"
      by (rule completes_ready_start [OF p st, where ?w1.0 = ?w1]) (use d True q in simp_all)
    with True i show ?thesis by auto
  qed
qed

text \<open>The blocks a peer sends, one after another.\<close>

lemma feed_incomplete:
  assumes F: "stateless_ok F" and w: "smPending w = []" "smState w = stateWaitingForBlocks"
    and q: "plQueue w = fold (\<lambda>b. put (Some b)) cs (newQueue ids)" and n: "\<not> set ids \<subseteq> BlockID ` set (cs @ bs)"
  shows "feed F hp rep bs w = (w\<lparr>plQueue := fold (\<lambda>b. put (Some b)) (cs @ bs) (newQueue ids)\<rparr>, Ok ())"
  using w q n
proof (induction bs arbitrary: w cs)
  case (Cons b bs)
  have "\<not> ready (put (Some b) (plQueue w))"
    using Cons.prems(3,4) ready_needs_all [of "cs @ [b]" ids] by auto
  from processBlock_incomplete [OF F Cons.prems(1,2) this]
  have "feed F hp rep (b # bs) w = feed F hp rep bs (w\<lparr>plQueue := put (Some b) (plQueue w)\<rparr>)"
    by (simp add: bind_act_def)
  with Cons.IH [of "w\<lparr>plQueue := put (Some b) (plQueue w)\<rparr>" "cs @ [b]"] Cons.prems show ?case by simp
qed (simp add: return_act_def)

lemma feed_append:
  "feed F hp rep (bs @ [b]) w = bind_act (feed F hp rep bs) (\<lambda>_. processBlock F hp rep (Some b)) w"
proof (induction bs arbitrary: w)
  case Nil
  show ?case by (auto simp: bind_act_def return_act_def split: prod.split res.split)
next
  case (Cons c bs)
  then show ?case by (auto simp: bind_act_def split: prod.split res.split)
qed


lemma session_complete:
  fixes w :: "('h, 'id) world"
  assumes F: "stateless_ok F" and w: "smPending w = []" "smState w = stateWaitingForBlocks" "ldActive (plRep w)"
    and ok: "ok (plHp w)" "valid (plPeer w)" "length ids \<le> capacity (plHp w)"
    and q: "plQueue w = newQueue ids" "distinct ids" "ids \<noteq> []"
    and all: "set ids \<subseteq> BlockID ` set (bs @ [b])" and last: "\<not> set ids \<subseteq> BlockID ` set bs"
    and put: "put_all hp (blocks_of (fold (\<lambda>b. put (Some b)) (bs @ [b]) (newQueue ids))) (plPeer w) (plHp w) = (s', Ok ())"
    and P: "ldPeerScore (plRep w) (plPeer w) = Ok (Some p)"
  shows "\<exists>w' s. feed F hp (ld_reporter leashScore) (bs @ [b]) w = (w', Ok ()) \<and> plHp w' = s' \<and>
    (\<forall>i \<in> set ids. hp_has hp s' i) \<and> hpLeash hp (plPeer w) s' = Ok (List.last ids) \<and>
    leashScore (plPeer w) s' = Ok (Some s) \<and>
    (if goes_on (plRep w) p s
     then smState w' = stateWaitingForIDs \<and> plRep w' = going_on (plPeer w) p s (plRep w) \<and>
       (\<exists>more. plSent w' = plSent w @ [ReqBlockIDs (List.last ids # more)])
     else smState w' = stateIdle \<and> plRep w' = released (plPeer w) (plRep w) \<and> plSent w' = plSent w)"
proof -
  let ?q = "fold (\<lambda>b. put (Some b)) (bs @ [b]) (newQueue ids)"
  let ?w1 = "w\<lparr>plQueue := fold (\<lambda>b. put (Some b)) bs (newQueue ids)\<rparr>"
  have f: "feed F hp (ld_reporter leashScore) bs w = (?w1, Ok ())"
    using feed_incomplete [OF F w(1,2), of "[]" ids bs] q(1) last by simp
  have req: "map requested ?q = ids" by (simp only: requested_puts requested_new)
  have rdy: "ready ?q" by (rule ready_after_puts [OF q(2) all])
  note bl = ready_blocks [OF rdy, unfolded req]
  have ne: "blocks_of ?q \<noteq> []" using bl q(3) by auto
  have len: "length (blocks_of ?q) \<le> capacity (plHp w)" using ok(3) bl by (metis length_map)
  have ok': "ok s'" using put_all_ok [OF ok(1,2) len put] by blast
  note P_all = put_all_Ok [OF ok(1,2) len put ne]
  have "BlockID (List.last (blocks_of ?q)) = List.last ids" using last_map [OF ne, of BlockID] bl by simp
  with P_all have leash: "hpLeash hp (plPeer w) s' = Ok (List.last ids)" by simp
  have "set ids = BlockID ` set (blocks_of ?q)" using arg_cong [OF bl, of set] by simp
  with P_all have known: "\<forall>i \<in> set ids. hp_has hp s' i" unfolding hp_has_def by simp
  obtain s where S: "leashScore (plPeer w) s' = Ok (Some s)" using leash_score [OF ok' ok(2)] by blast
  let ?w2 = "?w1\<lparr>plQueue := ?q, plHp := s', smPending := [(eventQueueReady, NoArg)]\<rparr>"
  let ?on = "\<lambda>more. ?w2\<lparr>plRep := going_on (plPeer w) p s (plRep w), smPending := [], smState := stateWaitingForIDs,
      plSent := plSent w @ [ReqBlockIDs (List.last ids # more)], plTimestamp := Some (plNow w)\<rparr>"
  let ?off = "?w2\<lparr>smPending := [], smState := stateIdle, plRep := released (plPeer w) (plRep w)\<rparr>"
  have "\<exists>w'. completes (plConfig hp (ld_reporter leashScore)) ?w2 (w', Ok ()) \<and>
    (if goes_on (plRep ?w2) p s
     then \<exists>i ids. hpLeash hp (plPeer ?w2) (plHp ?w2) = Ok i \<and>
       w' = ?w2\<lparr>plRep := going_on (plPeer ?w2) p s (plRep ?w2), smPending := [], smState := stateWaitingForIDs,
         plSent := plSent ?w2 @ [ReqBlockIDs (i # ids)], plTimestamp := Some (plNow ?w2)\<rparr>
     else w' = ?w2\<lparr>smPending := [], smState := stateIdle, plRep := released (plPeer ?w2) (plRep ?w2)\<rparr>)"
    by (rule ready_outcome) (use w ok ok' P S in simp_all)
  then obtain w' more where c: "completes (plConfig hp (ld_reporter leashScore)) ?w2 (w', Ok ())"
    and o: "w' = (if goes_on (plRep w) p s then ?on more else ?off)"
    using leash by (cases "goes_on (plRep w) p s") auto
  have "processBlock F hp (ld_reporter leashScore) (Some b) ?w1 = (w', Ok ())"
    by (rule processBlock_complete [OF F, where s' = s']) (use w rdy put c in simp_all)
  with f have "feed F hp (ld_reporter leashScore) (bs @ [b]) w = (w', Ok ())"
    by (simp add: feed_append bind_act_def)
  moreover have "plHp w' = s'" using o by (auto split: if_splits)
  moreover have "if goes_on (plRep w) p s
     then smState w' = stateWaitingForIDs \<and> plRep w' = going_on (plPeer w) p s (plRep w) \<and>
       (\<exists>more. plSent w' = plSent w @ [ReqBlockIDs (List.last ids # more)])
     else smState w' = stateIdle \<and> plRep w' = released (plPeer w) (plRep w) \<and> plSent w' = plSent w"
    using o by (auto split: if_splits)
  ultimately show ?thesis using known leash S by blast
qed


section \<open>Choosing a peer\<close>

text \<open>Below the threshold the peer is asked from its leash on, else from the last common block on.\<close>

lemma continueSync_sends:
  assumes "stateless_ok F" "smPending w = []" "smState w = stateIdle" "ok (plHp w)" "valid (plPeer w)"
  shows "\<exists>i ids. hpLeash hp (plPeer w) (plHp w) = Ok i \<and> hpLastIDs hp i 100 (plHp w) = Ok ids \<and>
    continueSync F hp leashScore w = (w\<lparr>plRep := (plRep w)\<lparr>ldTicker := True\<rparr>, smState := stateWaitingForIDs,
      plSent := plSent w @ [ReqBlockIDs ids], plTimestamp := Some (plNow w)\<rparr>, Ok ())"
  using start_result [OF assms(1), of "on_loader (\<lambda>r. r\<lparr>ldTicker := True\<rparr>) w" "ld_reporter leashScore"] assms(2-5)
  by (auto simp: continueSync_def log_error_def on_loader_def)

lemma restartSync_sends:
  assumes "stateless_ok F" "smPending w = []" "smState w = stateIdle" "ok (plHp w)" "valid (plPeer w)"
    and "lcb_ok (plPeer w) (plHp w)"
  shows "\<exists>i ids. hpLCB hp (plPeer w) (plHp w) = Ok i \<and> hpLastIDs hp i 100 (plHp w) = Ok ids \<and>
    restartSync F hp leashScore w = (w\<lparr>plRep := (plRep w)\<lparr>ldFails := fc_reset (plPeer w) (ldFails (plRep w)),
      ldTicker := True\<rparr>, smState := stateWaitingForIDs,
      plSent := plSent w @ [ReqBlockIDs ids], plTimestamp := Some (plNow w)\<rparr>, Ok ())"
  using restart_result [OF assms(1), of "on_loader (\<lambda>r. r\<lparr>ldFails := fc_reset (plPeer w) (ldFails r),
    ldTicker := True\<rparr>) w" "ld_reporter leashScore"] assms(2-6)
  by (auto simp: restartSync_def log_error_def on_loader_def)

lemma continueSync_waiting:
  assumes "stateless_ok F" "smPending w = []" "smState w = stateWaitingForIDs" "ldTicker (plRep w)"
  shows "continueSync F hp leashScore w = (w, Ok ())"
proof -
  have "on_loader (\<lambda>r. r\<lparr>ldTicker := True\<rparr>) w = w" using assms(4) by (simp add: on_loader_def)
  moreover have "pl_start F hp (ld_reporter leashScore) w = (w, Ok ())"
    unfolding pl_start_def by (rule fire_ignored [OF assms(1,2)]) (simp add: assms(3))
  ultimately show ?thesis by (simp add: continueSync_def log_error_def)
qed

lemma sync_result:
  fixes w :: "('h, 'id) world"
  assumes F: "stateless_ok F" and idle: "\<not> ldActive (plRep w)" and ok: "ok (plHp w)"
    and cs: "ldConnections (plRep w) = Ok cs" "\<forall>c \<in> set cs. valid (fst c)"
    and lag: "filter (lags leashScore (plHp w)) cs \<noteq> []" and pick: "\<And>n. 0 < n \<Longrightarrow> pick n < n"
    and lcb: "\<And>a. valid a \<Longrightarrow> lcb_ok a (plHp w)"
  shows "\<exists>c \<in> set cs. lags leashScore (plHp w) c \<and>
    (let a = fst c; restart = (fc_count a (ldFails (plRep w)) \<ge> restartThreshold) in
     \<exists>i ids. (if restart then hpLCB hp a (plHp w) else hpLeash hp a (plHp w)) = Ok i \<and>
       hpLastIDs hp i 100 (plHp w) = Ok ids \<and>
       ld_sync F hp leashScore pick w =
         ((newPeerLoader a (plHp w) ((plRep w)\<lparr>ldActive := True, ldTicker := True,
             ldFails := (if restart then fc_reset a (ldFails (plRep w)) else ldFails (plRep w))\<rparr>) (plNow w))
           \<lparr>smState := stateWaitingForIDs, plSent := [ReqBlockIDs ids], plTimestamp := Some (plNow w)\<rparr>, Ok ()))"
proof -
  let ?l = "filter (lags leashScore (plHp w)) cs"
  let ?c = "?l ! pick (length ?l)"
  have "0 < length ?l" using lag by simp
  then have less: "pick (length ?l) < length ?l" by (rule pick)
  then have "?c \<in> set ?l" by (rule nth_mem)
  then have c: "?c \<in> set cs" "lags leashScore (plHp w) ?c" "valid (fst ?c)" using cs(2) by auto
  define a where "a = fst ?c"
  define v :: "('h, 'id) world" where "v = newPeerLoader a (plHp w) ((plRep w)\<lparr>ldActive := True\<rparr>) (plNow w)"
  have v: "smPending v = []" "smState v = stateIdle" "plHp v = plHp w" "plPeer v = a" "plSent v = []"
    "plNow v = plNow w" "plRep v = (plRep w)\<lparr>ldActive := True\<rparr>"
    by (simp_all add: v_def newPeerLoader_def)
  have va: "valid a" using c(3) by (simp add: a_def)
  have "map fst ?l ! pick (length (map fst ?l)) = a" using less by (simp add: a_def)
  then have eq: "ld_sync F hp leashScore pick w =
      (if fc_count a (ldFails (plRep w)) \<ge> restartThreshold
       then bind_act (restartSync F hp leashScore) (\<lambda>_. continueSync F hp leashScore) v
       else continueSync F hp leashScore v)"
    using idle cs(1) lag laggingLoop_filter [OF ok cs(2)] c(1)
    by (auto simp: ld_sync_def Let_def v_def newPeerLoader_def)
  have goal: "let a = fst ?c; restart = (fc_count a (ldFails (plRep w)) \<ge> restartThreshold) in
     \<exists>i ids. (if restart then hpLCB hp a (plHp w) else hpLeash hp a (plHp w)) = Ok i \<and>
       hpLastIDs hp i 100 (plHp w) = Ok ids \<and>
       ld_sync F hp leashScore pick w =
         ((newPeerLoader a (plHp w) ((plRep w)\<lparr>ldActive := True, ldTicker := True,
             ldFails := (if restart then fc_reset a (ldFails (plRep w)) else ldFails (plRep w))\<rparr>) (plNow w))
           \<lparr>smState := stateWaitingForIDs, plSent := [ReqBlockIDs ids], plTimestamp := Some (plNow w)\<rparr>, Ok ())"
  proof (cases "fc_count a (ldFails (plRep w)) \<ge> restartThreshold")
    case True
    from restartSync_sends [OF F v(1,2), unfolded v, OF ok va lcb [OF va]] obtain i ids where
      i: "hpLCB hp a (plHp w) = Ok i" "hpLastIDs hp i 100 (plHp w) = Ok ids"
      and r: "restartSync F hp leashScore v = (v\<lparr>plRep := (plRep w)\<lparr>ldActive := True,
          ldFails := fc_reset a (ldFails (plRep w)), ldTicker := True\<rparr>, smState := stateWaitingForIDs,
        plSent := [ReqBlockIDs ids], plTimestamp := Some (plNow w)\<rparr>, Ok ())" by auto
    let ?v = "v\<lparr>plRep := (plRep w)\<lparr>ldActive := True, ldFails := fc_reset a (ldFails (plRep w)), ldTicker := True\<rparr>,
      smState := stateWaitingForIDs, plSent := [ReqBlockIDs ids], plTimestamp := Some (plNow w)\<rparr>"
    have "continueSync F hp leashScore ?v = (?v, Ok ())"
      by (rule continueSync_waiting [OF F]) (simp_all add: v)
    with eq True r have "ld_sync F hp leashScore pick w = (?v, Ok ())" by (simp add: bind_act_def)
    with True i show ?thesis unfolding a_def [symmetric] by (simp add: v_def newPeerLoader_def)
  next
    case False
    from continueSync_sends [OF F v(1,2), unfolded v, OF ok va] obtain i ids where
      i: "hpLeash hp a (plHp w) = Ok i" "hpLastIDs hp i 100 (plHp w) = Ok ids"
      and r: "continueSync F hp leashScore v = (v\<lparr>plRep := (plRep w)\<lparr>ldActive := True, ldTicker := True\<rparr>,
        smState := stateWaitingForIDs, plSent := [ReqBlockIDs ids], plTimestamp := Some (plNow w)\<rparr>, Ok ())" by auto
    with eq False have "ld_sync F hp leashScore pick w = (v\<lparr>plRep := (plRep w)\<lparr>ldActive := True, ldTicker := True\<rparr>,
        smState := stateWaitingForIDs, plSent := [ReqBlockIDs ids], plTimestamp := Some (plNow w)\<rparr>, Ok ())" by simp
    with False i show ?thesis unfolding a_def [symmetric] by (simp add: v_def newPeerLoader_def)
  qed
  with c(1,2) show ?thesis by blast
qed

end

end
