(* ===== verification/LoadingProperties.thy ===== *)
theory LoadingProperties
  imports LoaderSpec Demo
begin

text \<open>
  The properties of package \<open>loading\<close> over the block graph of the \<open>Linkage\<close>: what the loader
  and the peer loader do with it, for any state machine library that behaves as documented,
  each with an example at the block graph of \<open>Demo\<close>.
\<close>

type_synonym ('db, 'id) lk_world = "(('db, 'id) env \<times> ('db, 'id) linkage, 'id) world"

section \<open>The examples\<close>

text \<open>
  The loader works on the third peer, which has no leash yet: it broadcasts the score 72 and
  answers with the known block 4 and the unknown blocks 6 and 7 on it.
\<close>

definition demo_rep :: loader where
  "demo_rep = NewLoader\<lparr>ldActive := True, ldPeerScore := (\<lambda>_. Ok (Some 72)),
     ldConnections := Ok [(peer1, Some 10), (peer2, None), (peer3, Some 72)]\<rparr>"

definition demo_world :: "(mem, demo_id) lk_world" where
  "demo_world = newPeerLoader peer3 (demo_env, demo4) demo_rep 0"

definition demo_waiting :: "(mem, demo_id) lk_world" where
  "demo_waiting = demo_world\<lparr>smState := stateWaitingForIDs, plTimestamp := Some 0\<rparr>"

abbreviation blk6 :: "demo_id proto_block" where "blk6 \<equiv> demo_proto 6 4 6 bt16"
abbreviation blk7 :: "demo_id proto_block" where "blk7 \<equiv> demo_proto 7 6 7 bt16"

definition demo_loading :: "(mem, demo_id) lk_world" where
  "demo_loading = demo_waiting\<lparr>smState := stateWaitingForBlocks, plQueue := newQueue [6, 7]\<rparr>"

lemma demo_world_simps [simp]:
  "smPending demo_world = []" "smState demo_world = stateIdle" "plPeer demo_world = peer3"
  "plHp demo_world = (demo_env, demo4)" "plRep demo_world = demo_rep" "plQueue demo_world = []"
  "plSent demo_world = []" "plNow demo_world = 0"
  by (simp_all add: demo_world_def newPeerLoader_def)

lemma demo_waiting_simps [simp]:
  "smPending demo_waiting = []" "smState demo_waiting = stateWaitingForIDs" "plPeer demo_waiting = peer3"
  "plHp demo_waiting = (demo_env, demo4)" "plRep demo_waiting = demo_rep" "plQueue demo_waiting = []"
  "plSent demo_waiting = []" "plTimestamp demo_waiting = Some 0" "plNow demo_waiting = 0"
  by (simp_all add: demo_waiting_def)

lemma demo_loading_simps [simp]:
  "smPending demo_loading = []" "smState demo_loading = stateWaitingForBlocks" "plPeer demo_loading = peer3"
  "plHp demo_loading = (demo_env, demo4)" "plRep demo_loading = demo_rep" "plQueue demo_loading = newQueue [6, 7]"
  "plSent demo_loading = []" "plTimestamp demo_loading = Some 0" "plNow demo_loading = 0"
  by (simp_all add: demo_loading_def)

lemma demo_rep_simps [simp]:
  "ldActive demo_rep" "ldPeerScore demo_rep a = Ok (Some 72)" "ldPrevDiff demo_rep = None"
  "ldFails demo_rep = Map.empty"
  "ldConnections demo_rep = Ok [(peer1, Some 10), (peer2, None), (peer3, Some 72)]"
  by (simp_all add: demo_rep_def NewLoader_def)

lemma demo_lk_ok [simp]: "lk_ok (demo_env, demo4)"
  using demo_env_ok demo_env_live demo4_rep by (auto simp: lk_ok_def)

lemma demo_capacity [simp]: "lk_capacity (demo_env, demo4) = 4294967290"
  using lk_capacity_rep [OF demo4_rep] by simp

lemma demo_has [simp]: "hp_has linkage_history (demo_env, demo4) i \<longleftrightarrow> i \<in> {1, 2, 3, 4, 5}"
  by (simp add: hp_has_def linkage_history_simps HasBlock_rep [OF demo_env_live demo4_rep])

text \<open>The two blocks are put on the graph one after the other.\<close>

definition demo_g5 :: "demo_id graph" where
  "demo_g5 = g_leash peer3 6 (g_add 4 4 6 (demo_stored 4 6 56 6 (id_bytes demo_env 4)) demo_g4)"
definition demo_g6 :: "demo_id graph" where
  "demo_g6 = g_leash peer3 7 (g_add 6 6 7 (demo_stored 5 7 72 7 (id_bytes demo_env 6)) demo_g5)"
definition demo5 :: "(mem, demo_id) linkage" where "demo5 = fst (PutBlock demo_env blk6 peer3 demo4)"
definition demo6 :: "(mem, demo_id) linkage" where "demo6 = fst (PutBlock demo_env blk7 peer3 demo5)"

lemma lnkScheme_demo4: "lnkScheme demo4 = 87"
proof -
  have "lnkScheme (fst (PutMicroBlock E mb a l)) = lnkScheme l" for E :: "(mem, demo_id) env" and mb a l
    by (auto simp: PutMicroBlock_def read_st_def write_st_def act_simps writes_def bind_act_def reads_def
        bind_res_eq_Ok fail_act_def split: res.split prod.split)
  with demo3_rep(2) show ?thesis by (simp add: demo4_def)
qed


lemma demo5_rep: "lk_rep demo_env demo5 demo_g5" "lnkScheme demo5 = 87"
  "PutBlock demo_env blk6 peer3 demo4 = (demo5, Ok ())"
proof -
  have "g_put_block demo_env 87 blk6 peer3 demo_g4 = Ok demo_g5"
    by (simp add: g_put_block_def Let_def demo_g5_def)
  note st = demo_step [OF demo4_rep lnkScheme_demo4 demo_peers(3) demo_room this]
  show "lk_rep demo_env demo5 demo_g5" "lnkScheme demo5 = 87" using st(1,2) by (simp_all add: demo5_def)
  show "PutBlock demo_env blk6 peer3 demo4 = (demo5, Ok ())"
    using st(3) by (simp add: demo5_def prod_eq_iff)
qed

lemma demo_upt_more:
  "[Suc 0..<7] = [1, 2, 3, 4, 5, 6]" "[Suc 0..<8] = [1, 2, 3, 4, 5, 6, 7]"
  by (simp_all add: upt_rec eval_nat_numeral)

lemma demo_g5_simps [simp]:
  "gSize demo_g5 = 6" "nodes demo_g5 = {1, 2, 3, 4, 5, 6}" "gId demo_g5 = (gId demo_g4)(6 := 6)"
  "gBlk demo_g5 6 = demo_stored 4 6 56 6 (id_bytes demo_env 4)" "node_of demo_g5 6 = 6"
  "known demo_g5 i \<longleftrightarrow> i \<in> {1, 2, 3, 4, 5, 6}"
proof -
  show s: "gSize demo_g5 = 6" by (simp add: demo_g5_def)
  show n: "nodes demo_g5 = {1, 2, 3, 4, 5, 6}" by (simp add: nodes_upt s upt_rec_numeral) auto
  show i: "gId demo_g5 = (gId demo_g4)(6 := 6)" by (simp add: demo_g5_def eval_nat_numeral)
  show "gBlk demo_g5 6 = demo_stored 4 6 56 6 (id_bytes demo_env 4)"
    by (simp add: demo_g5_def eval_nat_numeral)
  show "node_of demo_g5 6 = 6" by (simp add: node_of_def s i demo_upt_more)
  show "known demo_g5 i \<longleftrightarrow> i \<in> {1, 2, 3, 4, 5, 6}" by (simp add: known_def n i)
qed

lemma demo6_rep: "lk_rep demo_env demo6 demo_g6" "PutBlock demo_env blk7 peer3 demo5 = (demo6, Ok ())"
proof -
  have r: "room demo_g5" by (simp add: room_def)
  have "g_put_block demo_env 87 blk7 peer3 demo_g5 = Ok demo_g6"
    by (simp add: g_put_block_def Let_def demo_g6_def)
  note st = demo_step [OF demo5_rep(1,2) demo_peers(3) r this]
  show "lk_rep demo_env demo6 demo_g6" using st(1) by (simp add: demo6_def)
  show "PutBlock demo_env blk7 peer3 demo5 = (demo6, Ok ())"
    using st(3) by (simp add: demo6_def prod_eq_iff)
qed

lemma demo_put_all [simp]:
  "put_all linkage_history [blk6, blk7] peer3 (demo_env, demo4) = ((demo_env, demo6), Ok ())"
  "put_all linkage_history [blk6] peer3 (demo_env, demo4) = ((demo_env, demo5), Ok ())"
  by (simp_all add: linkage_history_def lift_lk_def demo5_rep(3) demo6_rep(2) bind_act_def return_act_def)

lemma demo_score_peer3: "lk_score peer3 (demo_env, demo6) = Ok (Some 72)"
proof -
  have l: "leash_of demo_g6 peer3 = 7" by (simp add: demo_g6_def leash_of_def)
  have s: "gSize demo_g6 = 7" by (simp add: demo_g6_def)
  have i: "gId demo_g6 = (gId demo_g5)(7 := 7)" by (simp add: demo_g6_def eval_nat_numeral)
  have "node_of demo_g6 7 = 7" by (simp add: node_of_def s i demo_upt_more)
  moreover have "gBlk demo_g6 7 = demo_stored 5 7 72 7 (id_bytes demo_env 6)"
    by (simp add: demo_g6_def eval_nat_numeral)
  ultimately show ?thesis
    using LeashScore_rep [OF demo_env_ok demo_env_live demo6_rep(1), of peer3] l
    by (simp add: lk_score_def)
qed

lemma demo_score_demo4:
  "lk_score peer1 (demo_env, demo4) = Ok (Some 48)" "lk_score peer3 (demo_env, demo4) = Ok (Some 16)"
  using LeashScore_rep [OF demo_env_ok demo_env_live demo4_rep, of peer1]
    LeashScore_rep [OF demo_env_ok demo_env_live demo4_rep, of peer3]
  by (simp_all add: lk_score_def leash_of_def)


section \<open>Safety\<close>

text \<open>C13: Whatever the loader receives, it handles it without a panic and keeps its invariant: the
  block graph stays well formed, no trigger is left queued, the queued blocks stay acceptable, and by
  what the registry answers (A) the peer it works on has a score. The graph must have room for the
  queue, and the block a restart begins at must be computable.\<close>

theorem loader_never_panics:
  fixes w :: "('db, 'id) lk_world"
  assumes "stateless_ok F" and "world_ok lk_ok plain lk_sound A w" and "length (plQueue w) \<le> lk_capacity (plHp w)"
    and "\<And>a. plain a \<Longrightarrow> lk_lcb_ok a (plHp w)" and "input_ok lk_sound inp"
  shows "\<exists>w'. ld_step F linkage_history lk_score inp w = (w', Ok ()) \<and> world_ok lk_ok plain lk_sound A w'"
  by (rule lk_loader.ld_step_safe [OF assms])

definition demo_answers :: answers where
  "demo_answers = (ldPeerScore demo_rep, ldConnections demo_rep)"

lemma demo_world_ok [simp]:
  "world_ok lk_ok plain lk_sound demo_answers demo_world" "world_ok lk_ok plain lk_sound demo_answers demo_waiting"
  "world_ok lk_ok plain lk_sound demo_answers demo_loading"
  by (simp_all add: world_ok_def registry_ok_def answers_ok_def demo_answers_def)

lemma demo_lcb_ok: "lk_lcb_ok a (demo_env, demo4)"
proof (cases "gLeash demo_g4 a")
  case None
  then show ?thesis unfolding lk_lcb_ok_def using demo4_rep by auto
next
  case (Some i)
  then have a: "a \<noteq> all_ones" "i = 5 \<or> i = 4" by (auto split: if_splits)
  have "near demo_g4 x (node_of demo_g4 i)" if "x \<in> nodes demo_g4" "peers_on demo_g4 [] (gId demo_g4 x) \<noteq> {}" for x
    by (rule demo_near [OF that(1) _ that(2)]) (use a(2) in auto)
  moreover have "leash_of demo_g4 a = i" using Some by (simp add: leash_of_def)
  ultimately have "a \<noteq> all_ones \<and> times_ok demo_g4 \<and>
    (\<forall>x \<in> nodes demo_g4. peers_on demo_g4 [] (gId demo_g4 x) \<noteq> {} \<longrightarrow>
       near demo_g4 x (node_of demo_g4 (leash_of demo_g4 a)))"
    using a(1) demo_times by blast
  with demo4_rep show ?thesis unfolding lk_lcb_ok_def fst_conv snd_conv by blast
qed

theorem loader_never_panics_witness:
  "\<exists>w'. ld_step demo_fire linkage_history lk_score (InBlock peer3 (Some blk6)) demo_loading = (w', Ok ()) \<and>
    world_ok lk_ok plain lk_sound demo_answers w'"
proof -
  have "length (plQueue demo_loading) \<le> lk_capacity (plHp demo_loading)" by (simp add: newQueue_def)
  from loader_never_panics [OF demo_fire_ok demo_world_ok(3) this, of "InBlock peer3 (Some blk6)"] show ?thesis
    by (simp add: demo_lcb_ok lk_sound_def MaxInt64_def)
qed

text \<open>C14: A call of the peer loader returns: the triggers its actions fire one after another, those the
  loader fires from its report included, run out. Whatever state the machine is in, interpreting them
  ends without a panic, with no trigger left and the invariant of the loader kept.\<close>

theorem trigger_chains_end:
  fixes w :: "('db, 'id) lk_world"
  assumes "world_ok lk_ok plain lk_sound A w" and "length (plQueue w) \<le> lk_capacity (plHp w)"
    and "lk_lcb_ok (plPeer w) (plHp w)" and "method_trigger lk_sound t"
  shows "\<exists>w' r. run_fire (plConfig linkage_history (ld_reporter lk_score)) (w\<lparr>smPending := [t]\<rparr>) = Some (w', r) \<and>
    r \<noteq> Panic \<and> world_ok lk_ok plain lk_sound A w'"
  by (rule lk_loader.trigger_chain_ends [OF assms])

theorem trigger_chains_end_witness:
  "\<exists>w' r. run_fire (plConfig linkage_history (ld_reporter lk_score))
      (demo_loading\<lparr>smPending := [(eventBlock, ArgBlock (Some blk6))]\<rparr>) = Some (w', r) \<and>
    r \<noteq> Panic \<and> world_ok lk_ok plain lk_sound demo_answers w'"
proof -
  have "length (plQueue demo_loading) \<le> lk_capacity (plHp demo_loading)" by (simp add: newQueue_def)
  moreover have "lk_lcb_ok (plPeer demo_loading) (plHp demo_loading)" by (simp add: demo_lcb_ok)
  ultimately show ?thesis
    by (rule trigger_chains_end [OF demo_world_ok(3)]) (simp add: lk_sound_def MaxInt64_def)
qed

section \<open>Asking for IDs\<close>

text \<open>Starting the peer loader asks the peer for the IDs that follow the last known ones: it sends
  the IDs of the leash of the peer (the genesis block without one) and of its ancestors, at most 100,
  the leash first, notes the time and waits for IDs.\<close>

theorem start_requests:
  fixes w :: "('db, 'id) lk_world"
  assumes "stateless_ok F" and "smPending w = []" and "smState w = stateIdle"
    and "plHp w = (E, l)" and "env_ok E" and "env_live E" and "lk_rep E l g" and "plain (plPeer w)"
  shows "pl_start F linkage_history rep w =
    (w\<lparr>smState := stateWaitingForIDs,
       plSent := plSent w @ [ReqBlockIDs (map (gId g) (chain g 100 (node_of g (leash_of g (plPeer w)))))],
       plTimestamp := Some (plNow w)\<rparr>, Ok ())"
proof -
  have ok: "lk_ok (plHp w)" using assms(4-7) by (auto simp: lk_ok_def)
  from lk_history.start_result [OF assms(1-3) ok assms(8)] obtain i ids where
    r: "LeashOf E l (plPeer w) = Ok i" "LastIDs E l i 100 = Ok (i # ids)"
    "pl_start F linkage_history rep w = (w\<lparr>smState := stateWaitingForIDs,
      plSent := plSent w @ [ReqBlockIDs (i # ids)], plTimestamp := Some (plNow w)\<rparr>, Ok ())"
    unfolding assms(4) linkage_history_simps by blast
  have "i = leash_of g (plPeer w)" using r(1) LeashOf_rep [OF assms(5-8)] by simp
  with r(2) LastIDs_rep [OF assms(5-7) leash_of_known [OF assms(7)], of 100 "plPeer w"]
  have "i # ids = map (gId g) (chain g 100 (node_of g (leash_of g (plPeer w))))" by simp
  with r(3) show ?thesis by simp
qed

lemma chain_numeral:
  "chain g (numeral k) n = n # (if n = 1 then [] else chain g (pred_numeral k) (gPar g n))"
  by (simp only: numeral_eq_Suc chain.simps)

theorem start_requests_witness:
  "plSent (fst (pl_start demo_fire linkage_history (ld_reporter lk_score) (demo_world\<lparr>plPeer := peer1\<rparr>))) =
    [ReqBlockIDs [5, 2, 1]]"
proof -
  have "leash_of demo_g4 peer1 = 5" by (simp add: leash_of_def)
  moreover have "chain demo_g4 100 5 = [5, 2, 1]"
    by (simp add: chain_numeral)
  ultimately show ?thesis
    using start_requests [OF demo_fire_ok _ _ _ demo_env_ok demo_env_live demo4_rep,
        of "demo_world\<lparr>plPeer := peer1\<rparr>" "ld_reporter lk_score"] by simp
qed


section \<open>The answer of the peer\<close>

text \<open>C18: An answer with an unknown ID makes the peer loader request exactly the IDs from the first
  unknown one on, in their order, and queue them; before that the leash of the peer is moved to the
  last of the known IDs, the leashes of other peers and the blocks stay as they are.\<close>

theorem processIDs_requests:
  fixes w :: "('db, 'id) lk_world"
  assumes "stateless_ok F" and "smPending w = []" and "smState w = stateWaitingForIDs"
    and "lk_ok (plHp w)" and "plain (plPeer w)"
    and "dropWhile (hp_has linkage_history (plHp w)) ids = i # req"
  shows "\<exists>s'. processIDs F linkage_history rep ids w =
      (w\<lparr>smState := stateWaitingForBlocks, plHp := s', plQueue := newQueue (i # req),
         plSent := plSent w @ map ReqBlock (i # req), plTimestamp := Some (plNow w)\<rparr>, Ok ()) \<and>
    lk_ok s' \<and> (\<forall>j. hp_has linkage_history s' j = hp_has linkage_history (plHp w) j) \<and>
    hpLeash linkage_history (plPeer w) s' =
      (if takeWhile (hp_has linkage_history (plHp w)) ids = [] then hpLeash linkage_history (plPeer w) (plHp w)
       else Ok (last (takeWhile (hp_has linkage_history (plHp w)) ids))) \<and>
    (\<forall>b. plain b \<and> b \<noteq> plPeer w \<longrightarrow> hpLeash linkage_history b s' = hpLeash linkage_history b (plHp w))"
  using lk_history.processIDs_unknown [OF assms(1-6)] by blast

theorem processIDs_requests_witness:
  "\<exists>w'. processIDs demo_fire linkage_history (ld_reporter lk_score) [2, 4, 6, 7] demo_waiting = (w', Ok ()) \<and>
    plSent w' = [ReqBlock 6, ReqBlock 7] \<and> hpLeash linkage_history peer3 (plHp w') = Ok 4 \<and>
    hpLeash linkage_history peer1 (plHp w') = Ok 5"
proof -
  have d: "dropWhile (hp_has linkage_history (plHp demo_waiting)) [2, 4, 6, 7] = 6 # [7]"
    "takeWhile (hp_has linkage_history (plHp demo_waiting)) [2, 4, 6, 7] = [2, 4]" by simp_all
  have l: "hpLeash linkage_history peer1 (demo_env, demo4) = Ok 5"
    using LeashOf_rep [OF demo_env_ok demo_env_live demo4_rep demo_peers(1)]
    by (simp add: linkage_history_simps leash_of_def)
  from processIDs_requests [OF demo_fire_ok _ _ _ _ d(1), of "ld_reporter lk_score"] obtain s' where
    "processIDs demo_fire linkage_history (ld_reporter lk_score) [2, 4, 6, 7] demo_waiting =
      (demo_waiting\<lparr>smState := stateWaitingForBlocks, plHp := s', plQueue := newQueue [6, 7],
         plSent := [ReqBlock 6, ReqBlock 7], plTimestamp := Some 0\<rparr>, Ok ())"
    "hpLeash linkage_history peer3 s' = Ok 4"
    "\<forall>b. plain b \<and> b \<noteq> peer3 \<longrightarrow> hpLeash linkage_history b s' = hpLeash linkage_history b (demo_env, demo4)"
    unfolding d(2) by auto
  with l show ?thesis by simp
qed

section \<open>The blocks of the peer\<close>

text \<open>C20: Blocks may arrive in any order, be repeated or not be requested at all: for distinct
  requested IDs the queue is ready exactly when every requested block has arrived, and then its
  blocks are the requested ones in the requested order.\<close>

theorem queue_ready_iff:
  fixes bs :: "'id proto_block list"
  assumes "distinct ids"
  shows "(ready (fold (\<lambda>b. put (Some b)) bs (newQueue ids)) \<longleftrightarrow> set ids \<subseteq> BlockID ` set bs) \<and>
    (ready (fold (\<lambda>b. put (Some b)) bs (newQueue ids)) \<longrightarrow>
       map BlockID (blocks_of (fold (\<lambda>b. put (Some b)) bs (newQueue ids))) = ids)"
proof (intro conjI impI)
  show "ready (fold (\<lambda>b. put (Some b)) bs (newQueue ids)) \<longleftrightarrow> set ids \<subseteq> BlockID ` set bs"
    using ready_after_puts [OF assms] ready_needs_all by blast
  show "map BlockID (blocks_of (fold (\<lambda>b. put (Some b)) bs (newQueue ids))) = ids"
    if "ready (fold (\<lambda>b. put (Some b)) bs (newQueue ids))"
    using ready_blocks [OF that] by simp
qed

theorem queue_ready_iff_witness:
  "ready (fold (\<lambda>b. put (Some b)) [blk7, demo_proto 9 9 9 bt16, blk7, blk6] (newQueue [6, 7])) \<and>
   \<not> ready (fold (\<lambda>b. put (Some b)) [blk7, blk7] (newQueue [6, 7 :: demo_id]))"
  using queue_ready_iff [of "[6, 7 :: demo_id]" "[blk7, demo_proto 9 9 9 bt16, blk7, blk6]"]
    queue_ready_iff [of "[6, 7 :: demo_id]" "[blk7, blk7]"]
  by simp




section \<open>Timeouts\<close>



text \<open>C17: If a block of the received prefix cannot be put when the time is over, the failure is never
  reported: the loader keeps the peer loader, which has reached its final state, and from then on
  ignores everything it receives, whatever it is, so it never synchronises with any peer again.\<close>

theorem failed_timeout_blocks_loader:
  fixes w :: "('db, 'id) lk_world"
  assumes "stateless_ok F" and "smPending w = []" and "smState w \<in> {stateWaitingForIDs, stateWaitingForBlocks}"
    and "ldActive (plRep w)" and "late (plNow w) w"
    and "put_all linkage_history (blocks_of (takeWhile item_ok (plQueue w))) (plPeer w) (plHp w) = (s', Err e)"
  shows "\<exists>t. ld_run F linkage_history lk_score (InTick # inps) w =
    (w\<lparr>smState := stateDone, plHp := s', plRep := (plRep w)\<lparr>ldTicker := t\<rparr>\<rparr>, Ok ())"
proof -
  let ?w = "w\<lparr>smState := stateDone, plHp := s'\<rparr>"
  have tick: "processTick F linkage_history (ld_reporter lk_score) (plNow w) w = (?w, Err e)"
    by (rule lk_history.processTick_late [OF assms(1-3,5)])
       (use assms(2,6) in \<open>simp_all add: lk_history.handleFailure_result\<close>)
  let ?w1 = "on_loader (\<lambda>r. r\<lparr>ldTicker := True\<rparr>) ?w"
  have "ld_step F linkage_history lk_score InTick w = (?w1, Ok ())"
    using assms(4) tick by (simp add: ld_tick_def log_error_def bind_act_def)
  moreover obtain t where "ld_run F linkage_history lk_score inps ?w1 = (on_loader (\<lambda>r. r\<lparr>ldTicker := t\<rparr>) ?w1, Ok ())"
    using done_run [OF assms(1), of ?w1 linkage_history lk_score inps] assms(2,4) by (auto simp: on_loader_def)
  ultimately show ?thesis by (auto simp: bind_act_def on_loader_def)
qed

theorem failed_timeout_blocks_loader_witness:
  "\<exists>t. ld_run demo_fire linkage_history lk_score [InTick, InTimer (\<lambda>_. 0), InIDs peer3 [6]]
      (demo_loading\<lparr>plQueue := put (Some (demo_proto 6 9 6 bt16)) (newQueue [6, 7]), plNow := 30000000001\<rparr>) =
    (demo_loading\<lparr>plQueue := put (Some (demo_proto 6 9 6 bt16)) (newQueue [6, 7]), plNow := 30000000001,
       smState := stateDone, plRep := demo_rep\<lparr>ldTicker := t\<rparr>\<rparr>, Ok ())"
proof -
  let ?w = "demo_loading\<lparr>plQueue := put (Some (demo_proto 6 9 6 bt16)) (newQueue [6, 7]), plNow := 30000000001\<rparr>"
  have q: "blocks_of (takeWhile item_ok (plQueue ?w)) = [demo_proto 6 9 6 bt16]"
    by (simp add: newQueue_def put_def blocks_of_def item_ok_def)
  have "g_put_block demo_env (lnkScheme demo4) (demo_proto 6 9 6 bt16) peer3 demo_g4 = Err ErrParentNotFound"
    by (simp add: g_put_block_def)
  then have "PutBlock demo_env (demo_proto 6 9 6 bt16) peer3 demo4 = (demo4, Err ErrParentNotFound)"
    using PutBlock_refines [OF demo_env_ok demo_env_live demo4_rep demo_peers(3) demo_room, of "demo_proto 6 9 6 bt16"]
    by simp
  then have p: "put_all linkage_history [demo_proto 6 9 6 bt16] peer3 (demo_env, demo4) =
      ((demo_env, demo4), Err ErrParentNotFound)"
    by (simp add: linkage_history_def lift_lk_def bind_act_def)
  have "late (plNow ?w) ?w" by (simp add: late_def timeoutDuration_def)
  from failed_timeout_blocks_loader [OF demo_fire_ok _ _ _ this, of "(demo_env, demo4)" ErrParentNotFound
      "[InTimer (\<lambda>_. 0), InIDs peer3 [6]]", unfolded q] p
  obtain t where "ld_run demo_fire linkage_history lk_score [InTick, InTimer (\<lambda>_. 0), InIDs peer3 [6]] ?w =
      (?w\<lparr>smState := stateDone, plHp := (demo_env, demo4), plRep := demo_rep\<lparr>ldTicker := t\<rparr>\<rparr>, Ok ())"
    by (auto simp del: put_all.simps ld_run.simps)
  moreover have "?w\<lparr>smState := stateDone, plHp := (demo_env, demo4), plRep := demo_rep\<lparr>ldTicker := t\<rparr>\<rparr> =
      ?w\<lparr>smState := stateDone, plRep := demo_rep\<lparr>ldTicker := t\<rparr>\<rparr>"
    by (simp add: demo_loading_def demo_waiting_def demo_world_def newPeerLoader_def)
  ultimately show ?thesis by metis
qed


section \<open>Choosing a peer\<close>

text \<open>C19: A free loader picks a connected peer that has broadcast a score above the score of its leash
  and starts loading its history: from its leash on, or, when the peer has failed ten times in a row,
  from the block where its chain leaves the best one, with the failures forgotten.\<close>

theorem sync_picks_lagging_peer:
  fixes w :: "('db, 'id) lk_world"
  assumes "stateless_ok F" and "\<not> ldActive (plRep w)" and "lk_ok (plHp w)"
    and "ldConnections (plRep w) = Ok cs" and "\<forall>c \<in> set cs. plain (fst c)"
    and "filter (lags lk_score (plHp w)) cs \<noteq> []" and "\<And>n. 0 < n \<Longrightarrow> pick n < n"
    and "\<And>a. plain a \<Longrightarrow> lk_lcb_ok a (plHp w)"
  shows "\<exists>c \<in> set cs. lags lk_score (plHp w) c \<and>
    (let a = fst c; restart = (fc_count a (ldFails (plRep w)) \<ge> restartThreshold) in
     \<exists>i ids. (if restart then hpLCB linkage_history a (plHp w) else hpLeash linkage_history a (plHp w)) = Ok i \<and>
       hpLastIDs linkage_history i 100 (plHp w) = Ok ids \<and>
       ld_sync F linkage_history lk_score pick w =
         ((newPeerLoader a (plHp w) ((plRep w)\<lparr>ldActive := True, ldTicker := True,
             ldFails := (if restart then fc_reset a (ldFails (plRep w)) else ldFails (plRep w))\<rparr>) (plNow w))
           \<lparr>smState := stateWaitingForIDs, plSent := [ReqBlockIDs ids], plTimestamp := Some (plNow w)\<rparr>, Ok ()))"
  by (rule lk_loader.sync_result [OF assms])

theorem sync_picks_lagging_peer_witness:
  "\<exists>w' ids. ld_sync demo_fire linkage_history lk_score (\<lambda>n. n - 1)
      (demo_world\<lparr>plRep := demo_rep\<lparr>ldActive := False\<rparr>\<rparr>) = (w', Ok ()) \<and>
    plPeer w' = peer3 \<and> plSent w' = [ReqBlockIDs ids] \<and> smState w' = stateWaitingForIDs"
proof -
  let ?w = "demo_world\<lparr>plRep := demo_rep\<lparr>ldActive := False\<rparr>\<rparr>"
  let ?cs = "[(peer1, Some 10), (peer2, None), (peer3, Some 72)]"
  have l: "lags lk_score (demo_env, demo4) c \<longleftrightarrow> c = (peer3, Some 72)" if "c \<in> set ?cs" for c
    using that by (auto simp: lags_def demo_score_demo4)
  have f: "filter (lags lk_score (demo_env, demo4)) ?cs = [(peer3, Some 72)]"
    by (simp add: lags_def demo_score_demo4)
  have c: "ldConnections (plRep ?w) = Ok ?cs" by simp
  have v: "\<forall>c \<in> set ?cs. plain (fst c)" by simp
  have ne: "filter (lags lk_score (plHp ?w)) ?cs \<noteq> []" using f by simp
  have h: "\<not> ldActive (plRep ?w)" "lk_ok (plHp ?w)" "\<And>n :: nat. 0 < n \<Longrightarrow> n - 1 < n"
    "\<And>a. plain a \<Longrightarrow> lk_lcb_ok a (plHp ?w)" by (simp_all add: demo_lcb_ok)
  obtain c where "c \<in> set ?cs" "lags lk_score (plHp ?w) c"
    and r: "let a = fst c; restart = (fc_count a (ldFails (plRep ?w)) \<ge> restartThreshold) in
     \<exists>i ids. (if restart then hpLCB linkage_history a (plHp ?w) else hpLeash linkage_history a (plHp ?w)) = Ok i \<and>
       hpLastIDs linkage_history i 100 (plHp ?w) = Ok ids \<and>
       ld_sync demo_fire linkage_history lk_score (\<lambda>n. n - 1) ?w =
         ((newPeerLoader a (plHp ?w) ((plRep ?w)\<lparr>ldActive := True, ldTicker := True,
             ldFails := (if restart then fc_reset a (ldFails (plRep ?w)) else ldFails (plRep ?w))\<rparr>) (plNow ?w))
           \<lparr>smState := stateWaitingForIDs, plSent := [ReqBlockIDs ids], plTimestamp := Some (plNow ?w)\<rparr>, Ok ())"
    using sync_picks_lagging_peer [OF demo_fire_ok h(1,2) c v ne h(3,4)] by blast
  then have "fst c = peer3" using l by simp
  from r [unfolded Let_def this] obtain ids rep where "ld_sync demo_fire linkage_history lk_score (\<lambda>n. n - 1) ?w =
      ((newPeerLoader peer3 (plHp ?w) rep (plNow ?w))
        \<lparr>smState := stateWaitingForIDs, plSent := [ReqBlockIDs ids], plTimestamp := Some (plNow ?w)\<rparr>, Ok ())"
    by blast
  then show ?thesis by (simp add: newPeerLoader_def)
qed

end
