(* ===== verification/Swagger.thy ===== *)
theory Swagger
  imports Prelude
begin

text \<open>
  \<open>api/swagger/swagger-initializer.js\<close>: the script that starts the Swagger UI on the page
  \<open>index.html\<close> the API serves. The model has the JavaScript values the script computes with,
  the global object of the window, and the order in which an expression is evaluated, with its
  exceptions. The two vendored scripts that define \<open>SwaggerUIBundle\<close> and
  \<open>SwaggerUIStandalonePreset\<close> are parameters: what they put in the global object, and what a
  call of a function object does.
\<close>

section \<open>Values and exceptions\<close>

text \<open>A function object has an identity and properties of its own.\<close>

datatype jsval =
    JUndefined
  | JNull
  | JBool bool
  | JString string
  | JArray "jsval list"
  | JObject "(string \<times> jsval) list"
  | JFunction nat "(string \<times> jsval) list"

datatype jserror = ReferenceError string | TypeError string | Thrown jsval

type_synonym 'a js = "jserror + 'a"

fun bind_js :: "'a js \<Rightarrow> ('a \<Rightarrow> 'b js) \<Rightarrow> 'b js" where
  "bind_js (Inl e) f = Inl e"
| "bind_js (Inr x) f = f x"

lemma bind_js_eq_Inr: "bind_js m f = Inr y \<longleftrightarrow> (\<exists>x. m = Inr x \<and> f x = Inr y)"
  by (cases m) auto

text \<open>
  Property access. Of undefined and null it throws; the properties the script reads are none
  that strings, booleans or arrays inherit.
\<close>

fun js_member :: "jsval \<Rightarrow> string \<Rightarrow> jsval js" where
  "js_member JUndefined k = Inl (TypeError k)"
| "js_member JNull k = Inl (TypeError k)"
| "js_member (JObject ps) k = Inr (case map_of ps k of None \<Rightarrow> JUndefined | Some v \<Rightarrow> v)"
| "js_member (JFunction f ps) k = Inr (case map_of ps k of None \<Rightarrow> JUndefined | Some v \<Rightarrow> v)"
| "js_member _ k = Inr JUndefined"

section \<open>The window\<close>

text \<open>The functions that can be the load handler of the page: the one the script makes.\<close>

datatype handler = InitializerHandler

record window =
  wGlobals :: "string \<rightharpoonup> jsval"
  wOnload :: "handler option"

definition js_ident :: "string \<Rightarrow> window \<Rightarrow> jsval js" where
  "js_ident x w = (case wGlobals w x of None \<Rightarrow> Inl (ReferenceError x) | Some v \<Rightarrow> Inr v)"

text \<open>What a call of the function object with the given identity does.\<close>

type_synonym engine = "nat \<Rightarrow> jsval list \<Rightarrow> window \<Rightarrow> window \<times> jsval js"

definition js_call :: "engine \<Rightarrow> jsval \<Rightarrow> jsval list \<Rightarrow> window \<Rightarrow> window \<times> jsval js" where
  "js_call engine v args w =
     (case v of JFunction f _ \<Rightarrow> engine f args w | _ \<Rightarrow> (w, Inl (TypeError ''not a function'')))"

section \<open>The script\<close>

definition presets_value :: "window \<Rightarrow> jsval js" where
  "presets_value w =
     bind_js (js_ident ''SwaggerUIBundle'' w) (\<lambda>bundle.
     bind_js (js_member bundle ''presets'') (\<lambda>presets.
     bind_js (js_member presets ''apis'') (\<lambda>apis.
     bind_js (js_ident ''SwaggerUIStandalonePreset'' w) (\<lambda>standalone.
     Inr (JArray [apis, standalone])))))"

definition plugins_value :: "window \<Rightarrow> jsval js" where
  "plugins_value w =
     bind_js (js_ident ''SwaggerUIBundle'' w) (\<lambda>bundle.
     bind_js (js_member bundle ''plugins'') (\<lambda>plugins.
     bind_js (js_member plugins ''DownloadUrl'') (\<lambda>downloadUrl.
     Inr (JArray [downloadUrl]))))"

definition spec_url :: string where "spec_url = ''/api/openapi.yaml''"
definition spec_dom_id :: string where "spec_dom_id = ''#swagger-ui''"

text \<open>The object literal, its properties in the order of their evaluation.\<close>

definition options_value :: "window \<Rightarrow> jsval js" where
  "options_value w =
     bind_js (presets_value w) (\<lambda>presets.
     bind_js (plugins_value w) (\<lambda>plugins.
     Inr (JObject
       [(''url'', JString spec_url),
        (''dom_id'', JString spec_dom_id),
        (''deepLinking'', JBool True),
        (''presets'', presets),
        (''plugins'', plugins),
        (''layout'', JString ''StandaloneLayout'')])))"

text \<open>
  The body of the load handler. The callee is evaluated before the argument, and the result is
  only assigned to \<open>window.ui\<close> when the call returns.
\<close>

definition onload_handler :: "engine \<Rightarrow> window \<Rightarrow> window \<times> unit js" where
  "onload_handler engine w =
     (case bind_js (js_ident ''SwaggerUIBundle'' w) (\<lambda>bundle.
           bind_js (options_value w) (\<lambda>options. Inr (bundle, options))) of
        Inl e \<Rightarrow> (w, Inl e)
      | Inr (bundle, options) \<Rightarrow>
          (case js_call engine bundle [options] w of
             (w', Inl e) \<Rightarrow> (w', Inl e)
           | (w', Inr ui) \<Rightarrow> (w'\<lparr>wGlobals := (wGlobals w')(''ui'' \<mapsto> ui)\<rparr>, Inr ())))"

text \<open>Running the script only installs the handler.\<close>

definition initializer_script :: "window \<Rightarrow> window" where
  "initializer_script w = w\<lparr>wOnload := Some InitializerHandler\<rparr>"

text \<open>The load event, fired when the page and its scripts have been loaded.\<close>

definition fire_load :: "engine \<Rightarrow> window \<Rightarrow> window \<times> unit js" where
  "fire_load engine w =
     (case wOnload w of None \<Rightarrow> (w, Inr ()) | Some InitializerHandler \<Rightarrow> onload_handler engine w)"

section \<open>The page\<close>

text \<open>
  \<open>index.html\<close>: the IDs of its elements and the references of its scripts, in order. A script
  the server does not have is skipped. \<open>vendor\<close> is what the scripts of the library do.
\<close>

definition page_ids :: "string list" where "page_ids = [''swagger-ui'']"

definition page_scripts :: "string list" where
  "page_scripts = [''./swagger-ui-bundle.js'', ''./swagger-ui-standalone-preset.js'', ''./swagger-initializer.js'']"

text \<open>The path a reference of a page means: an absolute one itself, another one beside the page.\<close>

fun dir_of :: "string \<Rightarrow> string" where
  "dir_of p = rev (dropWhile (\<lambda>c. c \<noteq> CHR ''/'') (rev p))"

definition resolve :: "string \<Rightarrow> string \<Rightarrow> string" where
  "resolve base ref =
     (if take 1 ref = ''/'' then ref
      else if take 2 ref = ''./'' then dir_of base @ drop 2 ref
      else dir_of base @ ref)"

text \<open>\<open>srv\<close> says which file a path is served from.\<close>

definition run_script ::
  "(string \<Rightarrow> string option) \<Rightarrow> (string \<Rightarrow> window \<Rightarrow> window) \<Rightarrow> string \<Rightarrow> string \<Rightarrow> window \<Rightarrow> window" where
  "run_script srv vendor base ref w =
     (case srv (resolve base ref) of
        None \<Rightarrow> w
      | Some f \<Rightarrow> if f = ''swagger-initializer.js'' then initializer_script w else vendor f w)"

definition load_page ::
  "(string \<Rightarrow> string option) \<Rightarrow> (string \<Rightarrow> window \<Rightarrow> window) \<Rightarrow> engine \<Rightarrow> string \<Rightarrow> window \<times> unit js" where
  "load_page srv vendor engine base =
     fire_load engine
       (fold (run_script srv vendor base) page_scripts \<lparr>wGlobals = Map.empty, wOnload = None\<rparr>)"

section \<open>What the handler does\<close>

text \<open>The globals the handler needs, and the options it passes then.\<close>

definition bundle_ready :: "window \<Rightarrow> nat \<Rightarrow> jsval \<Rightarrow> jsval \<Rightarrow> jsval \<Rightarrow> bool" where
  "bundle_ready w f apis standalone downloadUrl \<longleftrightarrow>
     (\<exists>ps. wGlobals w ''SwaggerUIBundle'' = Some (JFunction f ps) \<and>
        (\<exists>presets. js_member (JFunction f ps) ''presets'' = Inr presets \<and> js_member presets ''apis'' = Inr apis) \<and>
        (\<exists>plugins. js_member (JFunction f ps) ''plugins'' = Inr plugins \<and>
           js_member plugins ''DownloadUrl'' = Inr downloadUrl)) \<and>
     wGlobals w ''SwaggerUIStandalonePreset'' = Some standalone"

definition ui_options :: "jsval \<Rightarrow> jsval \<Rightarrow> jsval \<Rightarrow> jsval" where
  "ui_options apis standalone downloadUrl =
     JObject
       [(''url'', JString ''/api/openapi.yaml''), (''dom_id'', JString ''#swagger-ui''),
        (''deepLinking'', JBool True), (''presets'', JArray [apis, standalone]),
        (''plugins'', JArray [downloadUrl]), (''layout'', JString ''StandaloneLayout'')]"

lemma options_ready:
  assumes "bundle_ready w f apis standalone downloadUrl"
  shows "options_value w = Inr (ui_options apis standalone downloadUrl)"
  using assms
  by (auto simp: bundle_ready_def options_value_def presets_value_def plugins_value_def js_ident_def
      ui_options_def spec_url_def spec_dom_id_def simp del: js_member.simps)

lemma onload_ready:
  assumes "bundle_ready w f apis standalone downloadUrl"
  shows "onload_handler engine w =
    (case engine f [ui_options apis standalone downloadUrl] w of
       (w', Inl e) \<Rightarrow> (w', Inl e)
     | (w', Inr ui) \<Rightarrow> (w'\<lparr>wGlobals := (wGlobals w')(''ui'' \<mapsto> ui)\<rparr>, Inr ()))"
proof -
  obtain ps where "wGlobals w ''SwaggerUIBundle'' = Some (JFunction f ps)"
    using assms by (auto simp: bundle_ready_def)
  with options_ready [OF assms] show ?thesis
    by (simp add: onload_handler_def js_ident_def js_call_def)
qed

text \<open>Without one of the two globals the handler throws before anything is called.\<close>

lemma onload_missing:
  "wGlobals w ''SwaggerUIBundle'' = None \<Longrightarrow>
    onload_handler engine w = (w, Inl (ReferenceError ''SwaggerUIBundle''))"
  "wGlobals w ''SwaggerUIBundle'' = Some (JFunction f ps) \<Longrightarrow> map_of ps ''presets'' = Some (JObject qs) \<Longrightarrow>
    wGlobals w ''SwaggerUIStandalonePreset'' = None \<Longrightarrow>
    onload_handler engine w = (w, Inl (ReferenceError ''SwaggerUIStandalonePreset''))"
  "wGlobals w ''SwaggerUIBundle'' = Some (JFunction f ps) \<Longrightarrow> map_of ps ''presets'' = None \<Longrightarrow>
    onload_handler engine w = (w, Inl (TypeError ''apis''))"
  by (simp_all add: onload_handler_def js_ident_def options_value_def presets_value_def)

text \<open>Nothing but a successful call sets \<open>window.ui\<close>.\<close>

lemma onload_no_call:
  assumes "snd (onload_handler engine w) = Inl e"
  shows "fst (onload_handler engine w) = w \<or>
    (\<exists>f ps args. wGlobals w ''SwaggerUIBundle'' = Some (JFunction f ps) \<and>
       engine f args w = (fst (onload_handler engine w), Inl e))"
  using assms
  by (auto simp: onload_handler_def js_call_def js_ident_def bind_js_eq_Inr split: sum.splits option.splits jsval.splits prod.splits)

end
