(* ===== verification/GoNet.thy ===== *)
theory GoNet
  imports GoStd "HOL-Library.Char_ord"
begin

text \<open>
  What the HTTP interface uses of Go's standard library for texts: \<open>strings.Split\<close> and
  \<open>strings.TrimSpace\<close> (on ASCII), \<open>strconv.Atoi\<close>, and \<open>ParseAddr\<close> and \<open>Addr.String\<close> of package
  \<open>net/netip\<close>, with the loops of the library.
\<close>

section \<open>Strings\<close>

text \<open>\<open>strings.Split\<close> with a separator of one character.\<close>

fun split_on :: "char \<Rightarrow> string \<Rightarrow> string list" where
  "split_on c [] = [[]]"
| "split_on c (x # xs) =
     (if x = c then [] # split_on c xs
      else (case split_on c xs of [] \<Rightarrow> [[x]] | y # ys \<Rightarrow> (x # y) # ys))"

fun join_with :: "char \<Rightarrow> string list \<Rightarrow> string" where
  "join_with c [] = []"
| "join_with c [s] = s"
| "join_with c (s # ss) = s @ c # join_with c ss"

lemma split_on_plain: "c \<notin> set s \<Longrightarrow> split_on c s = [s]"
  by (induction s) auto

lemma split_on_append: "c \<notin> set s \<Longrightarrow> split_on c (s @ c # t) = s # split_on c t"
  by (induction s) auto

lemma split_join: "ss \<noteq> [] \<Longrightarrow> (\<And>s. s \<in> set ss \<Longrightarrow> c \<notin> set s) \<Longrightarrow> split_on c (join_with c ss) = ss"
  by (induction c ss rule: join_with.induct) (auto simp: split_on_plain split_on_append)

definition is_space :: "char \<Rightarrow> bool" where
  "is_space c \<longleftrightarrow> (let n = of_char c :: nat in n = 32 \<or> (9 \<le> n \<and> n \<le> 13))"

definition TrimSpace :: "string \<Rightarrow> string" where
  "TrimSpace s = rev (dropWhile is_space (rev (dropWhile is_space s)))"

lemma TrimSpace_plain: "(\<And>c. c \<in> set s \<Longrightarrow> \<not> is_space c) \<Longrightarrow> TrimSpace s = s"
proof -
  assume "\<And>c. c \<in> set s \<Longrightarrow> \<not> is_space c"
  then have "dropWhile is_space s = s" "dropWhile is_space (rev s) = rev s"
    using hd_in_set [of s] hd_in_set [of "rev s"] by (auto simp: dropWhile_eq_self_iff)
  then show ?thesis by (simp add: TrimSpace_def)
qed

section \<open>Decimal numbers\<close>

definition digit_of :: "char \<Rightarrow> nat option" where
  "digit_of c = (let n = of_char c :: nat in if 48 \<le> n \<and> n \<le> 57 then Some (n - 48) else None)"

definition digit_char :: "nat \<Rightarrow> char" where
  "digit_char d = char_of (48 + d)"

lemma digit_of_char: "d < 10 \<Longrightarrow> digit_of (digit_char d) = Some d"
  by (simp add: digit_of_def digit_char_def Let_def)

fun digits_val :: "string \<Rightarrow> nat \<Rightarrow> nat option" where
  "digits_val [] v = Some v"
| "digits_val (c # cs) v = (case digit_of c of None \<Rightarrow> None | Some d \<Rightarrow> digits_val cs (10 * v + d))"

text \<open>\<open>strconv.Atoi\<close>: an optional sign, at least one digit, and a value that fits 64 bits.\<close>

definition Atoi :: "string \<Rightarrow> int option" where
  "Atoi s =
     (let neg = (take 1 s = ''-'');
          t = (if take 1 s = ''-'' \<or> take 1 s = ''+'' then drop 1 s else s)
      in if t = '''' then None
         else
           (case digits_val t 0 of
              None \<Rightarrow> None
            | Some n \<Rightarrow>
                if neg then (if n \<le> 2 ^ 63 then Some (- int n) else None)
                else (if n < 2 ^ 63 then Some (int n) else None)))"

fun decimal :: "nat \<Rightarrow> string" where
  "decimal n = (if n < 10 then [digit_char n] else decimal (n div 10) @ [digit_char (n mod 10)])"

declare decimal.simps [simp del]

section \<open>IPv4 addresses\<close>

text \<open>
  The loop of \<open>parseIPv4\<close>: the rest of the text, the character before it, the value and the
  number of digits of the current field, and the fields so far.
\<close>

fun parseIPv4_loop :: "string \<Rightarrow> char option \<Rightarrow> nat \<Rightarrow> nat \<Rightarrow> nat list \<Rightarrow> nat list option" where
  "parseIPv4_loop [] prev val digLen fs = (if length fs < 3 then None else Some (fs @ [val]))"
| "parseIPv4_loop (c # cs) prev val digLen fs =
     (case digit_of c of
        Some d \<Rightarrow>
          if digLen = 1 \<and> val = 0 then None
          else if val * 10 + d > 255 then None
          else parseIPv4_loop cs (Some c) (val * 10 + d) (digLen + 1) fs
      | None \<Rightarrow>
          if c = CHR ''.'' then
            if prev = None \<or> cs = [] \<or> prev = Some CHR ''.'' then None
            else if length fs = 3 then None
            else parseIPv4_loop cs (Some c) 0 0 (fs @ [val])
          else None)"

definition parseIPv4 :: "string \<Rightarrow> nat list option" where
  "parseIPv4 s = parseIPv4_loop s None 0 0 []"

definition addr4_of :: "nat list \<Rightarrow> addr" where
  "addr4_of fs = Addr4 (word_of_nat (be_nat (map word_of_nat fs)))"

section \<open>IPv6 addresses\<close>

definition hex_of :: "char \<Rightarrow> nat option" where
  "hex_of c =
     (let n = of_char c :: nat in
      if 48 \<le> n \<and> n \<le> 57 then Some (n - 48)
      else if 97 \<le> n \<and> n \<le> 102 then Some (n - 87)
      else if 65 \<le> n \<and> n \<le> 70 then Some (n - 55)
      else None)"

text \<open>The digits of one group: how many there are, their value, and the rest; at most four.\<close>

fun hex_group :: "string \<Rightarrow> nat \<Rightarrow> nat \<Rightarrow> (nat \<times> nat \<times> string) option" where
  "hex_group [] off acc = Some (off, acc, [])"
| "hex_group (c # cs) off acc =
     (case hex_of c of
        None \<Rightarrow> Some (off, acc, c # cs)
      | Some d \<Rightarrow> if off > 3 then None else hex_group cs (off + 1) (acc * 16 + d))"

text \<open>
  The loop of \<open>parseIPv6\<close>, for the groups that are left: the bytes so far, and where the
  ellipsis is. It gives the bytes, the ellipsis and the rest of the text when it stops.
\<close>

fun parseIPv6_loop :: "nat \<Rightarrow> string \<Rightarrow> bytes \<Rightarrow> nat option \<Rightarrow> (bytes \<times> nat option \<times> string) option" where
  "parseIPv6_loop 0 s ip ell = Some (ip, ell, s)"
| "parseIPv6_loop (Suc k) s ip ell =
     (case hex_group s 0 0 of
        None \<Rightarrow> None
      | Some (off, acc, rest) \<Rightarrow>
          if off = 0 then None
          else if take 1 rest = ''.'' then
            if ell = None \<and> length ip \<noteq> 12 then None
            else if length ip + 4 > 16 then None
            else (case parseIPv4 s of None \<Rightarrow> None | Some fs \<Rightarrow> Some (ip @ map word_of_nat fs, ell, []))
          else
            let ip = ip @ [word_of_nat (acc div 256), word_of_nat acc] in
            (case rest of
               [] \<Rightarrow> Some (ip, ell, [])
             | c # t \<Rightarrow>
                 if c \<noteq> CHR '':'' then None
                 else if t = [] then None
                 else if hd t = CHR '':'' then
                   if ell \<noteq> None then None
                   else if tl t = [] then Some (ip, Some (length ip), [])
                   else parseIPv6_loop k (tl t) ip (Some (length ip))
                 else parseIPv6_loop k t ip ell))"

text \<open>The end of \<open>parseIPv6\<close>: the ellipsis is filled up with zeros.\<close>

definition expand_ellipsis :: "bytes \<times> nat option \<times> string \<Rightarrow> bytes option" where
  "expand_ellipsis =
     (\<lambda>(ip, ell, s).
       if s \<noteq> [] then None
       else if length ip < 16 then
         (case ell of None \<Rightarrow> None | Some e \<Rightarrow> Some (take e ip @ replicate (16 - length ip) 0 @ drop e ip))
       else if ell \<noteq> None then None
       else Some ip)"

definition parseIPv6 :: "string \<Rightarrow> addr option" where
  "parseIPv6 text =
     (let s = takeWhile (\<lambda>c. c \<noteq> CHR ''%'') text;
          zoned = CHR ''%'' \<in> set text;
          zone = drop (length s + 1) text
      in if zoned \<and> zone = [] then None
         else
           let bytes =
             (if take 2 s = ''::'' then
                if drop 2 s = [] then Some (replicate 16 0)
                else Option.bind (parseIPv6_loop 8 (drop 2 s) [] (Some 0)) expand_ellipsis
              else Option.bind (parseIPv6_loop 8 s [] None) expand_ellipsis)
           in map_option (\<lambda>ip. Addr6 (word_of_nat (be_nat ip)) zone) bytes)"

section \<open>Parsing and printing\<close>

text \<open>\<open>ParseAddr\<close> decides at the first dot, colon or percent sign.\<close>

definition ParseAddr :: "string \<Rightarrow> addr option" where
  "ParseAddr s =
     (case filter (\<lambda>c. c = CHR ''.'' \<or> c = CHR '':'' \<or> c = CHR ''%'') s of
        [] \<Rightarrow> None
      | c # _ \<Rightarrow>
          if c = CHR ''.'' then map_option addr4_of (parseIPv4 s)
          else if c = CHR '':'' then parseIPv6 s
          else None)"

definition string4 :: "u32 \<Rightarrow> string" where
  "string4 w = join_with CHR ''.'' (map (\<lambda>b. decimal (unat b)) (be_bytes 4 (unat w)))"

fun hexadecimal :: "nat \<Rightarrow> string" where
  "hexadecimal n =
     (if n < 10 then [digit_char n]
      else if n < 16 then [char_of (87 + n)]
      else hexadecimal (n div 16) @ [if n mod 16 < 10 then digit_char (n mod 16) else char_of (87 + n mod 16)])"

declare hexadecimal.simps [simp del]

definition groups6 :: "128 word \<Rightarrow> nat list" where
  "groups6 w = map (\<lambda>i. unat (drop_bit (112 - 16 * i) w) mod 65536) [0..<8]"

text \<open>The longest run of at least two zero groups, the first of them: where it starts and ends.\<close>

definition zero_run :: "nat list \<Rightarrow> nat \<times> nat" where
  "zero_run gs =
     fold (\<lambda>i (s, e).
       let j = i + length (takeWhile (\<lambda>g. g = 0) (drop i gs)); l = j - i
       in if l \<ge> 2 \<and> l > e - s then (i, j) else (s, e)) [0..<8] (255, 255)"

definition string6 :: "128 word \<Rightarrow> string" where
  "string6 w =
     (let gs = groups6 w; (s, e) = zero_run gs; colons = (\<lambda>xs. join_with CHR '':'' (map hexadecimal xs))
      in if s = 255 then colons gs else colons (take s gs) @ ''::'' @ colons (drop e gs))"

fun AddrString :: "addr \<Rightarrow> string" where
  "AddrString AddrZero = ''invalid IP''"
| "AddrString (Addr4 w) = string4 w"
| "AddrString (Addr6 w zone) =
     (if drop_bit 32 w = 0xFFFF then ''::ffff:'' @ string4 (ucast w) else string6 w) @
     (if zone = [] then [] else CHR ''%'' # zone)"

text \<open>Printing an IPv4 address and parsing it again.\<close>

lemma digit_neq: "d < 10 \<Longrightarrow> digit_char d \<noteq> CHR ''.''" "d < 10 \<Longrightarrow> digit_char d \<noteq> CHR '':''"
  "d < 10 \<Longrightarrow> digit_char d \<noteq> CHR ''%''" "d < 10 \<Longrightarrow> digit_char d \<noteq> CHR '',''" "d < 10 \<Longrightarrow> \<not> is_space (digit_char d)"
proof -
  assume d: "d < 10"
  have n: "(of_char (digit_char d) :: nat) = 48 + d" using d by (simp add: digit_char_def)
  show "digit_char d \<noteq> CHR ''.''" "digit_char d \<noteq> CHR '':''" "digit_char d \<noteq> CHR ''%''" "digit_char d \<noteq> CHR '',''"
    using n d by (auto dest!: arg_cong [where f = "of_char :: char \<Rightarrow> nat"])
  show "\<not> is_space (digit_char d)" using n by (simp add: is_space_def)
qed

lemma decimal_cases:
  "b < 256 \<Longrightarrow> decimal b =
     (if b < 10 then [digit_char b]
      else if b < 100 then [digit_char (b div 10), digit_char (b mod 10)]
      else [digit_char (b div 100), digit_char (b div 10 mod 10), digit_char (b mod 10)])"
proof -
  assume b: "b < 256"
  have h: "b div 10 div 10 = b div 100" by (simp flip: div_mult2_eq)
  have "\<not> b < 100 \<Longrightarrow> \<not> b div 10 < 10" "b div 100 < 10" "b < 100 \<Longrightarrow> b div 10 < 10" using b by auto
  then show ?thesis
    by (simp add: decimal.simps [of b] decimal.simps [of "b div 10"] decimal.simps [of "b div 100"] h)
qed

lemma decimal_digits: "c \<in> set (decimal n) \<Longrightarrow> \<exists>d < 10. c = digit_char d"
proof (induction n rule: decimal.induct)
  case (1 n)
  show ?case
  proof (cases "n < 10")
    case True
    with 1 show ?thesis unfolding decimal.simps [of n] by auto
  next
    case False
    with 1 show ?thesis unfolding decimal.simps [of n] by (auto intro: exI [of _ "n mod 10"])
  qed
qed

lemma parse_field:
  assumes b: "b < 256" and k: "\<And>p. p \<noteq> CHR ''.'' \<Longrightarrow> parseIPv4_loop cs (Some p) b (length (decimal b)) fs = r"
  shows "parseIPv4_loop (decimal b @ cs) prev 0 0 fs = r"
proof -
  have d: "b mod 10 < 10" "b div 10 mod 10 < 10" "b < 100 \<Longrightarrow> b div 10 < 10" "b div 100 < 10"
    "\<not> 255 < b div 10" "\<not> 255 < b div 100" "\<not> 255 < b"
    using b by auto
  have z: "10 \<le> b \<Longrightarrow> 0 < b div 10" "100 \<le> b \<Longrightarrow> 0 < b div 100"
    by (simp_all add: div_greater_zero_iff)
  have h: "b div 10 div 10 = b div 100" by (simp flip: div_mult2_eq)
  have e: "b div 10 * 10 + b mod 10 = b" "b div 100 * 10 + b div 10 mod 10 = b div 10"
    using div_mult_mod_eq [of "b div 10" 10] unfolding h by simp_all
  consider "b < 10" | "10 \<le> b" "b < 100" | "100 \<le> b" by linarith
  then show ?thesis
  proof cases
    case 1
    with k [of "digit_char b"] show ?thesis
      by (simp add: decimal_cases [OF b] digit_of_char digit_neq)
  next
    case 2
    with k [of "digit_char (b mod 10)"] d(1-4) z e(1) b show ?thesis
      by (simp add: decimal_cases [OF b] digit_of_char digit_neq) (use d(5) in blast)
  next
    case 3
    with k [of "digit_char (b mod 10)"] d(1-4,6,7) z e b show ?thesis
      by (simp add: decimal_cases [OF b] digit_of_char digit_neq) (use d(5) in blast)
  qed
qed

lemma be_bytes_4: "\<exists>a b c d. be_bytes 4 n = [a, b, c, d]"
proof -
  have four: "(4 :: nat) = Suc (Suc (Suc (Suc 0)))" by simp
  show ?thesis unfolding four be_bytes.simps by simp
qed

lemma parse_string4: "parseIPv4 (string4 w) = Some (map unat (be_bytes 4 (unat w)))"
proof -
  obtain a b c d where bs: "be_bytes 4 (unat w) = [a, b, c, d]"
    using be_bytes_4 [of "unat w"] by blast
  have dot: "digit_of CHR ''.'' = None" by (simp add: digit_of_def)
  note u = unat_byte_less
  have "parseIPv4_loop (decimal (unat a) @ CHR ''.'' # decimal (unat b) @ CHR ''.'' # decimal (unat c) @ CHR ''.'' #
      decimal (unat d)) None 0 0 [] = Some [unat a, unat b, unat c, unat d]"
  proof -
    have ne: "decimal n \<noteq> []" for n by (subst decimal.simps) simp
    have last: "parseIPv4_loop (decimal (unat d)) prev 0 0 [unat a, unat b, unat c] =
        Some [unat a, unat b, unat c, unat d]" for prev
      using parse_field [OF u [of d], of "[]" "[unat a, unat b, unat c]" _ prev] by simp
    have third: "parseIPv4_loop (decimal (unat c) @ CHR ''.'' # decimal (unat d)) prev 0 0 [unat a, unat b] =
        Some [unat a, unat b, unat c, unat d]" for prev
      by (rule parse_field [OF u]) (simp add: dot last ne)
    have second: "parseIPv4_loop (decimal (unat b) @ CHR ''.'' # decimal (unat c) @ CHR ''.'' # decimal (unat d))
        prev 0 0 [unat a] = Some [unat a, unat b, unat c, unat d]" for prev
      by (rule parse_field [OF u]) (simp add: dot third ne)
    show ?thesis by (rule parse_field [OF u]) (simp add: dot second ne)
  qed
  then show ?thesis by (simp add: parseIPv4_def string4_def bs)
qed

lemma string4_chars:
  assumes "c \<in> set (string4 w)"
  shows "c = CHR ''.'' \<or> (\<exists>d < 10. c = digit_char d)"
proof -
  have "c \<in> set (join_with CHR ''.'' ss) \<Longrightarrow> c = CHR ''.'' \<or> (\<exists>s \<in> set ss. c \<in> set s)" for ss
    by (induction "CHR ''.''" ss rule: join_with.induct) auto
  with assms show ?thesis unfolding string4_def using decimal_digits by fastforce
qed

lemma ParseAddr_string4: "ParseAddr (string4 w) = Some (Addr4 w)"
proof -
  have "addr4_of (map unat (be_bytes 4 (unat w))) = Addr4 w"
    by (simp add: addr4_of_def comp_def be_nat_u32)
  moreover have "filter (\<lambda>c. c = CHR ''.'' \<or> c = CHR '':'' \<or> c = CHR ''%'') (string4 w) = filter (\<lambda>c. c = CHR ''.'') (string4 w)"
    using string4_chars digit_neq by (intro filter_cong refl) fastforce
  moreover obtain a b c d where bs: "be_bytes 4 (unat w) = [a, b, c, d]"
    using be_bytes_4 [of "unat w"] by blast
  have "CHR ''.'' \<in> set (string4 w)" by (simp add: string4_def bs)
  then obtain x xs where "filter (\<lambda>c. c = CHR ''.'') (string4 w) = CHR ''.'' # xs"
    by (cases "filter (\<lambda>c. c = CHR ''.'') (string4 w)") (auto simp: filter_empty_conv filter_eq_Cons_iff)
  ultimately show ?thesis by (simp add: ParseAddr_def parse_string4)
qed

end
