(* ===== verification/ApiRoutes.thy ===== *)
theory ApiRoutes
  imports Swagger GoNet
begin

text \<open>
  The routing of \<open>api/api.go\<close>: the table of \<open>routes\<close> under the mount point \<open>/api\<close>, and the file
  server for the embedded directory \<open>swagger\<close> behind it. Matching follows the documentation of
  the router \<open>chi\<close> (a literal segment matches itself, a parameter a non-empty segment, a route
  is preferred to a mount at \<open>/\<close>) and of \<open>net/http\<close> (\<open>StripPrefix\<close>, \<open>FileServer\<close>). Requests
  are GET requests.
\<close>

section \<open>Paths\<close>

text \<open>\<open>path.Clean\<close> of a rooted path, as its segments.\<close>

fun clean_segs :: "string list \<Rightarrow> string list \<Rightarrow> string list" where
  "clean_segs acc [] = rev acc"
| "clean_segs acc (s # ss) =
     (if s = '''' \<or> s = ''.'' then clean_segs acc ss
      else if s = ''..'' then clean_segs (drop 1 acc) ss
      else clean_segs (s # acc) ss)"

definition strip_prefix :: "string \<Rightarrow> string \<Rightarrow> string option" where
  "strip_prefix pre p = (if take (length pre) p = pre then Some (drop (length pre) p) else None)"

section \<open>The embedded files\<close>

definition swagger_files :: "string list" where
  "swagger_files =
     [''favicon-16x16.png'', ''favicon-32x32.png'', ''index.css'', ''index.html'',
      ''oauth2-redirect.html'', ''openapi.yaml'', ''swagger-initializer.js'',
      ''swagger-ui-bundle.js'', ''swagger-ui-es-bundle-core.js'', ''swagger-ui-es-bundle.js'',
      ''swagger-ui-standalone-preset.js'', ''swagger-ui.css'', ''swagger-ui.js'']"

datatype served = ServeFile string | Redirect | NotFound

text \<open>\<open>http.FileServer\<close> on the flat directory.\<close>

definition file_server :: "string \<Rightarrow> served" where
  "file_server p =
     (let u = (if take 1 p = ''/'' then p else ''/'' @ p);
          slash = (last u = CHR ''/'');
          html = ''/index.html'' in
      if drop (length u - length html) u = html then Redirect
      else
        (case clean_segs [] (split_on CHR ''/'' u) of
           [] \<Rightarrow> if slash then ServeFile ''index.html'' else Redirect
         | [f] \<Rightarrow> if f \<in> set swagger_files then (if slash then Redirect else ServeFile f) else NotFound
         | _ \<Rightarrow> NotFound))"

section \<open>The table\<close>

datatype endpoint =
    EpPeers | EpFriendly | EpConnections | EpHeads | EpLeashes | EpStatus | EpForks | EpActiveForks
  | EpFork | EpForkGenerators

datatype seg = Lit string | Param

definition api_routes :: "(seg list \<times> endpoint) list" where
  "api_routes =
     [([Lit ''peers'', Lit ''all''], EpPeers),
      ([Lit ''peers'', Lit ''friendly''], EpFriendly),
      ([Lit ''connections''], EpConnections),
      ([Lit ''heads''], EpHeads),
      ([Lit ''leashes''], EpLeashes),
      ([Lit ''status''], EpStatus),
      ([Lit ''forks''], EpForks),
      ([Lit ''active-forks''], EpActiveForks),
      ([Lit ''fork'', Param], EpFork),
      ([Lit ''fork'', Param, Lit ''generators'', Param], EpForkGenerators)]"

text \<open>The values of the parameters when a pattern matches the segments of a path.\<close>

fun match_segs :: "seg list \<Rightarrow> string list \<Rightarrow> string list option" where
  "match_segs [] [] = Some []"
| "match_segs (Lit l # ps) (s # ss) = (if s = l then match_segs ps ss else None)"
| "match_segs (Param # ps) (s # ss) =
     (if s = '''' then None else (case match_segs ps ss of None \<Rightarrow> None | Some vs \<Rightarrow> Some (s # vs)))"
| "match_segs _ _ = None"

fun find_route :: "(seg list \<times> endpoint) list \<Rightarrow> string list \<Rightarrow> (endpoint \<times> string list) option" where
  "find_route [] ss = None"
| "find_route ((p, e) # rs) ss = (case match_segs p ss of Some vs \<Rightarrow> Some (e, vs) | None \<Rightarrow> find_route rs ss)"

datatype routed = Endpoint endpoint "string list" | Files served

text \<open>The subrouter \<open>routes\<close> returns: \<open>p\<close> is the path below the mount point, \<open>full\<close> the whole one.\<close>

definition route_sub :: "string \<Rightarrow> string \<Rightarrow> string \<Rightarrow> routed" where
  "route_sub mnt p full =
     (case find_route api_routes (tl (split_on CHR ''/'' p)) of
        Some (e, vs) \<Rightarrow> Endpoint e vs
      | None \<Rightarrow>
          (case strip_prefix mnt full of
             None \<Rightarrow> Files NotFound
           | Some q \<Rightarrow> Files (file_server q)))"

definition api_root :: string where "api_root = ''/api''"

text \<open>The mount of \<open>NewAPI\<close>: the mount point itself, and everything below it.\<close>

definition route :: "string \<Rightarrow> routed" where
  "route full =
     (if full = api_root then route_sub api_root ''/'' full
      else
        (case strip_prefix (api_root @ ''/'') full of
           None \<Rightarrow> Files NotFound
         | Some p \<Rightarrow> route_sub api_root (''/'' @ p) full))"

definition served_file :: "string \<Rightarrow> string option" where
  "served_file p = (case route p of Files (ServeFile f) \<Rightarrow> Some f | _ \<Rightarrow> None)"

text \<open>The table has no ambiguity: no two patterns match the same path.\<close>

fun overlap :: "seg list \<Rightarrow> seg list \<Rightarrow> bool" where
  "overlap [] [] = True"
| "overlap (Lit a # ps) (Lit b # qs) = (a = b \<and> overlap ps qs)"
| "overlap (_ # ps) (_ # qs) = overlap ps qs"
| "overlap _ _ = False"

lemma match_Nil [simp]: "match_segs q [] = Some us \<longleftrightarrow> q = [] \<and> us = []"
  by (cases q; cases "hd q") auto

lemma match_ConsE:
  assumes "match_segs q (s # ss) = Some us"
  obtains b q' us' where "q = b # q'" "match_segs q' ss = Some us'" "\<And>l. b = Lit l \<Longrightarrow> s = l"
  using assms by (cases q; cases "hd q") (auto split: option.splits if_splits)

lemma match_overlap: "match_segs p ss = Some vs \<Longrightarrow> match_segs q ss = Some us \<Longrightarrow> overlap p q"
proof (induction ss arbitrary: p q vs us)
  case (Cons s ss)
  obtain a p' vs' where p: "p = a # p'" "match_segs p' ss = Some vs'" "\<And>l. a = Lit l \<Longrightarrow> s = l"
    using Cons.prems(1) by (rule match_ConsE) blast
  obtain b q' us' where q: "q = b # q'" "match_segs q' ss = Some us'" "\<And>l. b = Lit l \<Longrightarrow> s = l"
    using Cons.prems(2) by (rule match_ConsE) blast
  from Cons.IH [OF p(2) q(2)] p(3) q(3) show ?case unfolding p(1) q(1) by (cases a; cases b) auto
qed simp

lemma routes_apart: "pairwise (\<lambda>r r'. \<not> overlap (fst r) (fst r')) (set api_routes)"
  unfolding pairwise_def api_routes_def by simp

lemma routes_disjoint:
  assumes "(p, e) \<in> set api_routes" "(q, d) \<in> set api_routes"
    and "match_segs p ss = Some vs" "match_segs q ss = Some us"
  shows "(p, e) = (q, d)"
  using routes_apart assms(1,2) match_overlap [OF assms(3,4)] by (force simp: pairwise_def)

lemma find_route_unique:
  assumes r: "(p, e) \<in> set api_routes" and m: "match_segs p ss = Some vs"
  shows "find_route api_routes ss = Some (e, vs)"
proof -
  have "set rs \<subseteq> set api_routes \<Longrightarrow> (p, e) \<in> set rs \<Longrightarrow> find_route rs ss = Some (e, vs)" for rs
  proof (induction rs)
    case (Cons r rs)
    obtain q d where q: "r = (q, d)" by (cases r)
    show ?case
    proof (cases "match_segs q ss")
      case None
      with Cons q m show ?thesis by auto
    next
      case (Some us)
      with routes_disjoint [OF r _ m Some, of d] Cons.prems q m show ?thesis by auto
    qed
  qed simp
  with r show ?thesis by blast
qed

text \<open>A file of the directory is served below the mount point unless a route has its path.\<close>

definition page_path :: "string \<Rightarrow> string" where
  "page_path f = ''/api/'' @ f"

lemma served_files: "\<forall>f \<in> set swagger_files. f \<noteq> ''index.html'' \<longrightarrow> served_file (page_path f) = Some f"
  unfolding swagger_files_def by code_simp

lemma served_index: "served_file ''/api/'' = Some ''index.html''" "served_file ''/api'' = Some ''index.html''"
  by code_simp+

section \<open>Paths of segments\<close>

definition join_segs :: "string list \<Rightarrow> string" where
  "join_segs ss = concat (map (\<lambda>s. CHR ''/'' # s) ss)"

lemma split_segs:
  "\<forall>s \<in> set (s0 # ss). CHR ''/'' \<notin> set s \<Longrightarrow> split_on CHR ''/'' (s0 @ join_segs ss) = s0 # ss"
proof (induction ss arbitrary: s0)
  case Nil
  then show ?case by (simp add: join_segs_def split_on_plain)
next
  case (Cons s ss)
  have "join_segs (s # ss) = CHR ''/'' # (s @ join_segs ss)" by (simp add: join_segs_def)
  with Cons show ?case by (simp add: split_on_append)
qed

text \<open>A path whose segments match a pattern reaches the endpoint of the pattern.\<close>

lemma route_endpoint:
  assumes "(p, e) \<in> set api_routes" and "match_segs p ss = Some vs" and "\<forall>s \<in> set ss. CHR ''/'' \<notin> set s"
  shows "route (api_root @ join_segs ss) = Endpoint e vs"
proof -
  have "p \<noteq> []" using assms(1) by (auto simp: api_routes_def)
  then obtain s ss' where ss: "ss = s # ss'" using assms(2) by (cases ss) auto
  let ?j = "join_segs ss"
  have j: "?j = CHR ''/'' # (s @ join_segs ss')" by (simp add: ss join_segs_def)
  have "split_on CHR ''/'' ?j = [] # ss"
    unfolding j using split_segs [of s ss'] assms(3) by (simp add: ss)
  then have f: "find_route api_routes (tl (split_on CHR ''/'' ?j)) = Some (e, vs)"
    using find_route_unique [OF assms(1,2)] by simp
  have "strip_prefix (api_root @ ''/'') (api_root @ ?j) = Some (s @ join_segs ss')"
    by (simp add: strip_prefix_def j api_root_def)
  moreover have "api_root @ ?j \<noteq> api_root" by (simp add: j)
  ultimately have "route (api_root @ ?j) = route_sub api_root ?j (api_root @ ?j)"
    by (simp add: route_def j)
  with f show ?thesis by (simp add: route_sub_def)
qed

end
