(* ===== verification/ApiProperties.thy ===== *)
theory ApiProperties
  imports ApiRoutes
begin

text \<open>
  The properties of the page of package \<open>api\<close> and of its routing, with examples at a small
  stand-in for the vendored scripts.
\<close>

section \<open>The example\<close>

definition demo_bundle :: jsval where
  "demo_bundle = JFunction 1
     [(''presets'', JObject [(''apis'', JArray [])]), (''plugins'', JObject [(''DownloadUrl'', JFunction 2 [])])]"

definition demo_vendor :: "string \<Rightarrow> window \<Rightarrow> window" where
  "demo_vendor f w =
     (if f = ''swagger-ui-bundle.js'' then w\<lparr>wGlobals := (wGlobals w)(''SwaggerUIBundle'' \<mapsto> demo_bundle)\<rparr>
      else if f = ''swagger-ui-standalone-preset.js''
      then w\<lparr>wGlobals := (wGlobals w)(''SwaggerUIStandalonePreset'' \<mapsto> JArray [])\<rparr>
      else w)"

definition demo_engine :: engine where
  "demo_engine f args w = (w, Inr (JArray args))"

definition empty_window :: window where
  "empty_window = \<lparr>wGlobals = Map.empty, wOnload = None\<rparr>"

section \<open>The initializer\<close>

text \<open>The load handler either finds everything it needs, calls SwaggerUIBundle exactly once with
  the documented options and assigns the result to window.ui, or it throws and leaves the window as it
  was; there is no third way.\<close>

theorem onload_total:
  "(\<exists>f apis standalone downloadUrl. bundle_ready w f apis standalone downloadUrl \<and>
      onload_handler engine w =
        (case engine f [ui_options apis standalone downloadUrl] w of
           (w', Inl e) \<Rightarrow> (w', Inl e)
         | (w', Inr ui) \<Rightarrow> (w'\<lparr>wGlobals := (wGlobals w')(''ui'' \<mapsto> ui)\<rparr>, Inr ()))) \<or>
   (\<exists>e. onload_handler engine w = (w, Inl e))"
proof (cases "options_value w")
  case (Inl e)
  then have "\<exists>e. onload_handler engine w = (w, Inl e)"
    by (cases "wGlobals w ''SwaggerUIBundle''") (simp_all add: onload_handler_def js_ident_def)
  then show ?thesis ..
next
  case (Inr opts)
  then obtain bnd apis standalone downloadUrl prs pls where
    b: "wGlobals w ''SwaggerUIBundle'' = Some bnd" "wGlobals w ''SwaggerUIStandalonePreset'' = Some standalone"
    and m: "js_member bnd ''presets'' = Inr prs" "js_member prs ''apis'' = Inr apis"
      "js_member bnd ''plugins'' = Inr pls" "js_member pls ''DownloadUrl'' = Inr downloadUrl"
    by (auto simp: options_value_def presets_value_def plugins_value_def js_ident_def bind_js_eq_Inr
        simp del: js_member.simps split: option.splits)
  show ?thesis
  proof (cases "\<exists>f ps. bnd = JFunction f ps")
    case True
    then obtain f ps where "bnd = JFunction f ps" by blast
    with b m have "bundle_ready w f apis standalone downloadUrl"
      by (auto simp: bundle_ready_def simp del: js_member.simps)
    with onload_ready [OF this] show ?thesis by blast
  next
    case False
    with Inr b have "onload_handler engine w = (w, Inl (TypeError ''not a function''))"
      by (cases bnd) (simp_all add: onload_handler_def js_ident_def js_call_def)
    then show ?thesis by blast
  qed
qed

text \<open>Without the script of the bundle, or without that of the preset, the handler throws a
  ReferenceError for the missing name and nothing is called.\<close>

theorem onload_reports_missing_script:
  "onload_handler engine (demo_vendor ''swagger-ui-standalone-preset.js'' empty_window) =
     (demo_vendor ''swagger-ui-standalone-preset.js'' empty_window, Inl (ReferenceError ''SwaggerUIBundle'')) \<and>
   onload_handler engine (demo_vendor ''swagger-ui-bundle.js'' empty_window) =
     (demo_vendor ''swagger-ui-bundle.js'' empty_window, Inl (ReferenceError ''SwaggerUIStandalonePreset''))"
  by (simp_all add: demo_vendor_def empty_window_def onload_missing demo_bundle_def
      onload_handler_def js_ident_def options_value_def presets_value_def)

section \<open>The page\<close>

lemma page_served [simp]:
  "served_file ''/api/swagger-ui-bundle.js'' = Some ''swagger-ui-bundle.js''"
  "served_file ''/api/swagger-ui-standalone-preset.js'' = Some ''swagger-ui-standalone-preset.js''"
  "served_file ''/api/swagger-initializer.js'' = Some ''swagger-initializer.js''"
  "served_file ''/api/openapi.yaml'' = Some ''openapi.yaml''"
  using served_files by (simp_all add: swagger_files_def page_path_def)

lemma page_not_served [simp]:
  "served_file ''/swagger-ui-bundle.js'' = None"
  "served_file ''/swagger-ui-standalone-preset.js'' = None"
  "served_file ''/swagger-initializer.js'' = None"
  by code_simp+


text \<open>C21: Opened at /api/, the page runs the two scripts of the library and the initializer in this
  order, and the load event then calls SwaggerUIBundle with the options; window.ui is its result.\<close>

theorem page_starts_ui:
  assumes "w = vendor ''swagger-ui-standalone-preset.js'' (vendor ''swagger-ui-bundle.js'' empty_window)"
    and "bundle_ready w f apis standalone downloadUrl"
    and "engine f [ui_options apis standalone downloadUrl] (initializer_script w) = (w', Inr ui)"
  shows "load_page served_file vendor engine ''/api/'' = (w'\<lparr>wGlobals := (wGlobals w')(''ui'' \<mapsto> ui)\<rparr>, Inr ())"
proof -
  have "fold (run_script served_file vendor ''/api/'') page_scripts empty_window = initializer_script w"
    by (simp add: page_scripts_def run_script_def resolve_def assms(1))
  then have "load_page served_file vendor engine ''/api/'' = onload_handler engine (initializer_script w)"
    by (simp add: load_page_def empty_window_def fire_load_def initializer_script_def)
  moreover have "bundle_ready (initializer_script w) f apis standalone downloadUrl"
    using assms(2) by (simp add: bundle_ready_def initializer_script_def)
  ultimately show ?thesis using onload_ready assms(3) by simp
qed

theorem page_starts_ui_witness:
  "wGlobals (fst (load_page served_file demo_vendor demo_engine ''/api/'')) ''ui'' =
     Some (JArray [ui_options (JArray []) (JArray []) (JFunction 2 [])])"
proof -
  let ?w = "demo_vendor ''swagger-ui-standalone-preset.js'' (demo_vendor ''swagger-ui-bundle.js'' empty_window)"
  have "bundle_ready ?w 1 (JArray []) (JArray []) (JFunction 2 [])"
    by (simp add: bundle_ready_def demo_vendor_def empty_window_def demo_bundle_def)
  from page_starts_ui [of ?w demo_vendor, OF _ this, of demo_engine] show ?thesis
    by (simp add: demo_engine_def)
qed


section \<open>The routes\<close>

text \<open>C24: A path below /api whose segments match a pattern of the table is handled by that pattern's
  handler, with the segments at the parameters: no route is hidden by another one or by the files.\<close>

theorem route_reaches_endpoint:
  assumes "(p, e) \<in> set api_routes" and "match_segs p ss = Some vs" and "\<forall>s \<in> set ss. CHR ''/'' \<notin> set s"
  shows "route (api_root @ join_segs ss) = Endpoint e vs"
  by (rule route_endpoint [OF assms])

theorem route_reaches_endpoint_witness:
  "route ''/api/fork/1.2.3.4/generators/100'' = Endpoint EpForkGenerators [''1.2.3.4'', ''100'']"
  using route_reaches_endpoint [of "[Lit ''fork'', Param, Lit ''generators'', Param]" EpForkGenerators
      "[''fork'', ''1.2.3.4'', ''generators'', ''100'']"]
  by (simp add: api_routes_def join_segs_def api_root_def)

end
