(* ===== verification/PeersStorage.thy ===== *)
theory PeersStorage
  imports LevelDB
begin

text \<open>
  \<open>peers/peer.go\<close>, \<open>peers/state.go\<close>, \<open>peers/by_name.go\<close> and \<open>peers/storage.go\<close>: the peers the
  detector knows and the store that keeps them under the four bytes of their IPv4 addresses.
\<close>

section \<open>Peers\<close>

text \<open>A state is any byte: a stored one may be none of the three constants.\<close>

type_synonym State = byte

definition PeerUnknown :: State where "PeerUnknown = 0"
definition PeerConnected :: State where "PeerConnected = 1"
definition PeerHostile :: State where "PeerHostile = 2"

lemma peer_states [simp]:
  "PeerUnknown \<noteq> PeerConnected" "PeerConnected \<noteq> PeerUnknown" "PeerUnknown \<noteq> PeerHostile"
  "PeerHostile \<noteq> PeerUnknown" "PeerConnected \<noteq> PeerHostile" "PeerHostile \<noteq> PeerConnected"
  by (simp_all add: PeerUnknown_def PeerConnected_def PeerHostile_def)

text \<open>
  Versions are values of package \<open>proto\<close>, a parameter \<open>'v\<close>. Names are Go strings, that is,
  bytes. Times are nanoseconds, \<open>None\<close> is the zero \<open>time.Time\<close>. The field \<open>p\<close> of the Go struct,
  the network connection of the peer, is \<open>pConn\<close>.
\<close>

record ('v, 'c) Peer =
  AddressPort :: addr_port
  Nonce :: u64
  pName :: bytes
  Version :: 'v
  pState :: State
  NextAttempt :: "int option"
  pScore :: "int option"
  pConn :: "'c option"

record 'v value_rec =
  vPort :: u16
  vNonce :: u64
  vName :: bytes
  vVersion :: bytes
  vState :: State
  vNextAttempt :: "int option"
  vScore :: "int option"

section \<open>What the code takes from elsewhere\<close>

text \<open>
  \<open>val_marshal\<close>, \<open>val_unmarshal\<close>: \<open>cbor\<close> of a stored value. \<open>db_all\<close>: an iterator over the
  whole store. The fields from \<open>ver_string\<close> to \<open>ver_less\<close>: type \<open>proto.Version\<close> with its zero
  value, \<open>Version.String\<close>, \<open>NewVersionFromString\<close>, \<open>NewVersion\<close>, \<open>Major\<close>, \<open>Minor\<close>,
  \<open>CmpMinor\<close> and the order of \<open>ByVersion\<close>. \<open>valid_utf8\<close>: \<open>utf8.ValidString\<close>;
  \<open>to_upper\<close>: \<open>strings.ToUpper\<close>. \<open>range_conns\<close>: the order in which a map of connections is
  visited.
\<close>

record ('db, 'v) penv =
  pdb :: "'db leveldb"
  db_all :: "'db \<Rightarrow> (bytes \<times> bytes) list"
  val_marshal :: "'v value_rec \<Rightarrow> bytes res"
  val_unmarshal :: "bytes \<Rightarrow> 'v value_rec res"
  ver_zero :: 'v
  ver_string :: "'v \<Rightarrow> bytes"
  ver_of_string :: "bytes \<Rightarrow> 'v res"
  ver_new :: "u32 \<Rightarrow> u32 \<Rightarrow> u32 \<Rightarrow> 'v"
  ver_major :: "'v \<Rightarrow> u32"
  ver_minor :: "'v \<Rightarrow> u32"
  ver_cmp_minor :: "'v \<Rightarrow> 'v \<Rightarrow> int"
  ver_less :: "'v \<Rightarrow> 'v \<Rightarrow> bool"
  valid_utf8 :: "bytes \<Rightarrow> bool"
  to_upper :: "bytes \<Rightarrow> bytes"
  range_conns :: "addr list \<Rightarrow> addr list"

text \<open>Times are encoded with a precision of a second.\<close>

definition second :: int where "second = 1000000000"

definition whole_seconds :: "int option \<Rightarrow> bool" where
  "whole_seconds t \<longleftrightarrow> (case t of None \<Rightarrow> True | Some n \<Rightarrow> second dvd n)"

text \<open>\<open>Round(time.Second)\<close>, half up.\<close>

definition round_second :: "int \<Rightarrow> int" where
  "round_second n = (n + second div 2) div second * second"

lemma whole_round [simp]: "whole_seconds (Some (round_second n))" "whole_seconds None"
  by (simp_all add: whole_seconds_def round_second_def)

text \<open>
  Documented behaviour: the store as for the blocks; decoding undoes encoding for times of
  whole seconds; parsing undoes printing of a version; a range visits every key once.
\<close>

definition penv_ok :: "('db, 'v) penv \<Rightarrow> bool" where
  "penv_ok E \<longleftrightarrow>
     leveldb_ok (pdb E) \<and> leveldb_live (pdb E) \<and>
     (\<forall>db. sorted_wrt (<) (map fst (db_all E db))) \<and>
     (\<forall>db k v. (k, v) \<in> set (db_all E db) \<longleftrightarrow> db_get (pdb E) db k = Ok v) \<and>
     (\<forall>x. is_ok (val_marshal E x)) \<and>
     (\<forall>x buf. val_marshal E x = Ok buf \<longrightarrow> whole_seconds (vNextAttempt x) \<longrightarrow> val_unmarshal E buf = Ok x) \<and>
     (\<forall>v. ver_of_string E (ver_string E v) = Ok v) \<and>
     valid_utf8 E [] \<and>
     (\<forall>ks. mset (range_conns E ks) = mset ks)"

lemma penv_okD:
  assumes "penv_ok E"
  shows "leveldb_ok (pdb E)" "leveldb_live (pdb E)" "sorted_wrt (<) (map fst (db_all E db))"
    "(k, v) \<in> set (db_all E db) \<longleftrightarrow> db_get (pdb E) db k = Ok v" "\<exists>buf. val_marshal E x = Ok buf"
    "val_marshal E x = Ok buf \<Longrightarrow> whole_seconds (vNextAttempt x) \<Longrightarrow> val_unmarshal E buf = Ok x"
    "ver_of_string E (ver_string E w) = Ok w" "valid_utf8 E []" "mset (range_conns E ks) = mset ks"
  using assms unfolding penv_ok_def is_ok_iff by blast+

section \<open>Keys\<close>

definition addrSize :: nat where "addrSize = 4"

text \<open>
  \<open>key.bytes\<close>: \<open>MarshalBinary\<close> of the zero address is empty and slicing it panics; an IPv6
  address, whose bytes are 16 and its zone, is cut.
\<close>

fun key_bytes :: "addr \<Rightarrow> bytes res" where
  "key_bytes AddrZero = Panic"
| "key_bytes (Addr4 w) = Ok (take addrSize (be_bytes 4 (unat w)))"
| "key_bytes (Addr6 w z) = Ok (take addrSize (be_bytes 16 (unat w)))"

definition key_fromBytes :: "bytes \<Rightarrow> addr res" where
  "key_fromBytes bs = (if length bs \<noteq> addrSize then Panic else Ok (Addr4 (word_of_nat (be_nat bs))))"

section \<open>Operations\<close>

definition zero_peer :: "('db, 'v) penv \<Rightarrow> ('v, 'c) Peer" where
  "zero_peer E =
     \<lparr>AddressPort = \<lparr>ap_addr = AddrZero, ap_port = 0\<rparr>, Nonce = 0, pName = [], Version = ver_zero E,
      pState = PeerUnknown, NextAttempt = None, pScore = None, pConn = None\<rparr>"

text \<open>The peer both \<open>peer\<close> and \<open>peers\<close> build from a value.\<close>

definition peer_of :: "('db, 'v) penv \<Rightarrow> addr \<Rightarrow> 'v value_rec \<Rightarrow> ('v, 'c) Peer res" where
  "peer_of E a x =
     bind_res (ver_of_string E (vVersion x)) (\<lambda>ver.
     Ok \<lparr>AddressPort = \<lparr>ap_addr = a, ap_port = vPort x\<rparr>, Nonce = vNonce x, pName = vName x,
         Version = ver, pState = vState x, NextAttempt = vNextAttempt x, pScore = vScore x,
         pConn = None\<rparr>)"

text \<open>
  A value that does not decode is not an error here: the variable the code returns is the nil
  error of the lookup, with the zero peer.
\<close>

definition st_peer :: "('db, 'v) penv \<Rightarrow> 'db \<Rightarrow> addr \<Rightarrow> ('v, 'c) Peer res" where
  "st_peer E db a =
     with_snapshot (pdb E) db (\<lambda>sn.
     bind_res (key_bytes a) (\<lambda>k.
     bind_res (db_get (pdb E) sn k) (\<lambda>v.
     case val_unmarshal E v of
       Err _ \<Rightarrow> Ok (zero_peer E)
     | Panic \<Rightarrow> Panic
     | Ok x \<Rightarrow> peer_of E a x)))"

definition to_value :: "('db, 'v) penv \<Rightarrow> ('v, 'c) Peer \<Rightarrow> 'v value_rec" where
  "to_value E p =
     \<lparr>vPort = ap_port (AddressPort p), vNonce = Nonce p, vName = pName p,
      vVersion = ver_string E (Version p), vState = pState p, vNextAttempt = NextAttempt p,
      vScore = pScore p\<rparr>"

definition putPeer :: "('db, 'v) penv \<Rightarrow> ('v, 'c) Peer \<Rightarrow> 'db \<Rightarrow> 'db res" where
  "putPeer E p db =
     (if \<not> Is4 (ap_addr (AddressPort p)) then Err ErrInvalidAddress
      else if \<not> valid_utf8 E (pName p) then Err ErrInvalidName
      else
        bind_res (val_marshal E (to_value E p)) (\<lambda>b.
        bind_res (key_bytes (ap_addr (AddressPort p))) (\<lambda>k.
        db_write (pdb E) db [BPut k b])))"

definition st_peers :: "('db, 'v) penv \<Rightarrow> 'db \<Rightarrow> ('v, 'c) Peer list res" where
  "st_peers E db =
     with_snapshot (pdb E) db (\<lambda>sn.
     mapM_res
       (\<lambda>(k, v).
          bind_res (key_fromBytes k) (\<lambda>a.
          bind_res (val_unmarshal E v) (peer_of E a)))
       (db_all E sn))"

definition st_hasPeer :: "('db, 'v) penv \<Rightarrow> 'db \<Rightarrow> addr \<Rightarrow> bool res" where
  "st_hasPeer E db a =
     with_snapshot (pdb E) db (\<lambda>sn.
     bind_res (key_bytes a) (\<lambda>k.
     case db_get (pdb E) sn k of
       Ok _ \<Rightarrow> Ok True
     | Err ErrNotFound \<Rightarrow> Ok False
     | Err e \<Rightarrow> Err e
     | Panic \<Rightarrow> Panic))"

section \<open>What the store represents\<close>

text \<open>
  A map from IPv4 addresses to peers, the connections left out. Every key has four bytes.
\<close>

definition stored_ok :: "('db, 'v) penv \<Rightarrow> u32 \<Rightarrow> ('v, 'c) Peer \<Rightarrow> bool" where
  "stored_ok E w p \<longleftrightarrow>
     ap_addr (AddressPort p) = Addr4 w \<and> pConn p = None \<and> whole_seconds (NextAttempt p) \<and>
     valid_utf8 E (pName p)"

definition preg :: "('db, 'v) penv \<Rightarrow> 'db \<Rightarrow> (u32 \<rightharpoonup> ('v, 'c) Peer) \<Rightarrow> bool" where
  "preg E db pm \<longleftrightarrow>
     (\<forall>k. db_get (pdb E) db k \<noteq> Panic \<and> (\<forall>e. db_get (pdb E) db k = Err e \<longrightarrow> e = ErrNotFound)) \<and>
     (\<forall>k v. db_get (pdb E) db k = Ok v \<longrightarrow> length k = 4) \<and>
     (\<forall>w. db_get (pdb E) db (be_bytes 4 (unat w)) =
        (case pm w of None \<Rightarrow> Err ErrNotFound | Some p \<Rightarrow> val_marshal E (to_value E p))) \<and>
     (\<forall>w p. pm w = Some p \<longrightarrow> stored_ok E w p)"

lemma take_addr_key [simp]: "take addrSize (be_bytes 4 n) = be_bytes 4 n"
  by (simp add: addrSize_def)

lemma peer_of_value: "penv_ok E \<Longrightarrow> stored_ok E w p \<Longrightarrow> peer_of E (Addr4 w) (to_value E p) = Ok p"
  by (cases p; cases "AddressPort p")
     (simp add: peer_of_def to_value_def stored_ok_def penv_okD)

lemma unmarshal_stored:
  assumes "penv_ok E" "stored_ok E w p" "val_marshal E (to_value E p) = Ok buf"
  shows "val_unmarshal E buf = Ok (to_value E p)"
  using penv_okD(6) [OF assms(1,3)] assms(2) by (simp add: stored_ok_def to_value_def)

lemma st_peer_rep:
  assumes E: "penv_ok E" and R: "preg E db pm"
  shows "st_peer E db (Addr4 w) = (case pm w of None \<Rightarrow> Err ErrNotFound | Some p \<Rightarrow> Ok p)"
proof (cases "pm w")
  case None
  then have "db_get (pdb E) db (be_bytes 4 (unat w)) = Err ErrNotFound" using R by (simp add: preg_def)
  with None show ?thesis by (simp add: st_peer_def penv_okD(2) [OF E])
next
  case (Some p)
  obtain buf where buf: "val_marshal E (to_value E p) = Ok buf" using penv_okD(5) [OF E] by blast
  have g: "db_get (pdb E) db (be_bytes 4 (unat w)) = Ok buf" and p: "stored_ok E w p"
    using R Some buf by (simp_all add: preg_def)
  with Some show ?thesis
    by (simp add: st_peer_def penv_okD(2) [OF E] unmarshal_stored [OF E p buf] peer_of_value [OF E p])
qed

text \<open>
  Any other address is looked up as well: under its first four bytes, so an IPv6 address finds
  the peer of some IPv4 address.
\<close>

definition key4 :: "addr \<Rightarrow> u32" where
  "key4 a = word_of_nat (be_nat (take 4 (AsSlice a)))"

lemma key_bytes_key4: "a \<noteq> AddrZero \<Longrightarrow> key_bytes a = Ok (be_bytes 4 (unat (key4 a)))"
proof (cases a)
  case (Addr4 w)
  then show ?thesis by (simp add: key4_def be_nat_u32)
next
  case (Addr6 w z)
  let ?b = "take 4 (be_bytes 16 (unat w))"
  have l: "length ?b = 4" by simp
  have "be_nat ?b < 256 ^ 4" using be_nat_bound [of ?b] by simp
  then have "unat (word_of_nat (be_nat ?b) :: u32) = be_nat ?b" by (simp add: unat_of_nat)
  with be_bytes_be_nat [OF l] show ?thesis by (simp add: Addr6 key4_def addrSize_def)
qed simp

lemma st_peer_any:
  assumes E: "penv_ok E" and R: "preg E db pm" and a: "a \<noteq> AddrZero"
  shows "st_peer E db a =
    (case pm (key4 a) of
       None \<Rightarrow> Err ErrNotFound
     | Some p \<Rightarrow> Ok (p\<lparr>AddressPort := \<lparr>ap_addr = a, ap_port = ap_port (AddressPort p)\<rparr>\<rparr>))"
proof (cases "pm (key4 a)")
  case None
  then have "db_get (pdb E) db (be_bytes 4 (unat (key4 a))) = Err ErrNotFound" using R by (simp add: preg_def)
  with None show ?thesis by (simp add: st_peer_def penv_okD(2) [OF E] key_bytes_key4 [OF a])
next
  case (Some p)
  obtain buf where buf: "val_marshal E (to_value E p) = Ok buf" using penv_okD(5) [OF E] by blast
  have g: "db_get (pdb E) db (be_bytes 4 (unat (key4 a))) = Ok buf" and p: "stored_ok E (key4 a) p"
    using R Some buf by (simp_all add: preg_def)
  have "peer_of E a (to_value E p) = Ok (p\<lparr>AddressPort := \<lparr>ap_addr = a, ap_port = ap_port (AddressPort p)\<rparr>\<rparr>)"
    using p by (cases p) (simp add: peer_of_def to_value_def stored_ok_def penv_okD(7) [OF E])
  with Some g show ?thesis
    by (simp add: st_peer_def penv_okD(2) [OF E] key_bytes_key4 [OF a] unmarshal_stored [OF E p buf])
qed

lemma st_hasPeer_rep:
  assumes E: "penv_ok E" and R: "preg E db pm"
  shows "st_hasPeer E db (Addr4 w) = Ok (pm w \<noteq> None)"
proof (cases "pm w")
  case None
  then have "db_get (pdb E) db (be_bytes 4 (unat w)) = Err ErrNotFound" using R by (simp add: preg_def)
  with None show ?thesis by (simp add: st_hasPeer_def penv_okD(2) [OF E])
next
  case (Some p)
  obtain buf where buf: "val_marshal E (to_value E p) = Ok buf" using penv_okD(5) [OF E] by blast
  have "db_get (pdb E) db (be_bytes 4 (unat w)) = Ok buf" using R Some buf by (simp add: preg_def)
  with Some show ?thesis by (simp add: st_hasPeer_def penv_okD(2) [OF E])
qed

lemma be_bytes_u32_inject: "be_bytes 4 (unat (v :: u32)) = be_bytes 4 (unat w) \<longleftrightarrow> v = w"
  by (metis be_nat_u32 word_unat_eq_iff)

text \<open>Putting a peer with an acceptable address and name stores it, without its connection.\<close>

definition acceptable :: "('db, 'v) penv \<Rightarrow> u32 \<Rightarrow> ('v, 'c) Peer \<Rightarrow> bool" where
  "acceptable E w p \<longleftrightarrow>
     ap_addr (AddressPort p) = Addr4 w \<and> valid_utf8 E (pName p) \<and> whole_seconds (NextAttempt p)"

lemma putPeer_refines:
  assumes E: "penv_ok E" and R: "preg E db pm" and p: "acceptable E w p"
  shows "\<exists>db'. putPeer E p db = Ok db' \<and> preg E db' (pm(w \<mapsto> p\<lparr>pConn := None\<rparr>))"
proof -
  obtain buf where buf: "val_marshal E (to_value E p) = Ok buf" using penv_okD(5) [OF E] by blast
  let ?k = "be_bytes 4 (unat w)"
  obtain db' where db': "db_write (pdb E) db [BPut ?k buf] = Ok db'"
    using leveldb_liveD(2) [OF penv_okD(2) [OF E]] by blast
  have put: "putPeer E p db = Ok db'"
    using p buf db' by (simp add: putPeer_def acceptable_def)
  have get: "db_get (pdb E) db' k = (if ?k = k then Ok buf else db_get (pdb E) db k)" for k
    using leveldb_okD(2) [OF penv_okD(1) [OF E] db'] by simp
  have v: "to_value E (p\<lparr>pConn := None\<rparr>) = to_value E p" by (simp add: to_value_def)
  have "preg E db' (pm(w \<mapsto> p\<lparr>pConn := None\<rparr>))"
    unfolding preg_def
  proof (intro conjI allI impI)
    fix k v e assume "db_get (pdb E) db' k = Ok v"
    then show "length k = 4" using R by (auto simp: get preg_def split: if_splits)
  next
    fix u
    show "db_get (pdb E) db' (be_bytes 4 (unat u)) =
        (case (pm(w \<mapsto> p\<lparr>pConn := None\<rparr>)) u of None \<Rightarrow> Err ErrNotFound | Some p \<Rightarrow> val_marshal E (to_value E p))"
      using R buf by (auto simp: get be_bytes_u32_inject v preg_def)
  next
    fix u q assume "(pm(w \<mapsto> p\<lparr>pConn := None\<rparr>)) u = Some q"
    then show "stored_ok E u q" using R p by (auto simp: preg_def stored_ok_def acceptable_def split: if_splits)
  qed (use R in \<open>auto simp: get preg_def split: if_splits\<close>)
  with put show ?thesis by blast
qed

text \<open>An unacceptable one is refused and nothing changes.\<close>

lemma putPeer_refuses:
  "\<not> Is4 (ap_addr (AddressPort p)) \<Longrightarrow> putPeer E p db = Err ErrInvalidAddress"
  "Is4 (ap_addr (AddressPort p)) \<Longrightarrow> \<not> valid_utf8 E (pName p) \<Longrightarrow> putPeer E p db = Err ErrInvalidName"
  by (simp_all add: putPeer_def)

section \<open>Listing the peers\<close>

text \<open>All peers, each once, in the order of their addresses.\<close>

lemma st_peers_rep:
  assumes E: "penv_ok E" and R: "preg E db pm"
  shows "\<exists>ws. st_peers E db = Ok (map (\<lambda>w. the (pm w)) ws) \<and> set ws = dom pm \<and> sorted_wrt (<) ws"
proof -
  let ?all = "db_all E db"
  define key where "key = (\<lambda>kv :: bytes \<times> bytes. word_of_nat (be_nat (fst kv)) :: u32)"
  have kv: "length (fst x) = 4 \<and> be_bytes 4 (unat (key x)) = fst x \<and> pm (key x) \<noteq> None \<and>
      (\<forall>p. pm (key x) = Some p \<longrightarrow> val_marshal E (to_value E p) = Ok (snd x) \<and> stored_ok E (key x) p)"
    if "x \<in> set ?all" for x
  proof -
    obtain k v where x: "x = (k, v)" by (cases x)
    have g: "db_get (pdb E) db k = Ok v" using that penv_okD(4) [OF E] by (simp add: x)
    then have len: "length k = 4" using R by (auto simp: preg_def)
    have "be_nat k < 256 ^ 4" using be_nat_bound [of k] len by simp
    then have "unat (key x) = be_nat k" by (simp add: key_def x unat_of_nat)
    then have k: "be_bytes 4 (unat (key x)) = k" using be_bytes_be_nat [OF len] by simp
    have "db_get (pdb E) db (be_bytes 4 (unat (key x))) =
        (case pm (key x) of None \<Rightarrow> Err ErrNotFound | Some p \<Rightarrow> val_marshal E (to_value E p))"
      using R unfolding preg_def by blast
    then show ?thesis using g len R unfolding k by (auto simp: x preg_def k split: option.splits)
  qed
  have step: "(\<lambda>(k, v). bind_res (key_fromBytes k) (\<lambda>a. bind_res (val_unmarshal E v) (peer_of E a))) x =
      Ok (the (pm (key x)))" if x: "x \<in> set ?all" for x
  proof -
    obtain p where p: "pm (key x) = Some p" "val_marshal E (to_value E p) = Ok (snd x)" "stored_ok E (key x) p"
      using kv [OF x] by blast
    have "key_fromBytes (fst x) = Ok (Addr4 (key x))"
      using kv [OF x] by (simp add: key_fromBytes_def addrSize_def key_def)
    with p unmarshal_stored [OF E p(3,2)] peer_of_value [OF E p(3)] show ?thesis
      by (cases x) simp
  qed
  have 1: "st_peers E db = Ok (map (\<lambda>x. the (pm (key x))) ?all)"
    using mapM_res_Ok [OF step] by (simp add: st_peers_def penv_okD(2) [OF E])
  have "w \<in> key ` set ?all" if "pm w = Some p" for w p
  proof -
    obtain buf where "val_marshal E (to_value E p) = Ok buf" using penv_okD(5) [OF E] by blast
    then have "db_get (pdb E) db (be_bytes 4 (unat w)) = Ok buf" using R that by (simp add: preg_def)
    then have "(be_bytes 4 (unat w), buf) \<in> set ?all" using penv_okD(4) [OF E] by blast
    moreover have "key (be_bytes 4 (unat w), buf) = w" by (simp add: key_def be_nat_u32)
    ultimately show ?thesis by force
  qed
  then have 2: "set (map key ?all) = dom pm" using kv by fastforce
  have "sorted_wrt (\<lambda>x y. fst x < fst y) ?all" using penv_okD(3) [OF E] by (simp add: sorted_wrt_map)
  then have "sorted_wrt (\<lambda>x y. key x < key y) ?all"
  proof (rule sorted_wrt_mono_rel [rotated])
    fix x y assume "x \<in> set ?all" "y \<in> set ?all" "fst x < fst y"
    then have "be_nat (fst x) < be_nat (fst y)" "unat (key x) = be_nat (fst x)" "unat (key y) = be_nat (fst y)"
      using kv [of x] kv [of y] be_nat_less_iff [of "fst x" "fst y"] by (auto simp: be_nat_u32 dest!: sym [of "be_bytes 4 _"])
    then show "key x < key y" by (simp add: word_less_nat_alt)
  qed
  then have "sorted_wrt (<) (map key ?all)" by (simp add: sorted_wrt_map)
  with 1 2 show ?thesis by (intro exI [of _ "map key ?all"]) (simp add: comp_def)
qed

section \<open>Sorting by name\<close>

definition name_less :: "('db, 'v) penv \<Rightarrow> ('v, 'c) Peer \<Rightarrow> ('v, 'c) Peer \<Rightarrow> bool" where
  "name_less E x y = (to_upper E (pName x) < to_upper E (pName y))"

interpretation name_order: strict_weak_order "name_less E" for E
  by unfold_locales (auto simp: name_less_def)

end
