(* ===== verification/Registry.thy ===== *)
theory Registry
  imports PeersStorage "HOL-Library.AList"
begin

text \<open>
  \<open>peers/registry.go\<close> and \<open>peers/version_provider.go\<close>: the registry of the peers, with the
  connections that are open and the addresses that are being connected to. Every operation
  holds the mutex, so it is one step on the state. What is done to a connection is written to
  the list \<open>rgNet\<close>; the clock is an argument of the operations that read it.
\<close>

section \<open>State\<close>

text \<open>
  A handshake of package \<open>proto\<close>. \<open>hsDeclared\<close>: \<open>None\<close> when the declared address is empty,
  otherwise the answer of \<open>netip.ParseAddrPort\<close> for its text.
\<close>

record 'v handshake =
  hsAppName :: bytes
  hsNodeName :: bytes
  hsNonce :: u64
  hsVersion :: 'v
  hsDeclared :: "addr_port res option"

text \<open>A connection of package \<open>peer\<close>: its identity and what \<open>Handshake()\<close> answers.\<close>

record 'v conn =
  cnId :: nat
  cnHandshake :: "'v handshake"

datatype 'm netop = CloseConn nat | SendMessage nat 'm

type_synonym 'v rpeer = "('v, 'v conn) Peer"

record ('db, 'v, 'm) registry =
  rgScheme :: byte
  rgVersions :: "'v list"
  rgDeclared :: addr
  rgSt :: 'db
  rgConns :: "(addr \<times> 'v conn) list"
  rgPending :: "addr set"
  rgNet :: "'m netop list"

type_synonym ('db, 'v, 'm, 'a) rg_action = "(('db, 'v, 'm) registry, 'a) action"

text \<open>\<open>10 * time.Minute\<close>.\<close>

definition delay :: int where "delay = 10 * 60 * 1000000000"

section \<open>Versions\<close>

text \<open>\<open>sort.Reverse\<close> swaps the arguments of \<open>Less\<close>; then the patch numbers are cleared.\<close>

definition newVersions :: "('db, 'v) penv \<Rightarrow> 'v list \<Rightarrow> 'v list" where
  "newVersions E vs =
     map (\<lambda>v. ver_new E (ver_major E v) (ver_minor E v) 0) (sort_by (\<lambda>x y. ver_less E y x) vs)"

definition bestVersion :: "'v list \<Rightarrow> 'v res" where
  "bestVersion vs = slice_get vs 0"

text \<open>The loop of \<open>nextVersion\<close>: the index of the first entry of the same minor version.\<close>

fun version_index :: "('db, 'v) penv \<Rightarrow> 'v \<Rightarrow> 'v list \<Rightarrow> nat" where
  "version_index E v [] = 0"
| "version_index E v (x # xs) =
     (if ver_major E v = ver_major E x \<and> ver_minor E v = ver_minor E x then 0
      else Suc (version_index E v xs))"

definition nextVersion :: "('db, 'v) penv \<Rightarrow> 'v \<Rightarrow> 'v list \<Rightarrow> 'v res" where
  "nextVersion E v vs =
     (let i = version_index E v vs in
      if int i \<ge> int (length vs) - 1 then slice_get vs 0 else slice_get vs (i + 1))"

section \<open>Creation\<close>

definition NewRegistry ::
  "('db, 'v) penv \<Rightarrow> byte \<Rightarrow> addr_port res option \<Rightarrow> 'v list \<Rightarrow> 'db \<Rightarrow> ('db, 'v, 'm) registry res" where
  "NewRegistry E scheme declared vs db =
     bind_res (case declared of None \<Rightarrow> Ok AddrZero | Some r \<Rightarrow> bind_res r (\<lambda>ap. Ok (ap_addr ap))) (\<lambda>a.
     Ok \<lparr>rgScheme = scheme, rgVersions = newVersions E vs, rgDeclared = a, rgSt = db, rgConns = [],
         rgPending = {}, rgNet = []\<rparr>)"

section \<open>Calls\<close>

definition close_conn :: "'v conn \<Rightarrow> ('db, 'v, 'm) registry \<Rightarrow> ('db, 'v, 'm) registry" where
  "close_conn np r = r\<lparr>rgNet := rgNet r @ [CloseConn (cnId np)]\<rparr>"

definition put_peer :: "('db, 'v) penv \<Rightarrow> 'v rpeer \<Rightarrow> ('db, 'v, 'm, unit) rg_action" where
  "put_peer E p r =
     (case putPeer E p (rgSt r) of
        Ok db \<Rightarrow> (r\<lparr>rgSt := db\<rparr>, Ok ())
      | Err e \<Rightarrow> (r, Err e)
      | Panic \<Rightarrow> (r, Panic))"

definition get_peer :: "('db, 'v) penv \<Rightarrow> addr \<Rightarrow> ('db, 'v, 'm, 'v rpeer) rg_action" where
  "get_peer E a r = (r, st_peer E (rgSt r) a)"

section \<open>Registering\<close>

definition checkPort :: "addr \<Rightarrow> 'v conn \<Rightarrow> 'v handshake \<Rightarrow> ('db, 'v, 'm, u16) rg_action" where
  "checkPort a np hs r =
     (case hsDeclared hs of
        None \<Rightarrow> (r, Ok 0)
      | Some Panic \<Rightarrow> (r, Panic)
      | Some (Err e) \<Rightarrow> (r, Err ErrParse)
      | Some (Ok ha) \<Rightarrow>
          if IsLoopback (ap_addr ha) then (close_conn np r, Err ErrInvalidAddress)
          else if \<not> Is4 (ap_addr ha) then (close_conn np r, Err ErrInvalidAddress)
          else if ap_addr ha \<noteq> a then (r, Ok 0)
          else (r, Ok (ap_port ha)))"

text \<open>The two branches of \<open>RegisterPeer\<close> that refuse an incompatible peer are alike.\<close>

definition refuse_peer :: "('db, 'v) penv \<Rightarrow> 'v conn \<Rightarrow> 'v rpeer \<Rightarrow> ('db, 'v, 'm, unit) rg_action" where
  "refuse_peer E np p r =
     (let hs = cnHandshake np;
          p = p\<lparr>pState := PeerHostile, Version := hsVersion hs,
                pName := hsNodeName hs @ [40] @ hsAppName hs @ [41]\<rparr>
      in put_peer E p (close_conn np r))"

definition register_found ::
  "('db, 'v) penv \<Rightarrow> int \<Rightarrow> addr \<Rightarrow> 'v conn \<Rightarrow> 'v handshake \<Rightarrow> 'v rpeer \<Rightarrow> ('db, 'v, 'm, unit) rg_action" where
  "register_found E now a np hs p r =
     (if ver_cmp_minor E (hsVersion (cnHandshake np)) (Version p) \<ge> 2 then refuse_peer E np p r
      else if hsAppName (cnHandshake np) = [] then (r, Panic)
      else if last (hsAppName (cnHandshake np)) \<noteq> rgScheme r then refuse_peer E np p r
      else
        bind_act (checkPort a np hs) (\<lambda>port r.
          let p = p\<lparr>AddressPort := \<lparr>ap_addr = a, ap_port = port\<rparr>, Nonce := hsNonce hs,
                    pName := hsNodeName hs, Version := hsVersion hs, pState := PeerConnected,
                    NextAttempt := Some (round_second now), pConn := Some np\<rparr>
          in put_peer E p (r\<lparr>rgConns := AList.update a np (rgConns r)\<rparr>)) r)"

text \<open>
  The test for a hostile peer looks at the peer that comes with a failed lookup, which is the
  zero peer.
\<close>

definition RegisterPeer ::
  "('db, 'v) penv \<Rightarrow> int \<Rightarrow> addr \<Rightarrow> 'v conn \<Rightarrow> 'v handshake \<Rightarrow> ('db, 'v, 'm, unit) rg_action" where
  "RegisterPeer E now a np hs r =
     (let r = r\<lparr>rgPending := rgPending r - {a}\<rparr> in
      if \<not> Is4 a then (close_conn np r, Err ErrInvalidAddress)
      else if a = rgDeclared r then (r, Err ErrSelfConnection)
      else
        (case st_peer E (rgSt r) a of
           Panic \<Rightarrow> (r, Panic)
         | Err e \<Rightarrow>
             if e \<noteq> ErrNotFound then (close_conn np r, Err e)
             else if pState (zero_peer E :: 'v rpeer) = PeerHostile then (close_conn np r, Err ErrHostile)
             else register_found E now a np hs (zero_peer E) r
         | Ok p \<Rightarrow> register_found E now a np hs p r))"

definition UpdatePeerScore :: "('db, 'v) penv \<Rightarrow> addr \<Rightarrow> int option \<Rightarrow> ('db, 'v, 'm, unit) rg_action" where
  "UpdatePeerScore E a score =
     bind_act (get_peer E a) (\<lambda>p. put_peer E (p\<lparr>pScore := score\<rparr>))"

definition UnregisterPeer :: "('db, 'v) penv \<Rightarrow> int \<Rightarrow> addr \<Rightarrow> ('db, 'v, 'm, unit) rg_action" where
  "UnregisterPeer E now a =
     bind_act (get_peer E a) (\<lambda>p r.
       put_peer E (p\<lparr>NextAttempt := Some (round_second (now + delay)), pConn := None\<rparr>)
         (r\<lparr>rgPending := rgPending r - {a}, rgConns := AList.delete a (rgConns r)\<rparr>))"

text \<open>
  \<open>parsed\<close>: the answer of \<open>netip.ParseAddr\<close> for the text of the address. An unknown peer is the
  zero peer here.
\<close>

definition MarkAsHostile :: "('db, 'v) penv \<Rightarrow> addr res \<Rightarrow> ('db, 'v, 'm, unit) rg_action" where
  "MarkAsHostile E parsed r =
     (case parsed of
        Err e \<Rightarrow> (r, Err e)
      | Panic \<Rightarrow> (r, Panic)
      | Ok a \<Rightarrow>
          let r = r\<lparr>rgPending := rgPending r - {a}\<rparr>;
              hostile = (\<lambda>p. put_peer E (p\<lparr>AddressPort := \<lparr>ap_addr = a, ap_port = 0\<rparr>, pState := PeerHostile\<rparr>) r)
          in (case st_peer E (rgSt r) a of
                Panic \<Rightarrow> (r, Panic)
              | Err e \<Rightarrow> if e \<noteq> ErrNotFound then (r, Err e) else hostile (zero_peer E)
              | Ok p \<Rightarrow> hostile p))"

section \<open>Lists\<close>

definition Connections :: "('db, 'v) penv \<Rightarrow> ('db, 'v, 'm) registry \<Rightarrow> 'v rpeer list res" where
  "Connections E r =
     bind_res
       (mapM_res (\<lambda>a. bind_res (st_peer E (rgSt r) a) (\<lambda>sp. Ok (sp\<lparr>pConn := map_of (rgConns r) a\<rparr>)))
         (range_conns E (map fst (rgConns r))))
       (\<lambda>connections. Ok (sort_by (name_less E) connections))"

definition PeerOf :: "('db, 'v) penv \<Rightarrow> addr \<Rightarrow> ('db, 'v, 'm) registry \<Rightarrow> 'v rpeer res" where
  "PeerOf E a r = st_peer E (rgSt r) a"

definition Peers :: "('db, 'v) penv \<Rightarrow> ('db, 'v, 'm) registry \<Rightarrow> 'v rpeer list res" where
  "Peers E r = bind_res (st_peers E (rgSt r)) (\<lambda>ps. Ok (sort_by (name_less E) ps))"

definition FriendlyPeers :: "('db, 'v) penv \<Rightarrow> ('db, 'v, 'm) registry \<Rightarrow> 'v rpeer list res" where
  "FriendlyPeers E r =
     bind_res (st_peers E (rgSt r)) (\<lambda>ps.
     Ok (sort_by (name_less E) (filter (\<lambda>p. pState p = PeerConnected) ps)))"

text \<open>\<open>As4\<close> panics on the zero address; an IPv6 address is only accepted when it maps an IPv4 one.\<close>

definition TCPAddr :: "('v, 'c) Peer \<Rightarrow> addr_port res" where
  "TCPAddr p = (if Is4 (ap_addr (AddressPort p)) then Ok (AddressPort p) else Panic)"

definition Addresses :: "('db, 'v) penv \<Rightarrow> ('db, 'v, 'm) registry \<Rightarrow> addr_port list res" where
  "Addresses E r = bind_res (FriendlyPeers E r) (mapM_res TCPAddr)"

section \<open>Addresses\<close>

text \<open>The loop of \<open>AppendAddresses\<close>; it ends at the first failure of the store. An address that does not parse is skipped.\<close>

fun appendLoop :: "('db, 'v) penv \<Rightarrow> addr_port res list \<Rightarrow> nat \<Rightarrow> ('db, 'v, 'm, nat) rg_action" where
  "appendLoop E [] cnt r = (r, Ok cnt)"
| "appendLoop E (Panic # as) cnt r = (r, Panic)"
| "appendLoop E (Err e # as) cnt r = appendLoop E as cnt r"
| "appendLoop E (Ok ap # as) cnt r =
     (if \<not> Is4 (ap_addr ap) then appendLoop E as cnt r
      else if IsLoopback (ap_addr ap) then appendLoop E as cnt r
      else if ap_addr ap = rgDeclared r then appendLoop E as cnt r
      else
        (case st_hasPeer E (rgSt r) (ap_addr ap) of
           Panic \<Rightarrow> (r, Panic)
         | Err e \<Rightarrow> (r, Ok cnt)
         | Ok yes \<Rightarrow>
             if yes then appendLoop E as cnt r
             else
               (case put_peer E ((zero_peer E)\<lparr>AddressPort := ap, pState := PeerUnknown\<rparr>) r of
                  (r, Panic) \<Rightarrow> (r, Panic)
                | (r, Err e) \<Rightarrow> (r, Ok cnt)
                | (r, Ok _) \<Rightarrow> appendLoop E as (cnt + 1) r)))"

definition AppendAddresses :: "('db, 'v) penv \<Rightarrow> addr_port res list \<Rightarrow> ('db, 'v, 'm, nat) rg_action" where
  "AppendAddresses E as = appendLoop E as 0"

text \<open>The tests of the loop of \<open>TakeAvailableAddresses\<close>.\<close>

definition available :: "int \<Rightarrow> ('db, 'v, 'm) registry \<Rightarrow> 'v rpeer \<Rightarrow> bool" where
  "available now r p \<longleftrightarrow>
     \<not> (pState p = PeerHostile) \<and>
     \<not> (ap_port (AddressPort p) = 0) \<and>
     \<not> (ap_addr (AddressPort p) = rgDeclared r) \<and>
     \<not> (case NextAttempt p of None \<Rightarrow> False | Some t \<Rightarrow> t > now) \<and>
     map_of (rgConns r) (ap_addr (AddressPort p)) = None \<and>
     ap_addr (AddressPort p) \<notin> rgPending r"

fun takeLoop :: "int \<Rightarrow> 'v rpeer list \<Rightarrow> addr_port list \<Rightarrow> ('db, 'v, 'm, addr_port list) rg_action" where
  "takeLoop now [] as r = (r, Ok as)"
| "takeLoop now (p # ps) as r =
     (if available now r p
      then takeLoop now ps (as @ [AddressPort p])
             (r\<lparr>rgPending := insert (ap_addr (AddressPort p)) (rgPending r)\<rparr>)
      else takeLoop now ps as r)"

definition TakeAvailableAddresses :: "('db, 'v) penv \<Rightarrow> int \<Rightarrow> ('db, 'v, 'm, addr_port list) rg_action" where
  "TakeAvailableAddresses E now r =
     (case st_peers E (rgSt r) of
        Err e \<Rightarrow> (r, Err e)
      | Panic \<Rightarrow> (r, Panic)
      | Ok ps \<Rightarrow> takeLoop now ps [] r)"

section \<open>Messages and versions\<close>

definition Broadcast :: "('db, 'v) penv \<Rightarrow> 'm \<Rightarrow> ('db, 'v, 'm) registry \<Rightarrow> ('db, 'v, 'm) registry" where
  "Broadcast E msg r =
     r\<lparr>rgNet := rgNet r @ map (\<lambda>a. SendMessage (cnId (the (map_of (rgConns r) a))) msg)
        (range_conns E (map fst (rgConns r)))\<rparr>"

definition SuggestVersion :: "('db, 'v) penv \<Rightarrow> int \<Rightarrow> addr \<Rightarrow> ('db, 'v, 'm, 'v) rg_action" where
  "SuggestVersion E now a r =
     (case st_peer E (rgSt r) a of
        Panic \<Rightarrow> (r, Panic)
      | Err e \<Rightarrow>
          if e \<noteq> ErrNotFound then (r, Err e)
          else
            bind_act (\<lambda>r. (r, bestVersion (rgVersions r))) (\<lambda>ver.
            bind_act (put_peer E ((zero_peer E)\<lparr>AddressPort := \<lparr>ap_addr = a, ap_port = 0\<rparr>, Version := ver,
              NextAttempt := Some (round_second (now + delay)), pState := PeerUnknown\<rparr>)) (\<lambda>_.
            return_act ver)) r
      | Ok p \<Rightarrow>
          if pState p = PeerUnknown then
            bind_act (\<lambda>r. (r, nextVersion E (Version p) (rgVersions r))) (\<lambda>ver.
            bind_act (put_peer E (p\<lparr>Version := ver, NextAttempt := Some (round_second (now + delay))\<rparr>)) (\<lambda>_.
            return_act ver)) r
          else if pState p = PeerConnected then (r, Ok (Version p))
          else if pState p = PeerHostile then (r, Err ErrHostile)
          else (r, Err ErrImpossibleState))"

end
