(* ===== verification/RegistrySpec.thy ===== *)
theory RegistrySpec
  imports Registry
begin

text \<open>
  What the registry stands for: a map from IPv4 addresses to peers and, in memory, the open
  connections and the addresses being connected to. The invariant below is kept by every
  operation.
\<close>

section \<open>The invariant\<close>

text \<open>
  Every connection has a key of its own, an IPv4 address with a stored peer, which is not the
  address of the node itself.
\<close>

definition conns_ok :: "(u32 \<rightharpoonup> 'v rpeer) \<Rightarrow> ('db, 'v, 'm) registry \<Rightarrow> bool" where
  "conns_ok pm r \<longleftrightarrow>
     distinct (map fst (rgConns r)) \<and>
     (\<forall>a c. map_of (rgConns r) a = Some c \<longrightarrow> a \<noteq> rgDeclared r \<and> (\<exists>w. a = Addr4 w \<and> pm w \<noteq> None))"

definition reg_rep :: "('db, 'v) penv \<Rightarrow> ('db, 'v, 'm) registry \<Rightarrow> (u32 \<rightharpoonup> 'v rpeer) \<Rightarrow> bool" where
  "reg_rep E r pm \<longleftrightarrow> preg E (rgSt r) pm \<and> conns_ok pm r"

definition reg_inv :: "('db, 'v) penv \<Rightarrow> ('db, 'v, 'm) registry \<Rightarrow> bool" where
  "reg_inv E r \<longleftrightarrow> (\<exists>pm. reg_rep E r pm)"

lemma conns_ok_mono: "conns_ok pm r \<Longrightarrow> dom pm \<subseteq> dom pm' \<Longrightarrow> conns_ok pm' (r\<lparr>rgSt := db\<rparr>)"
  unfolding conns_ok_def by (auto simp: subset_iff) blast

lemma reg_inv_simps [simp]:
  "reg_inv E (r\<lparr>rgPending := p\<rparr>) = reg_inv E r" "reg_inv E (r\<lparr>rgNet := n\<rparr>) = reg_inv E r"
  "reg_inv E (close_conn c r) = reg_inv E r"
  "reg_rep E (r\<lparr>rgPending := p\<rparr>) pm = reg_rep E r pm" "reg_rep E (r\<lparr>rgNet := n\<rparr>) pm = reg_rep E r pm"
  "reg_rep E (close_conn c r) pm = reg_rep E r pm"
  by (simp_all add: reg_inv_def reg_rep_def conns_ok_def close_conn_def)

lemma reg_repI: "preg E (rgSt r) pm \<Longrightarrow> conns_ok pm r \<Longrightarrow> reg_rep E r pm"
  by (simp add: reg_rep_def)

lemma put_peer_rep:
  assumes E: "penv_ok E" and R: "reg_rep E r pm" and p: "acceptable E w p"
  shows "\<exists>db. put_peer E p r = (r\<lparr>rgSt := db\<rparr>, Ok ()) \<and> reg_rep E (r\<lparr>rgSt := db\<rparr>) (pm(w \<mapsto> p\<lparr>pConn := None\<rparr>))"
proof -
  from putPeer_refines [OF E _ p] R obtain db where
    db: "putPeer E p (rgSt r) = Ok db" "preg E db (pm(w \<mapsto> p\<lparr>pConn := None\<rparr>))"
    unfolding reg_rep_def by blast
  have "conns_ok (pm(w \<mapsto> p\<lparr>pConn := None\<rparr>)) (r\<lparr>rgSt := db\<rparr>)"
    using R by (auto intro: conns_ok_mono simp: reg_rep_def)
  with db show ?thesis by (auto simp: put_peer_def reg_rep_def)
qed

text \<open>Whatever is put, either the peer is stored or the state is the same.\<close>

lemma put_peer_cases:
  assumes E: "penv_ok E" and w: "whole_seconds (NextAttempt p)"
  obtains (stored) v where "acceptable E v p"
  | (refused) e where "put_peer E p r = (r, Err e)" "\<not> valid_utf8 E (pName p) \<or> \<not> Is4 (ap_addr (AddressPort p))"
proof (cases "Is4 (ap_addr (AddressPort p))")
  case False
  then show thesis by (intro refused) (simp_all add: put_peer_def putPeer_def)
next
  case True
  then obtain v where v: "ap_addr (AddressPort p) = Addr4 v" by (cases "ap_addr (AddressPort p)") auto
  show thesis
  proof (cases "valid_utf8 E (pName p)")
    case True
    with v w stored [of v] show thesis by (simp add: acceptable_def)
  next
    case False
    with True show thesis by (intro refused) (simp_all add: put_peer_def putPeer_def)
  qed
qed

lemma put_peer_keeps:
  assumes E: "penv_ok E" and I: "reg_inv E r" and w: "whole_seconds (NextAttempt p)"
  shows "reg_inv E (fst (put_peer E p r))"
  using E w
proof (cases rule: put_peer_cases [where r = r])
  case (stored v)
  with I put_peer_rep [OF E _ stored] show ?thesis by (fastforce simp: reg_inv_def)
qed (use I in simp)

lemma st_peer_whole:
  fixes r :: "('db, 'v, 'm) registry" and p :: "'v rpeer"
  assumes E: "penv_ok E" and I: "reg_inv E r" and p: "st_peer E (rgSt r) a = Ok p"
  shows "whole_seconds (NextAttempt p)" "pConn p = None" "valid_utf8 E (pName p)" "ap_addr (AddressPort p) = a"
proof -
  from I obtain pm :: "u32 \<rightharpoonup> 'v rpeer" where R: "preg E (rgSt r) pm" by (auto simp: reg_inv_def reg_rep_def)
  have "a \<noteq> AddrZero" using p penv_okD(2) [OF E] by (auto simp: st_peer_def)
  note q = st_peer_any [OF E R this] and R' = R [unfolded preg_def]
  from q p obtain x where "pm (key4 a) = Some x"
    "p = x\<lparr>AddressPort := \<lparr>ap_addr = a, ap_port = ap_port (AddressPort x)\<rparr>\<rparr>" by (auto split: option.splits)
  with R' show "whole_seconds (NextAttempt p)" "pConn p = None" "valid_utf8 E (pName p)" "ap_addr (AddressPort p) = a"
    by (auto simp: stored_ok_def)
qed

lemma st_peer_error:
  fixes r :: "('db, 'v, 'm) registry"
  assumes E: "penv_ok E" and I: "reg_inv E r" and p: "(st_peer E (rgSt r) a :: 'v rpeer res) = Err e"
  shows "e = ErrNotFound"
proof -
  from I obtain pm :: "u32 \<rightharpoonup> 'v rpeer" where R: "preg E (rgSt r) pm" by (auto simp: reg_inv_def reg_rep_def)
  have "a \<noteq> AddrZero" using p penv_okD(2) [OF E] by (auto simp: st_peer_def)
  from st_peer_any [OF E R this] p show ?thesis by (auto split: option.splits)
qed


section \<open>Every operation keeps it\<close>

text \<open>A step that puts a peer after changes that drop connections or touch nothing else.\<close>

lemma keeps_put: "penv_ok E \<Longrightarrow> whole_seconds (NextAttempt p) \<Longrightarrow> keeps (reg_inv E) (put_peer E p)"
  unfolding keeps_def using put_peer_keeps by blast

lemma conns_delete: "conns_ok pm r \<Longrightarrow> conns_ok pm (r\<lparr>rgPending := s, rgConns := AList.delete a (rgConns r)\<rparr>)"
  by (auto simp: conns_ok_def delete_conv' distinct_delete split: if_splits)

lemma inv_delete: "reg_inv E r \<Longrightarrow> reg_inv E (r\<lparr>rgPending := s, rgConns := AList.delete a (rgConns r)\<rparr>)"
  using conns_delete by (fastforce simp: reg_inv_def reg_rep_def)

lemma conns_update:
  assumes "conns_ok pm r" "a \<noteq> rgDeclared r" "a = Addr4 w"
  shows "conns_ok (pm(w \<mapsto> p)) (r\<lparr>rgConns := AList.update a np (rgConns r), rgSt := db\<rparr>)"
  unfolding conns_ok_def
proof (intro conjI allI impI)
  show "distinct (map fst (rgConns (r\<lparr>rgConns := AList.update a np (rgConns r), rgSt := db\<rparr>)))"
    using assms(1) by (simp add: conns_ok_def distinct_update)
  fix b c assume b: "map_of (rgConns (r\<lparr>rgConns := AList.update a np (rgConns r), rgSt := db\<rparr>)) b = Some c"
  show "b \<noteq> rgDeclared (r\<lparr>rgConns := AList.update a np (rgConns r), rgSt := db\<rparr>)"
    and "\<exists>v. b = Addr4 v \<and> (pm(w \<mapsto> p)) v \<noteq> None"
    using b assms by (auto simp: conns_ok_def update_conv' split: if_splits)
qed

lemma checkPort_state: "fst (checkPort a np hs r) = r \<or> fst (checkPort a np hs r) = close_conn np r"
  by (auto simp: checkPort_def split: option.split res.split)

lemma refuse_keeps:
  assumes "penv_ok E" "reg_inv E r" "whole_seconds (NextAttempt p)"
  shows "reg_inv E (fst (refuse_peer E np p r))"
  unfolding refuse_peer_def Let_def by (rule put_peer_keeps [OF assms(1)]) (use assms in simp_all)

lemma register_found_keeps:
  fixes r :: "('db, 'v, 'm) registry"
  assumes E: "penv_ok E" and I: "reg_inv E r" and p: "whole_seconds (NextAttempt p)"
    and a: "Is4 a" "a \<noteq> rgDeclared r" and name: "valid_utf8 E (hsNodeName hs)"
  shows "reg_inv E (fst (register_found E now a np hs p r))"
proof -
  obtain w where w: "a = Addr4 w" using a(1) by (cases a) auto
  let ?p = "\<lambda>port. p\<lparr>AddressPort := \<lparr>ap_addr = a, ap_port = port\<rparr>, Nonce := hsNonce hs,
                    pName := hsNodeName hs, Version := hsVersion hs, pState := PeerConnected,
                    NextAttempt := Some (round_second now), pConn := Some np\<rparr>"
  have put: "reg_inv E (fst (put_peer E (?p port) (s\<lparr>rgConns := AList.update a np (rgConns s)\<rparr>)))"
    if s: "s = r \<or> s = close_conn np r" for s :: "('db, 'v, 'm) registry" and port
  proof -
    have "reg_inv E s" and d: "a \<noteq> rgDeclared s" using I a(2) s by (auto simp: close_conn_def)
    then obtain pm where R: "preg E (rgSt s) pm" "conns_ok pm s" by (auto simp: reg_inv_def reg_rep_def)
    have acc: "acceptable E w (?p port)" using name by (simp add: acceptable_def w)
    from putPeer_refines [OF E R(1) acc] obtain db where
      db: "putPeer E (?p port) (rgSt s) = Ok db" "preg E db (pm(w \<mapsto> (?p port)\<lparr>pConn := None\<rparr>))" by blast
    from conns_update [OF R(2) d w] db show ?thesis by (auto simp: put_peer_def reg_inv_def reg_rep_def)
  qed
  have port: "reg_inv E (fst (bind_act (checkPort a np hs) (\<lambda>port r.
          put_peer E (?p port) (r\<lparr>rgConns := AList.update a np (rgConns r)\<rparr>)) r))"
  proof (cases "checkPort a np hs r")
    case (Pair s x)
    then have s: "s = r \<or> s = close_conn np r" using checkPort_state [of a np hs r] by simp
    then have "reg_inv E s" using I by auto
    with Pair put [OF s] show ?thesis by (cases x) (simp_all add: bind_act_def)
  qed
  show ?thesis
    unfolding register_found_def Let_def using port refuse_keeps [OF E I p] I by simp
qed

lemma RegisterPeer_keeps:
  fixes r :: "('db, 'v, 'm) registry"
  assumes E: "penv_ok E" and I: "reg_inv E r" and name: "valid_utf8 E (hsNodeName hs)"
  shows "reg_inv E (fst (RegisterPeer E now a np hs r))"
proof -
  let ?r = "r\<lparr>rgPending := rgPending r - {a}\<rparr>"
  have I': "reg_inv E ?r" using I by simp
  have z: "whole_seconds (NextAttempt (zero_peer E :: 'v rpeer))" by (simp add: zero_peer_def)
  have found: "reg_inv E (fst (register_found E now a np hs p ?r))"
    if "whole_seconds (NextAttempt p)" "Is4 a" "a \<noteq> rgDeclared r" for p
    using register_found_keeps [OF E I' that(1,2) _ name] that(3) by simp
  show ?thesis
    using I found [OF z] st_peer_whole(1) [OF E I, of a] found
    by (auto simp: RegisterPeer_def Let_def split: res.split)
qed

lemma keeps_get_put:
  fixes f :: "'v rpeer \<Rightarrow> 'v rpeer"
  assumes "penv_ok E" "\<And>p. whole_seconds (NextAttempt p) \<Longrightarrow> whole_seconds (NextAttempt (f p))"
  shows "keeps (reg_inv E) (bind_act (get_peer E a) (\<lambda>p. put_peer E (f p)) :: ('db, 'v, 'm, unit) rg_action)"
  unfolding keeps_def
proof (intro allI impI)
  fix r :: "('db, 'v, 'm) registry" assume I: "reg_inv E r"
  show "reg_inv E (fst (bind_act (get_peer E a) (\<lambda>p. put_peer E (f p)) r))"
  proof (cases "st_peer E (rgSt r) a :: 'v rpeer res")
    case (Ok p)
    then show ?thesis
      using put_peer_keeps [OF assms(1) I assms(2) [OF st_peer_whole(1) [OF assms(1) I Ok]]]
      by (simp add: bind_act_def get_peer_def)
  qed (use I in \<open>simp_all add: bind_act_def get_peer_def\<close>)
qed

lemma UpdatePeerScore_keeps: "penv_ok E \<Longrightarrow> keeps (reg_inv E) (UpdatePeerScore E a s)"
  unfolding UpdatePeerScore_def by (rule keeps_get_put) simp_all

lemma UnregisterPeer_keeps: "penv_ok E \<Longrightarrow> keeps (reg_inv E) (UnregisterPeer E now a)"
  unfolding keeps_def UnregisterPeer_def bind_act_def get_peer_def
  by (auto split: res.split intro!: put_peer_keeps inv_delete)

lemma MarkAsHostile_keeps:
  fixes r :: "('db, 'v, 'm) registry"
  assumes E: "penv_ok E" and I: "reg_inv E r"
  shows "reg_inv E (fst (MarkAsHostile E parsed r))"
proof (cases parsed)
  case (Ok a)
  have "reg_inv E (fst (put_peer E (p\<lparr>AddressPort := \<lparr>ap_addr = a, ap_port = 0\<rparr>, pState := PeerHostile\<rparr>)
      (r\<lparr>rgPending := rgPending r - {a}\<rparr>)))" if "whole_seconds (NextAttempt p)" for p :: "'v rpeer"
    by (rule put_peer_keeps [OF E]) (use I that in simp_all)
  note k = this [of "zero_peer E"] this [OF st_peer_whole(1) [OF E I, of a]]
  have "whole_seconds (NextAttempt (zero_peer E :: 'v rpeer))" by (simp add: zero_peer_def)
  with k I show ?thesis by (auto simp: Ok MarkAsHostile_def Let_def split: res.split)
qed (use I in \<open>simp_all add: MarkAsHostile_def\<close>)

lemma appendLoop_keeps: "penv_ok E \<Longrightarrow> reg_inv E r \<Longrightarrow> reg_inv E (fst (appendLoop E as c r))"
proof (induction E as c r rule: appendLoop.induct)
  case (4 E ap as c r)
  let ?p = "(zero_peer E)\<lparr>AddressPort := ap, pState := PeerUnknown\<rparr>"
  have k: "reg_inv E (fst (put_peer E ?p r))"
    by (rule put_peer_keeps [OF 4(6,7)]) (simp add: zero_peer_def)
  show ?case
    using 4 k by (auto simp: Let_def split: res.splits prod.splits)
qed simp_all

lemma takeLoop_inv [simp]: "reg_inv E (fst (takeLoop now ps as r)) = reg_inv E r"
  by (induction ps arbitrary: as r) simp_all

lemma takeLoop_keeps: "takeLoop now ps as r = (r', x) \<Longrightarrow> reg_inv E r \<Longrightarrow> reg_inv E r'"
  by (metis fst_conv takeLoop_inv)

lemma SuggestVersion_keeps:
  fixes r :: "('db, 'v, 'm) registry"
  assumes E: "penv_ok E" and I: "reg_inv E r"
  shows "reg_inv E (fst (SuggestVersion E now a r))"
proof -
  have k: "keeps (reg_inv E) (bind_act (\<lambda>r. (r, g r)) (\<lambda>ver. bind_act (put_peer E (p ver)) (\<lambda>_. return_act ver)))"
    if "\<And>ver. whole_seconds (NextAttempt (p ver))"
    for g :: "('db, 'v, 'm) registry \<Rightarrow> 'v res" and p :: "'v \<Rightarrow> 'v rpeer"
    by (intro keeps_bind keeps_put [OF E] keeps_return that) (simp add: keeps_def)
  show ?thesis
  proof (cases "st_peer E (rgSt r) a :: 'v rpeer res")
    case (Ok p)
    show ?thesis
      using I keepsD [OF k I, of "\<lambda>ver. p\<lparr>Version := ver, NextAttempt := Some (round_second (now + delay))\<rparr>"
          "\<lambda>r. nextVersion E (Version p) (rgVersions r)"]
      by (simp add: SuggestVersion_def Ok)
  next
    case (Err e)
    show ?thesis
      using I keepsD [OF k I, of "\<lambda>ver. (zero_peer E)\<lparr>AddressPort := \<lparr>ap_addr = a, ap_port = 0\<rparr>,
          Version := ver, NextAttempt := Some (round_second (now + delay)), pState := PeerUnknown\<rparr>"
          "\<lambda>r. bestVersion (rgVersions r)"]
      by (simp add: SuggestVersion_def Err)
  next
    case Panic
    with I show ?thesis by (simp add: SuggestVersion_def)
  qed
qed

section \<open>Reachable registries\<close>

text \<open>
  A registry is created over any store that represents some peers; then its operations are
  called in any order. The node name of every registered peer is valid UTF-8 here.
\<close>

inductive reg_reach :: "('db, 'v) penv \<Rightarrow> ('db, 'v, 'm) registry \<Rightarrow> bool" for E where
  created: "preg E db (pm :: u32 \<rightharpoonup> 'v rpeer) \<Longrightarrow> NewRegistry E scheme declared vs db = Ok r \<Longrightarrow> reg_reach E r"
| registered: "reg_reach E r \<Longrightarrow> valid_utf8 E (hsNodeName hs) \<Longrightarrow> RegisterPeer E now a np hs r = (r', x) \<Longrightarrow>
    reg_reach E r'"
| scored: "reg_reach E r \<Longrightarrow> UpdatePeerScore E a s r = (r', x) \<Longrightarrow> reg_reach E r'"
| unregistered: "reg_reach E r \<Longrightarrow> UnregisterPeer E now a r = (r', x) \<Longrightarrow> reg_reach E r'"
| hostile: "reg_reach E r \<Longrightarrow> MarkAsHostile E parsed r = (r', x) \<Longrightarrow> reg_reach E r'"
| appended: "reg_reach E r \<Longrightarrow> AppendAddresses E as r = (r', n) \<Longrightarrow> reg_reach E r'"
| taken: "reg_reach E r \<Longrightarrow> TakeAvailableAddresses E now r = (r', ap) \<Longrightarrow> reg_reach E r'"
| broadcast: "reg_reach E r \<Longrightarrow> reg_reach E (Broadcast E msg r)"
| suggested: "reg_reach E r \<Longrightarrow> SuggestVersion E now a r = (r', v) \<Longrightarrow> reg_reach E r'"

lemma reg_reach_inv:
  assumes E: "penv_ok E" and r: "reg_reach E r"
  shows "reg_inv E r"
  using r
proof (induction rule: reg_reach.induct)
  case (created db pm scheme declared vs r)
  then show ?case by (auto simp: NewRegistry_def bind_res_eq_Ok reg_inv_def reg_rep_def conns_ok_def)
next
  case (registered r hs now a np r' x)
  then show ?case using RegisterPeer_keeps [OF E registered.IH, of hs now a np] by simp
next
  case (scored r a s r' x)
  then show ?case using keepsD [OF UpdatePeerScore_keeps [OF E] scored.IH, of a s] by simp
next
  case (unregistered r now a r' x)
  then show ?case using keepsD [OF UnregisterPeer_keeps [OF E] unregistered.IH, of now a] by simp
next
  case (hostile r parsed r' x)
  then show ?case using MarkAsHostile_keeps [OF E hostile.IH, of parsed] by simp
next
  case (appended r as r' n)
  then show ?case using appendLoop_keeps [OF E appended.IH, of as 0] by (simp add: AppendAddresses_def)
next
  case (taken r now r' ap)
  then show ?case
    by (auto simp: TakeAvailableAddresses_def split: res.splits dest: takeLoop_keeps)
next
  case (broadcast r msg)
  then show ?case by (simp add: Broadcast_def)
next
  case (suggested r now a r' v)
  then show ?case using SuggestVersion_keeps [OF E suggested.IH, of now a] by simp
qed

end
