(* ===== verification/RegistryResults.thy ===== *)
theory RegistryResults
  imports RegistrySpec
begin

text \<open>
  What the operations of the registry return and how they change the peers it stands for.
\<close>

section \<open>Reading\<close>

lemma get_peer_rep:
  "penv_ok E \<Longrightarrow> reg_rep E r pm \<Longrightarrow>
    st_peer E (rgSt r) (Addr4 w) = (case pm w of None \<Rightarrow> Err ErrNotFound | Some p \<Rightarrow> Ok p)"
  by (rule st_peer_rep) (simp_all add: reg_rep_def)

lemma stored_peer: "reg_rep E r pm \<Longrightarrow> pm w = Some p \<Longrightarrow> stored_ok E w p"
  by (simp add: reg_rep_def preg_def)

definition connection_of :: "('db, 'v, 'm) registry \<Rightarrow> (u32 \<rightharpoonup> 'v rpeer) \<Rightarrow> 'v rpeer \<Rightarrow> bool" where
  "connection_of r pm p \<longleftrightarrow>
     (\<exists>w c. ap_addr (AddressPort p) = Addr4 w \<and> map_of (rgConns r) (Addr4 w) = Some c \<and> pConn p = Some c \<and>
        pm w = Some (p\<lparr>pConn := None\<rparr>))"

lemma Connections_result:
  assumes E: "penv_ok E" and R: "reg_rep E r pm"
  shows "\<exists>ps. Connections E r = Ok ps \<and>
    mset (map (\<lambda>p. ap_addr (AddressPort p)) ps) = mset (map fst (rgConns r)) \<and>
    sorted_wrt (\<lambda>x y. \<not> name_less E y x) ps \<and> (\<forall>p \<in> set ps. connection_of r pm p)"
proof -
  let ?as = "range_conns E (map fst (rgConns r))"
  let ?f = "\<lambda>a. (case a of Addr4 w \<Rightarrow> the (pm w))\<lparr>pConn := map_of (rgConns r) a\<rparr>"
  have as: "mset ?as = mset (map fst (rgConns r))" by (rule penv_okD(9) [OF E])
  have conn: "\<exists>w c p. a = Addr4 w \<and> map_of (rgConns r) a = Some c \<and> pm w = Some p" if "a \<in> set ?as" for a
  proof -
    have "a \<in> fst ` set (rgConns r)" using that as by (metis set_mset_mset list.set_map)
    then obtain c where "map_of (rgConns r) a = Some c" by (meson image_iff map_of_eq_None_iff not_None_eq)
    with R show ?thesis unfolding reg_rep_def conns_ok_def by blast
  qed
  have step: "bind_res (st_peer E (rgSt r) a) (\<lambda>sp. Ok (sp\<lparr>pConn := map_of (rgConns r) a\<rparr>)) = Ok (?f a)"
    if a: "a \<in> set ?as" for a
    using conn [OF a] get_peer_rep [OF E R] by auto
  have addr: "ap_addr (AddressPort (?f a)) = a" and of: "connection_of r pm (?f a)" if a: "a \<in> set ?as" for a
  proof -
    obtain w c p where w: "a = Addr4 w" "map_of (rgConns r) a = Some c" "pm w = Some p" using conn [OF a] by blast
    from stored_peer [OF R w(3)] have "ap_addr (AddressPort p) = Addr4 w" "p\<lparr>pConn := None\<rparr> = p"
      by (simp_all add: stored_ok_def)
    with w show "ap_addr (AddressPort (?f a)) = a" "connection_of r pm (?f a)"
      by (simp_all add: connection_of_def)
  qed
  have "mapM_res (\<lambda>a. bind_res (st_peer E (rgSt r) a) (\<lambda>sp. Ok (sp\<lparr>pConn := map_of (rgConns r) a\<rparr>))) ?as =
      Ok (map ?f ?as)"
    by (rule mapM_res_Ok) (rule step)
  then have "Connections E r = Ok (sort_by (name_less E) (map ?f ?as))" by (simp add: Connections_def)
  moreover have "mset (map (\<lambda>p. ap_addr (AddressPort p)) (sort_by (name_less E) (map ?f ?as))) = mset (map fst (rgConns r))"
  proof -
    have "mset (map (\<lambda>p. ap_addr (AddressPort p)) (sort_by (name_less E) (map ?f ?as))) =
        mset (map (\<lambda>a. ap_addr (AddressPort (?f a))) ?as)"
      by (simp add: image_mset.compositionality comp_def)
    also have "map (\<lambda>a. ap_addr (AddressPort (?f a))) ?as = ?as" using addr by (simp add: map_idI)
    finally show ?thesis using as by simp
  qed
  moreover have "sorted_wrt (\<lambda>x y. \<not> name_less E y x) (sort_by (name_less E) (map ?f ?as))"
    by (rule name_order.sorted_sort_by)
  ultimately show ?thesis using of by auto
qed

section \<open>Registering\<close>

definition entry_of :: "('db, 'v) penv \<Rightarrow> (u32 \<rightharpoonup> 'v rpeer) \<Rightarrow> u32 \<Rightarrow> 'v rpeer" where
  "entry_of E pm w = (case pm w of None \<Rightarrow> zero_peer E | Some p \<Rightarrow> p)"

text \<open>The peer speaks a version and a network the node accepts.\<close>

definition compatible :: "('db, 'v) penv \<Rightarrow> byte \<Rightarrow> 'v conn \<Rightarrow> 'v rpeer \<Rightarrow> bool" where
  "compatible E scheme np p \<longleftrightarrow>
     ver_cmp_minor E (hsVersion (cnHandshake np)) (Version p) < 2 \<and>
     hsAppName (cnHandshake np) \<noteq> [] \<and> last (hsAppName (cnHandshake np)) = scheme"

definition registered_entry ::
  "('db, 'v) penv \<Rightarrow> (u32 \<rightharpoonup> 'v rpeer) \<Rightarrow> u32 \<Rightarrow> int \<Rightarrow> 'v handshake \<Rightarrow> u16 \<Rightarrow> 'v rpeer" where
  "registered_entry E pm w now hs port =
     (entry_of E pm w)\<lparr>AddressPort := \<lparr>ap_addr = Addr4 w, ap_port = port\<rparr>, Nonce := hsNonce hs,
        pName := hsNodeName hs, Version := hsVersion hs, pState := PeerConnected,
        NextAttempt := Some (round_second now), pConn := None\<rparr>"

definition connecting :: "u32 \<Rightarrow> 'v conn \<Rightarrow> ('db, 'v, 'm) registry \<Rightarrow> ('db, 'v, 'm) registry" where
  "connecting w np r =
     r\<lparr>rgPending := rgPending r - {Addr4 w}, rgConns := AList.update (Addr4 w) np (rgConns r)\<rparr>"

lemma RegisterPeer_found:
  fixes r :: "('db, 'v, 'm) registry"
  assumes E: "penv_ok E" and R: "reg_rep E r pm" and a: "Addr4 w \<noteq> rgDeclared r"
  shows "RegisterPeer E now (Addr4 w) np hs r =
    register_found E now (Addr4 w) np hs (entry_of E pm w) (r\<lparr>rgPending := rgPending r - {Addr4 w}\<rparr>)"
proof -
  have z: "pState (zero_peer E :: 'v rpeer) = PeerUnknown" by (simp add: zero_peer_def)
  show ?thesis
    using a z get_peer_rep [OF E R, of w]
    by (cases "pm w") (simp_all add: RegisterPeer_def entry_of_def Let_def)
qed

lemma register_compatible:
  fixes r :: "('db, 'v, 'm) registry"
  assumes E: "penv_ok E" and R: "reg_rep E r pm" and a: "Addr4 w \<noteq> rgDeclared r"
    and c: "compatible E (rgScheme r) np (entry_of E pm w)"
    and port: "\<And>r. checkPort (Addr4 w) np hs (r :: ('db, 'v, 'm) registry) = (r, Ok port)"
  shows "RegisterPeer E now (Addr4 w) np hs r =
    put_peer E ((registered_entry E pm w now hs port)\<lparr>pConn := Some np\<rparr>) (connecting w np r)"
  using c unfolding RegisterPeer_found [OF E R a]
  by (simp add: register_found_def compatible_def bind_act_def port registered_entry_def connecting_def Let_def)

lemma RegisterPeer_result:
  fixes r :: "('db, 'v, 'm) registry"
  assumes E: "penv_ok E" and R: "reg_rep E r pm" and a: "Addr4 w \<noteq> rgDeclared r"
    and c: "compatible E (rgScheme r) np (entry_of E pm w)"
    and port: "\<And>r. checkPort (Addr4 w) np hs (r :: ('db, 'v, 'm) registry) = (r, Ok port)"
    and name: "valid_utf8 E (hsNodeName hs)"
  shows "\<exists>db. RegisterPeer E now (Addr4 w) np hs r = ((connecting w np r)\<lparr>rgSt := db\<rparr>, Ok ()) \<and>
    reg_rep E ((connecting w np r)\<lparr>rgSt := db\<rparr>) (pm(w \<mapsto> registered_entry E pm w now hs port))"
proof -
  let ?p = "(registered_entry E pm w now hs port)\<lparr>pConn := Some np\<rparr>"
  have acc: "acceptable E w ?p" using name by (simp add: acceptable_def registered_entry_def)
  from R have R': "preg E (rgSt r) pm" "conns_ok pm r" by (simp_all add: reg_rep_def)
  from putPeer_refines [OF E R'(1) acc] obtain db where
    db: "putPeer E ?p (rgSt r) = Ok db" "preg E db (pm(w \<mapsto> ?p\<lparr>pConn := None\<rparr>))" by blast
  have eq: "?p\<lparr>pConn := None\<rparr> = registered_entry E pm w now hs port" by (simp add: registered_entry_def)
  have "conns_ok (pm(w \<mapsto> registered_entry E pm w now hs port)) ((connecting w np r)\<lparr>rgSt := db\<rparr>)"
    using conns_update [OF R'(2) a refl] by (simp add: connecting_def conns_ok_def)
  moreover have "put_peer E ?p (connecting w np r) = ((connecting w np r)\<lparr>rgSt := db\<rparr>, Ok ())"
    using db(1) by (simp add: put_peer_def connecting_def)
  ultimately show ?thesis
    using db(2) unfolding register_compatible [OF E R a c port] eq
    by (intro exI [of _ db]) (simp add: reg_rep_def connecting_def)
qed

text \<open>A new peer whose node name is not UTF-8 is connected but not stored.\<close>

lemma RegisterPeer_bad_name:
  fixes r :: "('db, 'v, 'm) registry"
  assumes E: "penv_ok E" and R: "reg_rep E r pm" and a: "Addr4 w \<noteq> rgDeclared r"
    and c: "compatible E (rgScheme r) np (entry_of E pm w)"
    and port: "\<And>r. checkPort (Addr4 w) np hs (r :: ('db, 'v, 'm) registry) = (r, Ok port)"
    and name: "\<not> valid_utf8 E (hsNodeName hs)"
  shows "RegisterPeer E now (Addr4 w) np hs r = (connecting w np r, Err ErrInvalidName)"
  unfolding register_compatible [OF E R a c port]
  using name by (simp add: put_peer_def putPeer_def registered_entry_def)

text \<open>An incompatible peer that was unknown is not stored either: its address is the zero one.\<close>

lemma RegisterPeer_incompatible_unknown:
  fixes r :: "('db, 'v, 'm) registry"
  assumes E: "penv_ok E" and R: "reg_rep E r pm" and a: "Addr4 w \<noteq> rgDeclared r"
    and c: "\<not> compatible E (rgScheme r) np (zero_peer E)" "hsAppName (cnHandshake np) \<noteq> []"
    and u: "pm w = None"
  shows "RegisterPeer E now (Addr4 w) np hs r =
    (close_conn np (r\<lparr>rgPending := rgPending r - {Addr4 w}\<rparr>), Err ErrInvalidAddress)"
proof -
  have e: "entry_of E pm w = zero_peer E" by (simp add: entry_of_def u)
  have "refuse_peer E np (zero_peer E) s = (close_conn np s, Err ErrInvalidAddress)"
    for s :: "('db, 'v, 'm) registry"
    by (simp add: refuse_peer_def Let_def put_peer_def putPeer_def zero_peer_def)
  with c show ?thesis
    unfolding RegisterPeer_found [OF E R a] e by (auto simp: register_found_def compatible_def)
qed

lemma mapM_res_Err:
  "x \<in> set xs \<Longrightarrow> f x = Err e \<Longrightarrow> \<forall>y \<in> set xs. f y = Err e \<or> is_ok (f y) \<Longrightarrow> mapM_res f xs = Err e"
proof (induction xs)
  case (Cons y ys)
  show ?case
  proof (cases "f y")
    case (Ok z)
    with Cons have "x \<in> set ys" by auto
    with Cons Ok show ?thesis by simp
  qed (use Cons.prems in auto)
qed simp

lemma Connections_broken:
  assumes E: "penv_ok E" and R: "reg_rep E r pm" and u: "pm w = None"
  shows "Connections E (connecting w np r) = Err ErrNotFound"
proof -
  let ?c = "AList.update (Addr4 w) np (rgConns r)"
  let ?as = "range_conns E (map fst ?c)"
  let ?f = "\<lambda>a. bind_res (st_peer E (rgSt r) a) (\<lambda>sp. Ok (sp\<lparr>pConn := map_of ?c a\<rparr>))"
  have set_as: "set ?as = fst ` set ?c"
    using penv_okD(9) [OF E, of "map fst ?c"] by (metis set_mset_mset list.set_map)
  have keys: "fst ` set ?c = insert (Addr4 w) (fst ` set (rgConns r))"
    by (simp add: dom_update [symmetric] dom_map_of_conv_image_fst [symmetric] update_conv')
  have "Addr4 w \<in> set ?as" using set_as keys by simp
  moreover have "?f (Addr4 w) = Err ErrNotFound" using get_peer_rep [OF E R, of w] u by simp
  moreover have "\<forall>a \<in> set ?as. ?f a = Err ErrNotFound \<or> is_ok (?f a)"
  proof
    fix a assume "a \<in> set ?as"
    then have "a = Addr4 w \<or> (\<exists>c. map_of (rgConns r) a = Some c)"
      using set_as keys by (metis (no_types, lifting) image_iff insertE map_of_eq_None_iff not_None_eq)
    then obtain v where "a = Addr4 v" using R unfolding reg_rep_def conns_ok_def by blast
    with get_peer_rep [OF E R, of v] show "?f a = Err ErrNotFound \<or> is_ok (?f a)" by (cases "pm v") auto
  qed
  ultimately have "mapM_res ?f ?as = Err ErrNotFound" by (rule mapM_res_Err)
  then show ?thesis by (simp add: Connections_def connecting_def)
qed

lemma UnregisterPeer_unknown:
  fixes r :: "('db, 'v, 'm) registry" and pm :: "u32 \<rightharpoonup> 'v rpeer"
  assumes E: "penv_ok E" and R: "preg E (rgSt r) pm" and u: "pm w = None"
  shows "UnregisterPeer E now (Addr4 w) r = (r, Err ErrNotFound)"
  using st_peer_rep [OF E R, of w] u by (simp add: UnregisterPeer_def bind_act_def get_peer_def)

end
