(* ===== verification/RegistryQueries.thy ===== *)
theory RegistryQueries
  imports RegistryResults
begin

text \<open>
  What the registry gives out: addresses to connect to, versions to offer, and what a call
  changes in the peers it stands for.
\<close>

section \<open>One peer changes\<close>

lemma UpdatePeerScore_result:
  fixes r :: "('db, 'v, 'm) registry" and pm :: "u32 \<rightharpoonup> 'v rpeer"
  assumes E: "penv_ok E" and R: "reg_rep E r pm" and p: "pm w = Some p"
  shows "\<exists>db. UpdatePeerScore E (Addr4 w) s r = (r\<lparr>rgSt := db\<rparr>, Ok ()) \<and>
    reg_rep E (r\<lparr>rgSt := db\<rparr>) (pm(w \<mapsto> p\<lparr>pScore := s\<rparr>))"
proof -
  have ok: "stored_ok E w p" by (rule stored_peer [OF R p])
  then have "acceptable E w (p\<lparr>pScore := s\<rparr>)" "p\<lparr>pScore := s, pConn := None\<rparr> = p\<lparr>pScore := s\<rparr>"
    by (cases p, simp add: acceptable_def stored_ok_def)+
  with put_peer_rep [OF E R, of w "p\<lparr>pScore := s\<rparr>"] get_peer_rep [OF E R, of w] p
  show ?thesis by (simp add: UpdatePeerScore_def bind_act_def get_peer_def)
qed

text \<open>A peer that leaves: no connection any more, and the next attempt after the delay.\<close>

definition left :: "int \<Rightarrow> 'v rpeer \<Rightarrow> 'v rpeer" where
  "left now p = p\<lparr>NextAttempt := Some (round_second (now + delay))\<rparr>"

definition disconnecting :: "u32 \<Rightarrow> ('db, 'v, 'm) registry \<Rightarrow> ('db, 'v, 'm) registry" where
  "disconnecting w r =
     r\<lparr>rgPending := rgPending r - {Addr4 w}, rgConns := AList.delete (Addr4 w) (rgConns r)\<rparr>"

lemma UnregisterPeer_result:
  fixes r :: "('db, 'v, 'm) registry" and pm :: "u32 \<rightharpoonup> 'v rpeer"
  assumes E: "penv_ok E" and R: "reg_rep E r pm" and p: "pm w = Some p"
  shows "\<exists>db. UnregisterPeer E now (Addr4 w) r = ((disconnecting w r)\<lparr>rgSt := db\<rparr>, Ok ()) \<and>
    reg_rep E ((disconnecting w r)\<lparr>rgSt := db\<rparr>) (pm(w \<mapsto> left now p))"
proof -
  have ok: "stored_ok E w p" by (rule stored_peer [OF R p])
  let ?p = "p\<lparr>NextAttempt := Some (round_second (now + delay)), pConn := None\<rparr>"
  have a: "acceptable E w ?p" "?p\<lparr>pConn := None\<rparr> = left now p"
    using ok by (cases p, simp add: acceptable_def stored_ok_def left_def)+
  have "reg_rep E (disconnecting w r) pm"
    using R conns_delete [of pm r "Addr4 w" "rgPending r - {Addr4 w}"] by (simp add: reg_rep_def disconnecting_def)
  from put_peer_rep [OF E this a(1)] get_peer_rep [OF E R, of w] p a(2) show ?thesis
    by (simp add: UnregisterPeer_def bind_act_def get_peer_def disconnecting_def)
qed

definition banned :: "('db, 'v) penv \<Rightarrow> (u32 \<rightharpoonup> 'v rpeer) \<Rightarrow> u32 \<Rightarrow> 'v rpeer" where
  "banned E pm w = (entry_of E pm w)\<lparr>AddressPort := \<lparr>ap_addr = Addr4 w, ap_port = 0\<rparr>, pState := PeerHostile\<rparr>"

lemma entry_of_ok:
  assumes "penv_ok E" "reg_rep E r pm"
  shows "valid_utf8 E (pName (entry_of E pm w))" "whole_seconds (NextAttempt (entry_of E pm w))"
    "pConn (entry_of E pm w) = None"
proof -
  have "stored_ok E w p" if "pm w = Some p" for p by (rule stored_peer [OF assms(2) that])
  then show "valid_utf8 E (pName (entry_of E pm w))" "whole_seconds (NextAttempt (entry_of E pm w))"
    "pConn (entry_of E pm w) = None"
    using penv_okD(8) [OF assms(1)]
    by (auto simp: entry_of_def zero_peer_def stored_ok_def split: option.splits)
qed

lemma MarkAsHostile_result:
  fixes r :: "('db, 'v, 'm) registry" and pm :: "u32 \<rightharpoonup> 'v rpeer"
  assumes E: "penv_ok E" and R: "reg_rep E r pm"
  shows "\<exists>db. MarkAsHostile E (Ok (Addr4 w)) r = (r\<lparr>rgPending := rgPending r - {Addr4 w}, rgSt := db\<rparr>, Ok ()) \<and>
    reg_rep E (r\<lparr>rgPending := rgPending r - {Addr4 w}, rgSt := db\<rparr>) (pm(w \<mapsto> banned E pm w))"
proof -
  let ?r = "r\<lparr>rgPending := rgPending r - {Addr4 w}\<rparr>"
  note e = entry_of_ok [OF E R, of w]
  then have a: "acceptable E w (banned E pm w)" "(banned E pm w)\<lparr>pConn := None\<rparr> = banned E pm w"
    by (simp_all add: acceptable_def banned_def)
  have "MarkAsHostile E (Ok (Addr4 w)) r = put_peer E (banned E pm w) ?r"
    using get_peer_rep [OF E R, of w]
    by (simp add: MarkAsHostile_def Let_def banned_def entry_of_def split: option.splits)
  with put_peer_rep [OF E _ a(1), of ?r] R a(2) show ?thesis by simp
qed

section \<open>Addresses to connect to\<close>

lemma available_pending:
  "available now (r\<lparr>rgPending := insert a (rgPending r)\<rparr>) p \<longleftrightarrow>
     available now r p \<and> ap_addr (AddressPort p) \<noteq> a"
  by (auto simp: available_def)

lemma takeLoop_result:
  assumes "distinct (map (ap_addr \<circ> AddressPort) ps)"
  shows "takeLoop now ps as r =
    (r\<lparr>rgPending := rgPending r \<union> set (map (ap_addr \<circ> AddressPort) (filter (available now r) ps))\<rparr>,
     Ok (as @ map AddressPort (filter (available now r) ps)))"
  using assms
proof (induction ps arbitrary: as r)
  case (Cons p ps)
  let ?r = "r\<lparr>rgPending := insert (ap_addr (AddressPort p)) (rgPending r)\<rparr>"
  have f: "filter (available now ?r) ps = filter (available now r) ps"
    using Cons.prems by (intro filter_cong refl) (auto simp: available_pending image_iff)
  from Cons.prems have d: "distinct (map (ap_addr \<circ> AddressPort) ps)" by (simp add: comp_def)
  note ih = Cons.IH [OF d, of "as @ [AddressPort p]" ?r, unfolded f]
  show ?case
  proof (cases "available now r p")
    case True
    with ih show ?thesis by (simp add: True)
  next
    case False
    with Cons.IH [OF d] show ?thesis by simp
  qed
qed simp

definition taking :: "(u32 \<rightharpoonup> 'v rpeer) \<Rightarrow> int \<Rightarrow> ('db, 'v, 'm) registry \<Rightarrow> u32 set" where
  "taking pm now r = {w. \<exists>p. pm w = Some p \<and> available now r p}"

lemma TakeAvailable_result:
  fixes r :: "('db, 'v, 'm) registry" and pm :: "u32 \<rightharpoonup> 'v rpeer"
  assumes E: "penv_ok E" and R: "reg_rep E r pm"
  shows "\<exists>ws. TakeAvailableAddresses E now r =
      (r\<lparr>rgPending := rgPending r \<union> Addr4 ` taking pm now r\<rparr>, Ok (map (\<lambda>w. AddressPort (the (pm w))) ws)) \<and>
    set ws = taking pm now r \<and> sorted_wrt (<) ws"
proof -
  from R have R': "preg E (rgSt r) pm" by (simp add: reg_rep_def)
  obtain ws where ws: "st_peers E (rgSt r) = Ok (map (\<lambda>w. the (pm w)) ws)" "set ws = dom pm" "sorted_wrt (<) ws"
    using st_peers_rep [OF E R'] by blast
  let ?ps = "map (\<lambda>w. the (pm w)) ws" and ?ws = "filter (\<lambda>w. available now r (the (pm w))) ws"
  have addr: "ap_addr (AddressPort (the (pm w))) = Addr4 w" if "w \<in> set ws" for w
    using that ws(2) stored_peer [OF R] by (auto simp: stored_ok_def)
  then have "map (ap_addr \<circ> AddressPort) ?ps = map Addr4 ws" by (simp add: comp_def)
  moreover have "distinct (map Addr4 ws)"
    using ws(3) by (auto simp: distinct_map strict_sorted_iff inj_on_def)
  ultimately have "distinct (map (ap_addr \<circ> AddressPort) ?ps)" by (simp only:)
  note take = takeLoop_result [OF this, of now "[]" r]
  have f: "filter (available now r) ?ps = map (\<lambda>w. the (pm w)) ?ws" by (simp add: filter_map comp_def)
  have s: "set ?ws = taking pm now r" using ws(2) by (force simp: taking_def)
  have "map (ap_addr \<circ> AddressPort) (filter (available now r) ?ps) = map Addr4 ?ws"
    unfolding f using addr by simp
  then have "set (map (ap_addr \<circ> AddressPort) (filter (available now r) ?ps)) = Addr4 ` set ?ws"
    by (simp only: list.set_map)
  with take s ws(1,3) f show ?thesis
    by (intro exI [of _ ?ws]) (simp add: TakeAvailableAddresses_def sorted_wrt_filter comp_def)
qed

text \<open>Whatever has been given out is not given out again while it is pending.\<close>

lemma taking_again: "taking pm now' (r\<lparr>rgPending := rgPending r \<union> Addr4 ` taking pm now r\<rparr>) =
    taking pm now' r - {w. \<exists>p. pm w = Some p \<and> ap_addr (AddressPort p) \<in> Addr4 ` taking pm now r}"
  by (auto simp: taking_def available_def)

section \<open>Addresses learned from peers\<close>

definition offered :: "addr \<Rightarrow> addr_port res list \<Rightarrow> u32 set" where
  "offered declared as =
     {w. \<exists>ap. Ok ap \<in> set as \<and> ap_addr ap = Addr4 w \<and> \<not> IsLoopback (Addr4 w) \<and> Addr4 w \<noteq> declared}"

definition learned :: "('db, 'v) penv \<Rightarrow> addr_port \<Rightarrow> 'v rpeer" where
  "learned E ap = (zero_peer E)\<lparr>AddressPort := ap, pState := PeerUnknown\<rparr>"

text \<open>The peers after learning the addresses \<open>as\<close>: the first port named for an address counts.\<close>

definition learns ::
  "('db, 'v) penv \<Rightarrow> addr \<Rightarrow> addr_port res list \<Rightarrow> (u32 \<rightharpoonup> 'v rpeer) \<Rightarrow> (u32 \<rightharpoonup> 'v rpeer) \<Rightarrow> bool" where
  "learns E declared as pm pm' \<longleftrightarrow>
     dom pm' = dom pm \<union> offered declared as \<and>
     (\<forall>w \<in> dom pm. pm' w = pm w) \<and>
     (\<forall>w \<in> offered declared as - dom pm.
        \<exists>ap. Ok ap \<in> set as \<and> ap_addr ap = Addr4 w \<and> pm' w = Some (learned E ap))"

lemma offered_Cons:
  "offered d (Err e # as) = offered d as" "offered d [] = {}"
  "offered d (Ok ap # as) =
     (case ap_addr ap of
        Addr4 w \<Rightarrow> if IsLoopback (Addr4 w) \<or> Addr4 w = d then offered d as else insert w (offered d as)
      | _ \<Rightarrow> offered d as)"
  by (auto simp: offered_def split: addr.split)

lemma finite_offered [simp]: "finite (offered d as)"
proof (induction as)
  case (Cons x as)
  then show ?case by (cases x) (auto simp: offered_Cons offered_def split: addr.split)
qed (simp add: offered_Cons)

lemma learns_skip: "learns E d as pm pm' \<Longrightarrow> offered d (x # as) = offered d as \<Longrightarrow> learns E d (x # as) pm pm'"
  unfolding learns_def by (metis list.set_intros(2))

lemma learns_new:
  assumes "learns E d as (pm(w \<mapsto> learned E ap)) pm'" "pm w = None" "ap_addr ap = Addr4 w"
    "offered d (Ok ap # as) = insert w (offered d as)"
  shows "learns E d (Ok ap # as) pm pm'"
    "card (offered d (Ok ap # as) - dom pm) = Suc (card (offered d as - dom (pm(w \<mapsto> learned E ap))))"
proof -
  have "offered d (Ok ap # as) - dom pm = insert w (offered d as - dom (pm(w \<mapsto> learned E ap)))"
    using assms(2) by (auto simp: assms(4))
  then show "card (offered d (Ok ap # as) - dom pm) = Suc (card (offered d as - dom (pm(w \<mapsto> learned E ap))))"
    by simp
  show "learns E d (Ok ap # as) pm pm'"
    using assms unfolding learns_def by (auto simp: domIff split: if_splits) 
qed

lemma learned_ok: "penv_ok E \<Longrightarrow> ap_addr ap = Addr4 w \<Longrightarrow>
    acceptable E w (learned E ap) \<and> (learned E ap)\<lparr>pConn := None\<rparr> = learned E ap"
  by (simp add: acceptable_def learned_def zero_peer_def penv_okD(8))

lemma appendLoop_result:
  fixes r :: "('db, 'v, 'm) registry" and pm :: "u32 \<rightharpoonup> 'v rpeer"
  assumes E: "penv_ok E" and R: "reg_rep E r pm" and as: "Panic \<notin> set as"
  shows "\<exists>db pm'. appendLoop E as c r =
      (r\<lparr>rgSt := db\<rparr>, Ok (c + card (offered (rgDeclared r) as - dom pm))) \<and>
    reg_rep E (r\<lparr>rgSt := db\<rparr>) pm' \<and> learns E (rgDeclared r) as pm pm'"
  using R as
proof (induction as arbitrary: c r pm)
  case Nil
  then show ?case
    by (intro exI [of _ "rgSt r"] exI [of _ pm]) (simp add: learns_def offered_Cons)
next
  case (Cons x as)
  from Cons.prems(2) have as: "Panic \<notin> set as" by simp
  let ?d = "rgDeclared r"
  have skip: ?case if "appendLoop E (x # as) c r = appendLoop E as c r"
    "offered ?d (x # as) - dom pm = offered ?d as - dom pm" "dom pm \<union> offered ?d (x # as) = dom pm \<union> offered ?d as"
  proof -
    from Cons.IH [OF Cons.prems(1) as, of c] obtain db pm' where *:
      "appendLoop E as c r = (r\<lparr>rgSt := db\<rparr>, Ok (c + card (offered ?d as - dom pm)))"
      "reg_rep E (r\<lparr>rgSt := db\<rparr>) pm'" "learns E ?d as pm pm'" by blast
    then have "learns E ?d (x # as) pm pm'"
      using that(2,3) unfolding learns_def by (metis list.set_intros(2))
    with * that(1,2) show ?thesis by auto
  qed
  show ?case
  proof (cases x)
    case (Ok ap)
    show ?thesis
    proof (cases "ap_addr ap")
      case (Addr4 w)
      show ?thesis
      proof (cases "IsLoopback (Addr4 w) \<or> Addr4 w = ?d \<or> pm w \<noteq> None")
        case True
        with Ok Addr4 st_hasPeer_rep [OF E, of "rgSt r" pm w] Cons.prems(1) show ?thesis
          by (intro skip) (auto simp: reg_rep_def offered_Cons)
      next
        case False
        note a = learned_ok [OF E Addr4]
        from put_peer_rep [OF E Cons.prems(1) a [THEN conjunct1]] a obtain db where db:
          "put_peer E (learned E ap) r = (r\<lparr>rgSt := db\<rparr>, Ok ())"
          "reg_rep E (r\<lparr>rgSt := db\<rparr>) (pm(w \<mapsto> learned E ap))" by auto
        from Cons.IH [OF db(2) as, of "c + 1"] obtain db' pm' where *:
          "appendLoop E as (c + 1) (r\<lparr>rgSt := db\<rparr>) =
             (r\<lparr>rgSt := db'\<rparr>, Ok (c + 1 + card (offered ?d as - dom (pm(w \<mapsto> learned E ap)))))"
          "reg_rep E (r\<lparr>rgSt := db'\<rparr>) pm'" "learns E ?d as (pm(w \<mapsto> learned E ap)) pm'"
          by (auto simp del: fun_upd_apply dom_fun_upd)
        have o: "offered ?d (Ok ap # as) = insert w (offered ?d as)" using False Addr4 by (simp add: offered_Cons)
        have "appendLoop E (x # as) c r = appendLoop E as (c + 1) (r\<lparr>rgSt := db\<rparr>)"
          using False Ok Addr4 db(1) [unfolded learned_def] st_hasPeer_rep [OF E, of "rgSt r" pm w] Cons.prems(1)
          by (simp add: reg_rep_def)
        with * learns_new [OF *(3) _ Addr4 o] False Ok show ?thesis by auto
      qed
    next
      case AddrZero
      with Ok show ?thesis by (intro skip) (simp_all add: offered_Cons)
    next
      case (Addr6 v z)
      with Ok show ?thesis by (intro skip) (simp_all add: offered_Cons)
    qed
  next
    case (Err e)
    then show ?thesis by (intro skip) (simp_all add: offered_Cons)
  qed (use Cons.prems(2) in simp)
qed

end
