(* ===== verification/RegistryVersions.thy ===== *)
theory RegistryVersions
  imports RegistryResults
begin

text \<open>
  The versions the registry suggests to a peer that has not connected yet: the best one first,
  then one after the other, and again from the best one.
\<close>

section \<open>The next version\<close>

definition minor_key :: "('db, 'v) penv \<Rightarrow> 'v \<Rightarrow> u32 \<times> u32" where
  "minor_key E v = (ver_major E v, ver_minor E v)"

lemma version_index_nth:
  "distinct (map (minor_key E) vs) \<Longrightarrow> i < length vs \<Longrightarrow> version_index E (vs ! i) vs = i"
proof (induction vs arbitrary: i)
  case (Cons v vs)
  show ?case
  proof (cases i)
    case (Suc j)
    with Cons.prems have "vs ! j \<in> set vs" by simp
    with Cons.prems have "minor_key E (vs ! j) \<noteq> minor_key E v"
      by (metis distinct.simps(2) image_eqI list.set_map list.simps(9))
    with Suc Cons show ?thesis by (auto simp: minor_key_def)
  qed simp
qed simp

lemma version_index_new: "minor_key E v \<notin> minor_key E ` set vs \<Longrightarrow> version_index E v vs = length vs"
  by (induction vs) (auto simp: minor_key_def)

lemma nextVersion_nth:
  assumes "distinct (map (minor_key E) vs)" "i < length vs"
  shows "nextVersion E (vs ! i) vs = Ok (vs ! (Suc i mod length vs))"
proof (cases "Suc i < length vs")
  case False
  with assms have "Suc i = length vs" by simp
  moreover from assms(2) have "0 < length vs" by linarith
  ultimately show ?thesis using version_index_nth [OF assms] by (simp add: nextVersion_def)
qed (use version_index_nth [OF assms] in \<open>simp add: nextVersion_def\<close>)

lemma nextVersion_new:
  "vs \<noteq> [] \<Longrightarrow> minor_key E v \<notin> minor_key E ` set vs \<Longrightarrow> nextVersion E v vs = Ok (vs ! 0)"
  by (simp add: nextVersion_def version_index_new)

text \<open>Without any version both functions panic.\<close>

lemma no_versions: "bestVersion [] = Panic" "nextVersion E v [] = Panic"
  by (simp_all add: bestVersion_def nextVersion_def)

section \<open>Suggestions\<close>

text \<open>The calls for one address at the times \<open>ts\<close>, and the versions they answer.\<close>

fun suggests :: "('db, 'v) penv \<Rightarrow> addr \<Rightarrow> int list \<Rightarrow> ('db, 'v, 'm, 'v list) rg_action" where
  "suggests E a [] = return_act []"
| "suggests E a (t # ts) =
     bind_act (SuggestVersion E t a) (\<lambda>v. bind_act (suggests E a ts) (\<lambda>vs. return_act (v # vs)))"

definition tried :: "int \<Rightarrow> 'v \<Rightarrow> 'v rpeer \<Rightarrow> 'v rpeer" where
  "tried now v p = p\<lparr>Version := v, NextAttempt := Some (round_second (now + delay))\<rparr>"

definition first_try :: "('db, 'v) penv \<Rightarrow> int \<Rightarrow> u32 \<Rightarrow> 'v \<Rightarrow> 'v rpeer" where
  "first_try E now w v =
     (zero_peer E)\<lparr>AddressPort := \<lparr>ap_addr = Addr4 w, ap_port = 0\<rparr>, Version := v,
       NextAttempt := Some (round_second (now + delay)), pState := PeerUnknown\<rparr>"

lemma SuggestVersion_first:
  fixes r :: "('db, 'v, 'm) registry" and pm :: "u32 \<rightharpoonup> 'v rpeer"
  assumes E: "penv_ok E" and R: "reg_rep E r pm" and vs: "rgVersions r \<noteq> []" and u: "pm w = None"
  shows "\<exists>db p. SuggestVersion E now (Addr4 w) r = (r\<lparr>rgSt := db\<rparr>, Ok (rgVersions r ! 0)) \<and>
    pState p = PeerUnknown \<and> Version p = rgVersions r ! 0 \<and> reg_rep E (r\<lparr>rgSt := db\<rparr>) (pm(w \<mapsto> p))"
proof -
  let ?v = "rgVersions r ! 0"
  let ?p = "first_try E now w ?v"
  have a: "acceptable E w ?p" "?p\<lparr>pConn := None\<rparr> = ?p"
    by (simp_all add: acceptable_def first_try_def zero_peer_def penv_okD(8) [OF E])
  from put_peer_rep [OF E R a(1)] obtain db where
    db: "put_peer E ?p r = (r\<lparr>rgSt := db\<rparr>, Ok ())" "reg_rep E (r\<lparr>rgSt := db\<rparr>) (pm(w \<mapsto> ?p))"
    unfolding a(2) by blast
  have "bestVersion (rgVersions r) = Ok ?v" using vs by (simp add: bestVersion_def)
  then have "SuggestVersion E now (Addr4 w) r = (r\<lparr>rgSt := db\<rparr>, Ok ?v)"
    using get_peer_rep [OF E R, of w] u db(1)
    by (simp add: SuggestVersion_def bind_act_def return_act_def first_try_def)
  moreover have "pState ?p = PeerUnknown" "Version ?p = ?v" by (simp_all add: first_try_def)
  ultimately show ?thesis using db(2) by blast
qed

lemma SuggestVersion_next:
  fixes r :: "('db, 'v, 'm) registry" and pm :: "u32 \<rightharpoonup> 'v rpeer"
  assumes E: "penv_ok E" and R: "reg_rep E r pm" and p: "pm w = Some p" "pState p = PeerUnknown"
    and v: "nextVersion E (Version p) (rgVersions r) = Ok v"
  shows "\<exists>db. SuggestVersion E now (Addr4 w) r = (r\<lparr>rgSt := db\<rparr>, Ok v) \<and>
    reg_rep E (r\<lparr>rgSt := db\<rparr>) (pm(w \<mapsto> tried now v p))"
proof -
  have ok: "stored_ok E w p" by (rule stored_peer [OF R p(1)])
  have a: "acceptable E w (tried now v p)" "(tried now v p)\<lparr>pConn := None\<rparr> = tried now v p"
    using ok by (cases p, simp add: acceptable_def stored_ok_def tried_def)+
  from put_peer_rep [OF E R a(1)] a(2) get_peer_rep [OF E R, of w] p v show ?thesis
    by (auto simp: SuggestVersion_def bind_act_def return_act_def tried_def)
qed

lemma upt_0_Suc: "[0..<Suc n] = 0 # map Suc [0..<n]"
  by (simp add: upt_conv_Cons map_Suc_upt del: upt_Suc)

lemma suggests_step:
  assumes "SuggestVersion E t a r = (r', Ok (f 0))" "snd (suggests E a ts r') = Ok (map (\<lambda>j. f (Suc j)) [0..<length ts])"
  shows "snd (suggests E a (t # ts) r) = Ok (map f [0..<length (t # ts)])"
  using assms by (cases "suggests E a ts r'") (simp add: bind_act_def return_act_def upt_0_Suc comp_def del: upt_Suc)

lemma suggests_from:
  fixes r :: "('db, 'v, 'm) registry" and pm :: "u32 \<rightharpoonup> 'v rpeer"
  assumes E: "penv_ok E" and R: "reg_rep E r pm" and d: "distinct (map (minor_key E) (rgVersions r))"
    and p: "pm w = Some p" "pState p = PeerUnknown" "Version p = rgVersions r ! i" "i < length (rgVersions r)"
  shows "snd (suggests E (Addr4 w) ts r) =
    Ok (map (\<lambda>j. rgVersions r ! (Suc (i + j) mod length (rgVersions r))) [0..<length ts])"
  using R d p
proof (induction ts arbitrary: r pm p i)
  case (Cons t ts)
  let ?vs = "rgVersions r" and ?n = "length (rgVersions r)"
  let ?i = "Suc i mod ?n"
  have v: "nextVersion E (Version p) ?vs = Ok (?vs ! ?i)"
    unfolding Cons.prems(5) by (rule nextVersion_nth [OF Cons.prems(2,6)])
  from SuggestVersion_next [OF E Cons.prems(1,3,4) v, of t] obtain db where
    s: "SuggestVersion E t (Addr4 w) r = (r\<lparr>rgSt := db\<rparr>, Ok (?vs ! ?i))"
    "reg_rep E (r\<lparr>rgSt := db\<rparr>) (pm(w \<mapsto> tried t (?vs ! ?i) p))" by blast
  have "?i < ?n" by (rule mod_less_divisor) (use Cons.prems(6) in linarith)
  with Cons.IH [OF s(2), of "tried t (?vs ! ?i) p" ?i] Cons.prems(2,4) have
    "snd (suggests E (Addr4 w) ts (r\<lparr>rgSt := db\<rparr>)) = Ok (map (\<lambda>j. ?vs ! (Suc (?i + j) mod ?n)) [0..<length ts])"
    by (simp add: tried_def)
  moreover have "Suc (?i + j) mod ?n = Suc (i + Suc j) mod ?n" for j
    by (metis add_Suc add_Suc_right mod_add_left_eq)
  ultimately have ih: "snd (suggests E (Addr4 w) ts (r\<lparr>rgSt := db\<rparr>)) =
      Ok (map (\<lambda>j. ?vs ! (Suc (i + Suc j) mod ?n)) [0..<length ts])" by simp
  show ?case by (rule suggests_step) (use s(1) ih in simp_all)
qed (simp add: return_act_def)

lemma suggests_result:
  fixes r :: "('db, 'v, 'm) registry" and pm :: "u32 \<rightharpoonup> 'v rpeer"
  assumes E: "penv_ok E" and R: "reg_rep E r pm" and vs: "rgVersions r \<noteq> []"
    and d: "distinct (map (minor_key E) (rgVersions r))" and u: "pm w = None"
  shows "snd (suggests E (Addr4 w) ts r) =
    Ok (map (\<lambda>j. rgVersions r ! (j mod length (rgVersions r))) [0..<length ts])"
proof (cases ts)
  case (Cons t ts')
  let ?vs = "rgVersions r" and ?n = "length (rgVersions r)"
  from SuggestVersion_first [OF E R vs u, of t] obtain db p where
    s: "SuggestVersion E t (Addr4 w) r = (r\<lparr>rgSt := db\<rparr>, Ok (?vs ! 0))"
    "pState p = PeerUnknown" "Version p = ?vs ! 0" "reg_rep E (r\<lparr>rgSt := db\<rparr>) (pm(w \<mapsto> p))" by blast
  have rest: "snd (suggests E (Addr4 w) ts' (r\<lparr>rgSt := db\<rparr>)) =
      Ok (map (\<lambda>j. ?vs ! (Suc j mod ?n)) [0..<length ts'])"
    using suggests_from [OF E s(4), of w p 0 ts'] s(2,3) d vs by simp
  show ?thesis unfolding Cons by (rule suggests_step) (use s(1) rest in simp_all)
qed (simp add: return_act_def)

end
