(* ===== verification/PeersDemo.thy ===== *)
theory PeersDemo
  imports RegistryQueries RegistryVersions Codec
begin

text \<open>
  A concrete instance of what package \<open>peers\<close> takes from elsewhere: the store in memory, an
  encoding of the stored values, versions as triples, names that are valid when they are ASCII.
  On it a registry is created and peers register.
\<close>

type_synonym demo_version = "u32 \<times> u32 \<times> u32"

definition demo_ver_string :: "demo_version \<Rightarrow> bytes" where
  "demo_ver_string = (\<lambda>(a, b, c). enc_nat (unat a) @ enc_nat (unat b) @ enc_nat (unat c))"

definition demo_ver_of_string :: "bytes \<Rightarrow> demo_version res" where
  "demo_ver_of_string bs =
     bind_res (dec_nat bs) (\<lambda>(a, bs). bind_res (dec_nat bs) (\<lambda>(b, bs). bind_res (dec_nat bs) (\<lambda>(c, bs).
     Ok (word_of_nat a, word_of_nat b, word_of_nat c))))"

definition demo_val_marshal :: "demo_version value_rec \<Rightarrow> bytes res" where
  "demo_val_marshal x =
     Ok (enc_nat (unat (vPort x)) @ enc_nat (unat (vNonce x)) @ enc_bytes (vName x) @ enc_bytes (vVersion x) @
         enc_nat (unat (vState x)) @ enc_score (vNextAttempt x) @ enc_score (vScore x))"

definition demo_val_unmarshal :: "bytes \<Rightarrow> demo_version value_rec res" where
  "demo_val_unmarshal bs =
     bind_res (dec_nat bs) (\<lambda>(p, bs). bind_res (dec_nat bs) (\<lambda>(n, bs).
     bind_res (dec_bytes bs) (\<lambda>(s, bs). bind_res (dec_bytes bs) (\<lambda>(v, bs).
     bind_res (dec_nat bs) (\<lambda>(st, bs). bind_res (dec_score bs) (\<lambda>(t, bs). bind_res (dec_score bs) (\<lambda>(sc, bs).
     Ok \<lparr>vPort = word_of_nat p, vNonce = word_of_nat n, vName = s, vVersion = v, vState = word_of_nat st,
         vNextAttempt = t, vScore = sc\<rparr>)))))))"

lemma demo_ver_codec: "demo_ver_of_string (demo_ver_string v) = Ok v"
  using dec_enc_nat [where rest = "[]"] by (cases v) (simp add: demo_ver_of_string_def demo_ver_string_def)

lemma dec_enc_score_end: "dec_score (enc_score s) = Ok (s, [])"
  using dec_enc_score [of s "[]"] by simp

lemma demo_val_codec: "demo_val_marshal x = Ok buf \<Longrightarrow> demo_val_unmarshal buf = Ok x"
  unfolding demo_val_marshal_def demo_val_unmarshal_def by (drule sym) (simp add: dec_enc_score_end)

definition demo_all :: "mem \<Rightarrow> (bytes \<times> bytes) list" where
  "demo_all m = map (\<lambda>k. (k, case map_of m k of None \<Rightarrow> [] | Some v \<Rightarrow> v)) (sort (remdups (map fst m)))"

lemma demo_all_iff: "(k, v) \<in> set (demo_all m) \<longleftrightarrow> mem_get m k = Ok v"
proof -
  have "k \<in> fst ` set m \<longleftrightarrow> map_of m k \<noteq> None" by (metis domIff dom_map_of_conv_image_fst)
  then show ?thesis unfolding demo_all_def mem_get_def by (cases "map_of m k") auto
qed

definition demo_penv :: "(mem, demo_version) penv" where
  "demo_penv =
     \<lparr>pdb = mem_leveldb, db_all = demo_all, val_marshal = demo_val_marshal, val_unmarshal = demo_val_unmarshal,
      ver_zero = (0, 0, 0), ver_string = demo_ver_string, ver_of_string = demo_ver_of_string,
      ver_new = (\<lambda>a b c. (a, b, c)), ver_major = fst, ver_minor = fst \<circ> snd,
      ver_cmp_minor = (\<lambda>v w. if fst (snd v) < fst (snd w) then -1 else if fst (snd v) = fst (snd w) then 0 else 1),
      ver_less = (\<lambda>(a, b, c) (a', b', c'). a < a' \<or> a = a' \<and> (b < b' \<or> b = b' \<and> c < c')), valid_utf8 = list_all (\<lambda>b. b < 128), to_upper = id, range_conns = id\<rparr>"

lemma demo_penv_ok: "penv_ok demo_penv"
proof -
  have "sorted_wrt (<) (map fst (demo_all m))" for m
    by (simp add: demo_all_def comp_def strict_sorted_iff)
  moreover have "db_get mem_leveldb m k = mem_get m k" for m k by (simp add: mem_leveldb_def)
  moreover have "is_ok (demo_val_marshal x)" for x by (simp add: demo_val_marshal_def)
  ultimately show ?thesis
    unfolding penv_ok_def demo_penv_def
    using mem_leveldb_ok mem_leveldb_live demo_all_iff demo_val_codec demo_ver_codec by simp
qed

lemma demo_penv_simps [simp]:
  "ver_zero demo_penv = (0, 0, 0)" "ver_major demo_penv = fst" "ver_minor demo_penv = fst \<circ> snd"
  "ver_cmp_minor demo_penv v w = (if fst (snd v) < fst (snd w) then -1 else if fst (snd v) = fst (snd w) then 0 else 1)"
  "valid_utf8 demo_penv bs = list_all (\<lambda>b. b < 128) bs" "range_conns demo_penv ks = ks"
  by (simp_all add: demo_penv_def)

section \<open>A registry\<close>

definition demo_reg :: "(mem, demo_version, nat) registry" where
  "demo_reg =
     \<lparr>rgScheme = 87, rgVersions = [(1, 5, 0), (1, 4, 0)], rgDeclared = Addr4 0x0A000001, rgSt = [], rgConns = [],
      rgPending = {Addr4 0x0A000002}, rgNet = []\<rparr>"

lemma demo_reg_created:
  "NewRegistry demo_penv 87 (Some (Ok \<lparr>ap_addr = Addr4 0x0A000001, ap_port = 6868\<rparr>)) [(1, 4, 2), (1, 5, 7)] [] =
     Ok (demo_reg\<lparr>rgPending := {}\<rparr>)"
  by (simp add: NewRegistry_def demo_reg_def newVersions_def demo_penv_def)

lemma demo_store_empty: "preg demo_penv [] Map.empty"
  by (simp add: preg_def demo_penv_def mem_leveldb_def mem_get_def)

lemma demo_reg_rep: "reg_rep demo_penv demo_reg Map.empty"
  using demo_store_empty by (simp add: reg_rep_def conns_ok_def demo_reg_def)

definition demo_handshake :: "demo_version handshake" where
  "demo_handshake =
     \<lparr>hsAppName = [119, 97, 118, 101, 115, 87], hsNodeName = [110, 49], hsNonce = 7, hsVersion = (1, 5, 3),
      hsDeclared = Some (Ok \<lparr>ap_addr = Addr4 0x0A000002, ap_port = 6868\<rparr>)\<rparr>"

definition demo_conn :: "demo_version conn" where
  "demo_conn = \<lparr>cnId = 1, cnHandshake = demo_handshake\<rparr>"

lemma demo_reg_simps [simp]:
  "rgScheme demo_reg = 87" "rgVersions demo_reg = [(1, 5, 0), (1, 4, 0)]" "rgDeclared demo_reg = Addr4 0x0A000001"
  "rgSt demo_reg = []" "rgConns demo_reg = []" "rgPending demo_reg = {Addr4 0x0A000002}" "rgNet demo_reg = []"
  by (simp_all add: demo_reg_def)

lemma demo_handshake_simps [simp]:
  "hsAppName demo_handshake = [119, 97, 118, 101, 115, 87]" "hsNodeName demo_handshake = [110, 49]"
  "hsNonce demo_handshake = 7" "hsVersion demo_handshake = (1, 5, 3)"
  "hsDeclared demo_handshake = Some (Ok \<lparr>ap_addr = Addr4 0x0A000002, ap_port = 6868\<rparr>)"
  "cnHandshake demo_conn = demo_handshake" "cnId demo_conn = 1"
  by (simp_all add: demo_handshake_def demo_conn_def)

end
