(* ===== verification/PeersProperties.thy ===== *)
theory PeersProperties
  imports PeersDemo
begin

text \<open>
  The properties of package \<open>peers\<close>, over any store, encoding and version type that behave as
  documented, each with an example at the registry of \<open>PeersDemo\<close>.
\<close>

section \<open>Helpers\<close>

lemma PeerOf_rep:
  "penv_ok E \<Longrightarrow> reg_rep E r pm \<Longrightarrow>
    PeerOf E (Addr4 w) r = (case pm w of None \<Rightarrow> Err ErrNotFound | Some p \<Rightarrow> Ok p)"
  unfolding PeerOf_def by (rule get_peer_rep)

lemma PeerOf_Ok:
  "penv_ok E \<Longrightarrow> reg_rep E r pm \<Longrightarrow> PeerOf E (Addr4 w) r = Ok p \<longleftrightarrow> pm w = Some p"
  by (simp add: PeerOf_rep split: option.split)

lemma PeerOf_unknown:
  "penv_ok E \<Longrightarrow> reg_rep E r pm \<Longrightarrow> PeerOf E (Addr4 w) r = Err ErrNotFound \<longleftrightarrow> pm w = None"
  by (simp add: PeerOf_rep split: option.split)

lemma PeerOf_update:
  fixes r r' :: "('db, 'v, 'm) registry"
  assumes "penv_ok E" "reg_rep E r pm" "reg_rep E r' (pm(w \<mapsto> p))"
  shows "PeerOf E (Addr4 w) r' = Ok p" "v \<noteq> w \<Longrightarrow> PeerOf E (Addr4 v) r' = PeerOf E (Addr4 v) r"
  using assms by (simp_all add: PeerOf_rep)

lemma reg_inv_rep:
  fixes r :: "('db, 'v, 'm) registry"
  assumes "reg_inv E r"
  obtains pm :: "u32 \<rightharpoonup> 'v rpeer" where "reg_rep E r pm"
  using assms by (auto simp: reg_inv_def)

lemma demo_reg_inv: "reg_inv demo_penv demo_reg"
  using demo_reg_rep by (auto simp: reg_inv_def)

lemma demo_peer_unknown: "PeerOf demo_penv (Addr4 w) demo_reg = Err ErrNotFound"
  using PeerOf_unknown [OF demo_penv_ok demo_reg_rep] by simp

text \<open>The port a handshake announces for the address it comes from.\<close>

definition announces :: "u32 \<Rightarrow> 'v handshake \<Rightarrow> u16 \<Rightarrow> bool" where
  "announces w hs port \<longleftrightarrow>
     (case hsDeclared hs of
        None \<Rightarrow> port = 0
      | Some (Ok ha) \<Rightarrow> Is4 (ap_addr ha) \<and> \<not> IsLoopback (ap_addr ha) \<and>
          port = (if ap_addr ha = Addr4 w then ap_port ha else 0)
      | Some _ \<Rightarrow> False)"

lemma announces_checkPort: "announces w hs port \<Longrightarrow> checkPort (Addr4 w) np hs r = (r, Ok port)"
  by (auto simp: announces_def checkPort_def split: option.splits res.splits if_splits)

text \<open>The stored peer, or the zero peer of an unknown address.\<close>

definition known_as :: "('db, 'v) penv \<Rightarrow> u32 \<Rightarrow> ('db, 'v, 'm) registry \<Rightarrow> 'v rpeer" where
  "known_as E w r = (case PeerOf E (Addr4 w) r of Ok p \<Rightarrow> p | _ \<Rightarrow> zero_peer E)"

lemma known_as_rep: "penv_ok E \<Longrightarrow> reg_rep E r pm \<Longrightarrow> known_as E w r = entry_of E pm w"
  by (simp add: known_as_def PeerOf_rep entry_of_def split: option.split)

section \<open>The examples\<close>

lemma all_less_3: "(\<forall>j < Suc (Suc (Suc 0)). P j) \<longleftrightarrow> P 0 \<and> P 1 \<and> P 2"
  by (auto simp: less_Suc_eq numeral_2_eq_2)

lemma single_of_distinct: "distinct (map f xs) \<Longrightarrow> set xs = {x} \<Longrightarrow> xs = [x]"
  by (cases xs) (auto simp: distinct_map subset_singleton_iff)

lemma demo_compatible:
  "compatible demo_penv (rgScheme demo_reg) demo_conn (known_as demo_penv 0x0A000002 demo_reg)"
  unfolding known_as_rep [OF demo_penv_ok demo_reg_rep] by (simp add: compatible_def entry_of_def zero_peer_def)

lemma demo_announces: "announces 0x0A000002 demo_handshake 6868"
  by (simp add: announces_def)

text \<open>A registry where one peer has registered, and one that has learned an address.\<close>

definition demo_joined :: "(mem, demo_version, nat) registry" where
  "demo_joined = fst (RegisterPeer demo_penv 0 (Addr4 0x0A000002) demo_conn demo_handshake (demo_reg\<lparr>rgPending := {}\<rparr>))"

lemma demo_joined_reach: "reg_reach demo_penv demo_joined"
proof -
  have "reg_reach demo_penv (demo_reg\<lparr>rgPending := {}\<rparr>)"
    by (rule reg_reach.created [OF demo_store_empty demo_reg_created])
  then show ?thesis
    by (rule reg_reach.registered [where hs = demo_handshake and now = 0 and a = "Addr4 0x0A000002" and np = demo_conn])
       (simp, simp add: demo_joined_def prod_eq_iff)
qed

lemma demo_joined_conns: "rgConns demo_joined = [(Addr4 0x0A000002, demo_conn)]"
proof -
  let ?r = "demo_reg\<lparr>rgPending := {}\<rparr>"
  have R: "reg_rep demo_penv ?r Map.empty" using demo_reg_rep by simp
  have "compatible demo_penv (rgScheme ?r) demo_conn (entry_of demo_penv Map.empty 0x0A000002)"
    by (simp add: compatible_def entry_of_def zero_peer_def)
  from RegisterPeer_result [OF demo_penv_ok R _ this announces_checkPort [OF demo_announces], of 0] show ?thesis
    by (auto simp: demo_joined_def connecting_def)
qed

abbreviation demo_address :: addr_port where
  "demo_address \<equiv> \<lparr>ap_addr = Addr4 0x0A000003, ap_port = 6868\<rparr>"

definition demo_learned :: "(mem, demo_version, nat) registry" where
  "demo_learned = fst (put_peer demo_penv (learned demo_penv demo_address) demo_reg)"

lemma demo_learned_rep:
  "reg_rep demo_penv demo_learned [0x0A000003 \<mapsto> learned demo_penv demo_address]"
  and demo_learned_fields: "rgDeclared demo_learned = Addr4 0x0A000001" "rgConns demo_learned = []"
    "rgPending demo_learned = {Addr4 0x0A000002}"
proof -
  have a: "ap_addr demo_address = Addr4 0x0A000003" by simp
  note l = learned_ok [OF demo_penv_ok a]
  from put_peer_rep [OF demo_penv_ok demo_reg_rep l [THEN conjunct1]] l obtain db where
    "put_peer demo_penv (learned demo_penv demo_address) demo_reg = (demo_reg\<lparr>rgSt := db\<rparr>, Ok ())"
    "reg_rep demo_penv (demo_reg\<lparr>rgSt := db\<rparr>) [0x0A000003 \<mapsto> learned demo_penv demo_address]" by auto
  then show "reg_rep demo_penv demo_learned [0x0A000003 \<mapsto> learned demo_penv demo_address]"
    "rgDeclared demo_learned = Addr4 0x0A000001" "rgConns demo_learned = []" "rgPending demo_learned = {Addr4 0x0A000002}"
    by (simp_all add: demo_learned_def)
qed

lemma demo_learned_inv: "reg_inv demo_penv demo_learned"
  using demo_learned_rep by (auto simp: reg_inv_def)

section \<open>The store\<close>

text \<open>C25: A stored peer is found again under its address with every field but its connection, the
  others stay as they are, and the list of all peers has each stored peer once, in the order of the
  addresses.\<close>

theorem stored_peer_roundtrip:
  fixes p :: "('v, 'c) Peer"
  assumes "penv_ok E" and "preg E db pm" and "ap_addr (AddressPort p) = Addr4 w"
    and "valid_utf8 E (pName p)" and "whole_seconds (NextAttempt p)"
  shows "\<exists>db' ws. putPeer E p db = Ok db' \<and> st_peer E db' (Addr4 w) = Ok (p\<lparr>pConn := None\<rparr>) \<and>
    st_hasPeer E db' (Addr4 w) = Ok True \<and>
    (\<forall>v. v \<noteq> w \<longrightarrow> (st_peer E db' (Addr4 v) :: ('v, 'c) Peer res) = st_peer E db (Addr4 v)) \<and>
    st_peers E db' = Ok (map (\<lambda>v. the ((pm(w \<mapsto> p\<lparr>pConn := None\<rparr>)) v)) ws) \<and>
    set ws = insert w (dom pm) \<and> sorted_wrt (<) ws"
proof -
  have "acceptable E w p" using assms(3-5) by (simp add: acceptable_def)
  from putPeer_refines [OF assms(1,2) this] obtain db' where
    db: "putPeer E p db = Ok db'" "preg E db' (pm(w \<mapsto> p\<lparr>pConn := None\<rparr>))" by blast
  from st_peers_rep [OF assms(1) db(2)] obtain ws where
    ws: "st_peers E db' = Ok (map (\<lambda>v. the ((pm(w \<mapsto> p\<lparr>pConn := None\<rparr>)) v)) ws)"
    "set ws = dom (pm(w \<mapsto> p\<lparr>pConn := None\<rparr>))" "sorted_wrt (<) ws" by blast
  have "st_peer E db' (Addr4 w) = Ok (p\<lparr>pConn := None\<rparr>)" "st_hasPeer E db' (Addr4 w) = Ok True"
    using st_peer_rep [OF assms(1) db(2), of w] st_hasPeer_rep [OF assms(1) db(2), of w] by simp_all
  moreover have "st_peer E db' (Addr4 v) = (st_peer E db (Addr4 v) :: ('v, 'c) Peer res)" if "v \<noteq> w" for v
    using st_peer_rep [OF assms(1) db(2), of v] st_peer_rep [OF assms(1,2), of v] that by simp
  ultimately show ?thesis using db(1) ws by (intro exI [of _ db'] exI [of _ ws]) simp
qed

theorem stored_peer_roundtrip_witness:
  "\<exists>db' :: mem. putPeer demo_penv (registered_entry demo_penv Map.empty 5 0 demo_handshake 7 :: demo_version rpeer) [] = Ok db' \<and>
    st_peer demo_penv db' (Addr4 5) = Ok (registered_entry demo_penv Map.empty 5 0 demo_handshake 7 :: demo_version rpeer)"
proof -
  let ?p = "registered_entry demo_penv Map.empty 5 0 demo_handshake 7 :: demo_version rpeer"
  have "ap_addr (AddressPort ?p) = Addr4 5" "valid_utf8 demo_penv (pName ?p)" "whole_seconds (NextAttempt ?p)"
    "?p\<lparr>pConn := None\<rparr> = ?p"
    by (simp_all add: registered_entry_def)
  with stored_peer_roundtrip [OF demo_penv_ok demo_store_empty, of ?p 5] show ?thesis by auto
qed

section \<open>Connections\<close>









section \<open>Hostile peers\<close>



section \<open>Addresses\<close>

text \<open>C31: Taking the available addresses always succeeds and gives the addresses, with their ports, of
  exactly the stored peers that are not hostile, have a port, are not the node itself, may be tried
  again by now, and are neither connected nor pending; all of them are pending afterwards. So a second
  call, at whatever time, gives none of them again.\<close>

theorem taken_addresses:
  fixes r :: "('db, 'v, 'm) registry"
  assumes "penv_ok E" and "reg_inv E r"
  shows "\<exists>as r1. TakeAvailableAddresses E t r = (r1, Ok as) \<and> distinct (map ap_addr as) \<and>
    set as = {AddressPort p | p w. PeerOf E (Addr4 w) r = Ok p \<and> available t r p} \<and>
    rgPending r1 = rgPending r \<union> ap_addr ` set as \<and> reg_inv E r1 \<and>
    (\<forall>t' r2 bs. TakeAvailableAddresses E t' r1 = (r2, Ok bs) \<longrightarrow> ap_addr ` set as \<inter> ap_addr ` set bs = {})"
proof -
  note E = assms(1)
  from assms(2) obtain pm :: "u32 \<rightharpoonup> 'v rpeer" where R: "reg_rep E r pm" by (rule reg_inv_rep)
  let ?addr = "\<lambda>w. AddressPort (the (pm w))" and ?r1 = "r\<lparr>rgPending := rgPending r \<union> Addr4 ` taking pm t r\<rparr>"
  have R1: "reg_rep E ?r1 pm" using R by simp
  have addr: "ap_addr (?addr v) = Addr4 v" if "v \<in> taking pm t' s" for v t' and s :: "('db, 'v, 'm) registry"
    using that stored_peer [OF R] by (auto simp: taking_def stored_ok_def)
  from TakeAvailable_result [OF E R, of t] obtain ws where
    ws: "TakeAvailableAddresses E t r = (?r1, Ok (map ?addr ws))" "set ws = taking pm t r" "sorted_wrt (<) ws" by blast
  have img: "ap_addr ` set (map ?addr ws) = Addr4 ` taking pm t r" using addr ws(2) by (force simp: image_iff)
  have "map ap_addr (map ?addr ws) = map Addr4 ws" using addr ws(2) by simp
  then have "distinct (map ap_addr (map ?addr ws))"
    using ws(3) by (simp add: distinct_map strict_sorted_iff inj_on_def)
  moreover have "set (map ?addr ws) = {AddressPort p | p w. PeerOf E (Addr4 w) r = Ok p \<and> available t r p}"
    using PeerOf_Ok [OF E R] by (force simp: ws(2) taking_def)
  moreover have "ap_addr ` set (map ?addr ws) \<inter> ap_addr ` set bs = {}"
    if "TakeAvailableAddresses E t' ?r1 = (r2, Ok bs)" for t' r2 bs
  proof -
    from TakeAvailable_result [OF E R1, of t'] that obtain vs where
      vs: "bs = map ?addr vs" "set vs = taking pm t' ?r1" by auto
    have "v \<notin> taking pm t r" if "v \<in> taking pm t' ?r1" for v
      using that addr [OF that] by (auto simp: taking_def available_def)
    with addr have "ap_addr ` set bs \<inter> Addr4 ` taking pm t r = {}" by (force simp: vs)
    with img show ?thesis by blast
  qed
  moreover have "reg_inv E ?r1" using assms(2) by simp
  ultimately show ?thesis using ws(1) img by (intro exI [of _ "map ?addr ws"] exI [of _ ?r1]) simp
qed

theorem taken_addresses_witness:
  "\<exists>r1. TakeAvailableAddresses demo_penv 0 demo_learned = (r1, Ok [demo_address])"
proof -
  let ?p = "learned demo_penv demo_address :: demo_version rpeer"
  have p: "PeerOf demo_penv (Addr4 w) demo_learned = Ok p \<longleftrightarrow> w = 0x0A000003 \<and> p = ?p" for w p
    using PeerOf_Ok [OF demo_penv_ok demo_learned_rep] by auto
  have a: "available 0 demo_learned ?p" "AddressPort ?p = demo_address"
    by (simp_all add: available_def learned_def zero_peer_def demo_learned_fields)
  from taken_addresses [OF demo_penv_ok demo_learned_inv, where t = 0] obtain as r1 where
    t: "TakeAvailableAddresses demo_penv 0 demo_learned = (r1, Ok as)" "distinct (map ap_addr as)"
    "set as = {AddressPort p | p w. PeerOf demo_penv (Addr4 w) demo_learned = Ok p \<and> available 0 demo_learned p}"
    by (elim exE conjE) (erule (2) that)
  have "set as = {demo_address}" unfolding t(3) p by (simp add: a)
  from t(2) this have "as = [demo_address]" by (rule single_of_distinct)
  with t(1) show ?thesis by blast
qed

text \<open>C32: After a connected peer has been unregistered its connection is gone, and its address is given
  out again exactly from ten minutes later on (rounded to a second), provided that it has a port, is
  not hostile and is not the node itself.\<close>

theorem unregistered_peer_waits:
  fixes r :: "('db, 'v, 'm) registry"
  assumes "penv_ok E" and "reg_inv E r" and "PeerOf E (Addr4 w) r = Ok p"
  shows "\<exists>r1. UnregisterPeer E now (Addr4 w) r = (r1, Ok ()) \<and> reg_inv E r1 \<and>
    map_of (rgConns r1) (Addr4 w) = None \<and> (\<forall>a. a \<noteq> Addr4 w \<longrightarrow> map_of (rgConns r1) a = map_of (rgConns r) a) \<and>
    PeerOf E (Addr4 w) r1 = Ok (p\<lparr>NextAttempt := Some (round_second (now + delay))\<rparr>) \<and>
    (\<forall>t r2 as. TakeAvailableAddresses E t r1 = (r2, Ok as) \<longrightarrow>
       (Addr4 w \<in> ap_addr ` set as \<longleftrightarrow>
         round_second (now + delay) \<le> t \<and> pState p \<noteq> PeerHostile \<and> ap_port (AddressPort p) \<noteq> 0 \<and>
         Addr4 w \<noteq> rgDeclared r))"
proof -
  note E = assms(1)
  from assms(2) obtain pm :: "u32 \<rightharpoonup> 'v rpeer" where R: "reg_rep E r pm" by (rule reg_inv_rep)
  have p: "pm w = Some p" using PeerOf_Ok [OF E R] assms(3) by simp
  then have aw: "ap_addr (AddressPort p) = Addr4 w" using stored_peer [OF R] by (simp add: stored_ok_def)
  let ?pm = "pm(w \<mapsto> left now p)"
  from UnregisterPeer_result [OF E R p] obtain db where
    u: "UnregisterPeer E now (Addr4 w) r = ((disconnecting w r)\<lparr>rgSt := db\<rparr>, Ok ())"
    "reg_rep E ((disconnecting w r)\<lparr>rgSt := db\<rparr>) ?pm" by blast
  let ?r1 = "(disconnecting w r)\<lparr>rgSt := db\<rparr>"
  have av: "w \<in> taking ?pm t ?r1 \<longleftrightarrow> round_second (now + delay) \<le> t \<and> pState p \<noteq> PeerHostile \<and>
      ap_port (AddressPort p) \<noteq> 0 \<and> Addr4 w \<noteq> rgDeclared r" for t
    by (auto simp: taking_def available_def left_def disconnecting_def delete_conv' aw)
  have "Addr4 w \<in> ap_addr ` set as \<longleftrightarrow> w \<in> taking ?pm t ?r1"
    if "TakeAvailableAddresses E t ?r1 = (r2, Ok as)" for t r2 as
  proof -
    from TakeAvailable_result [OF E u(2), of t] that obtain ws where
      ws: "as = map (\<lambda>w. AddressPort (the (?pm w))) ws" "set ws = taking ?pm t ?r1" by auto
    have "ap_addr (AddressPort (the (?pm v))) = Addr4 v" if "v \<in> set ws" for v
      using that stored_peer [OF u(2)] by (auto simp: ws(2) taking_def stored_ok_def)
    then have "ap_addr ` set as = Addr4 ` set ws" by (force simp: ws(1) image_iff)
    with ws(2) show ?thesis by auto
  qed
  moreover have "reg_inv E ?r1" using u(2) unfolding reg_inv_def by blast
  moreover have "PeerOf E (Addr4 w) ?r1 = Ok (p\<lparr>NextAttempt := Some (round_second (now + delay))\<rparr>)"
    using PeerOf_Ok [OF E u(2)] by (simp add: left_def)
  moreover have "map_of (rgConns ?r1) a = (if a = Addr4 w then None else map_of (rgConns r) a)" for a
    by (simp add: disconnecting_def delete_conv')
  ultimately show ?thesis using u(1) av by (intro exI [of _ ?r1]) auto
qed

theorem unregistered_peer_waits_witness:
  "\<exists>r1 r2 as. UnregisterPeer demo_penv 0 (Addr4 0x0A000003) demo_learned = (r1, Ok ()) \<and>
    TakeAvailableAddresses demo_penv 1000000000 r1 = (r2, Ok as) \<and> Addr4 0x0A000003 \<notin> ap_addr ` set as"
proof -
  have "PeerOf demo_penv (Addr4 0x0A000003) demo_learned =
      Ok (learned demo_penv \<lparr>ap_addr = Addr4 0x0A000003, ap_port = 6868\<rparr>)"
    using PeerOf_rep [OF demo_penv_ok demo_learned_rep, of "0x0A000003"] by simp
  from unregistered_peer_waits [OF demo_penv_ok demo_learned_inv this, where now = 0] obtain r1 where
    u: "UnregisterPeer demo_penv 0 (Addr4 0x0A000003) demo_learned = (r1, Ok ())" "reg_inv demo_penv r1"
    "\<forall>t r2 as. TakeAvailableAddresses demo_penv t r1 = (r2, Ok as) \<longrightarrow>
       Addr4 0x0A000003 \<in> ap_addr ` set as \<longrightarrow> round_second (0 + delay) \<le> t" by blast
  from u(2) obtain pm :: "u32 \<rightharpoonup> demo_version rpeer" where "reg_rep demo_penv r1 pm" by (rule reg_inv_rep)
  from TakeAvailable_result [OF demo_penv_ok this, of 1000000000] obtain r2 as where
    t: "TakeAvailableAddresses demo_penv 1000000000 r1 = (r2, Ok as)" by blast
  have "\<not> round_second (0 + delay) \<le> 1000000000" by (simp add: round_second_def second_def delay_def)
  with u(3) t have "Addr4 0x0A000003 \<notin> ap_addr ` set as" by blast
  with u(1) t show ?thesis by blast
qed

text \<open>C34: Of the addresses a peer sends, those are learned that are IPv4, not loopback, not the node's own
  and not known yet, each once; the number returned is how many they are. What was known stays.\<close>

theorem AppendAddresses_learns:
  fixes r :: "('db, 'v, 'm) registry"
  assumes "penv_ok E" and "reg_inv E r" and "Panic \<notin> set as"
  shows "\<exists>r'. AppendAddresses E as r =
      (r', Ok (card {w. w \<in> offered (rgDeclared r) as \<and> PeerOf E (Addr4 w) r = Err ErrNotFound})) \<and>
    reg_inv E r' \<and> rgConns r' = rgConns r \<and> rgPending r' = rgPending r \<and>
    (\<forall>w p. PeerOf E (Addr4 w) r = Ok p \<longrightarrow> PeerOf E (Addr4 w) r' = Ok p) \<and>
    (\<forall>w. PeerOf E (Addr4 w) r = Err ErrNotFound \<longrightarrow>
       (if w \<in> offered (rgDeclared r) as
        then \<exists>ap. Ok ap \<in> set as \<and> ap_addr ap = Addr4 w \<and> PeerOf E (Addr4 w) r' = Ok (learned E ap)
        else PeerOf E (Addr4 w) r' = Err ErrNotFound))"
proof -
  note E = assms(1)
  from assms(2) obtain pm :: "u32 \<rightharpoonup> 'v rpeer" where R: "reg_rep E r pm" by (rule reg_inv_rep)
  from appendLoop_result [OF E R assms(3), of 0] obtain db pm' where
    a: "appendLoop E as 0 r = (r\<lparr>rgSt := db\<rparr>, Ok (card (offered (rgDeclared r) as - dom pm)))"
    "reg_rep E (r\<lparr>rgSt := db\<rparr>) pm'" "learns E (rgDeclared r) as pm pm'" by auto
  have n: "{w. w \<in> offered (rgDeclared r) as \<and> PeerOf E (Addr4 w) r = Err ErrNotFound} =
      offered (rgDeclared r) as - dom pm"
    using PeerOf_unknown [OF E R] by auto
  have "reg_inv E (r\<lparr>rgSt := db\<rparr>)" using a(2) unfolding reg_inv_def by blast
  moreover have "PeerOf E (Addr4 w) (r\<lparr>rgSt := db\<rparr>) = Ok p" if "PeerOf E (Addr4 w) r = Ok p" for w p
    using that a(3) PeerOf_Ok [OF E R] PeerOf_Ok [OF E a(2)] unfolding learns_def by (metis domI)
  moreover have "if w \<in> offered (rgDeclared r) as
      then \<exists>ap. Ok ap \<in> set as \<and> ap_addr ap = Addr4 w \<and> PeerOf E (Addr4 w) (r\<lparr>rgSt := db\<rparr>) = Ok (learned E ap)
      else PeerOf E (Addr4 w) (r\<lparr>rgSt := db\<rparr>) = Err ErrNotFound" if "PeerOf E (Addr4 w) r = Err ErrNotFound" for w
  proof -
    from that have w: "w \<notin> dom pm" using PeerOf_unknown [OF E R] by auto
    show ?thesis
    proof (cases "w \<in> offered (rgDeclared r) as")
      case True
      with w a(3) obtain ap where "Ok ap \<in> set as" "ap_addr ap = Addr4 w" "pm' w = Some (learned E ap)"
        unfolding learns_def by blast
      with True PeerOf_Ok [OF E a(2)] show ?thesis by auto
    next
      case False
      with w a(3) have "pm' w = None" unfolding learns_def by blast
      with False PeerOf_unknown [OF E a(2)] show ?thesis by auto
    qed
  qed
  ultimately show ?thesis using a(1) n by (intro exI [of _ "r\<lparr>rgSt := db\<rparr>"]) (simp add: AppendAddresses_def)
qed

theorem AppendAddresses_learns_witness:
  "\<exists>r'. AppendAddresses demo_penv
      [Ok \<lparr>ap_addr = Addr4 0x0A000003, ap_port = 6868\<rparr>, Err ErrParse, Ok \<lparr>ap_addr = Addr4 0x7F000001, ap_port = 6868\<rparr>,
       Ok \<lparr>ap_addr = Addr4 0x0A000003, ap_port = 1\<rparr>, Ok \<lparr>ap_addr = Addr4 0x0A000001, ap_port = 6868\<rparr>] demo_reg = (r', Ok 1)"
proof -
  let ?as = "[Ok \<lparr>ap_addr = Addr4 0x0A000003, ap_port = 6868\<rparr>, Err ErrParse, Ok \<lparr>ap_addr = Addr4 0x7F000001, ap_port = 6868\<rparr>,
       Ok \<lparr>ap_addr = Addr4 0x0A000003, ap_port = 1\<rparr>, Ok \<lparr>ap_addr = Addr4 0x0A000001, ap_port = 6868\<rparr>]"
  have "{w. w \<in> offered (rgDeclared demo_reg) ?as \<and> PeerOf demo_penv (Addr4 w) demo_reg = Err ErrNotFound} = {0x0A000003}"
    using demo_peer_unknown by (auto simp: offered_Cons)
  with AppendAddresses_learns [OF demo_penv_ok demo_reg_inv, of ?as] show ?thesis by auto
qed

section \<open>Versions\<close>

text \<open>C35: To an address that is not known yet the versions are suggested in their order, one per
  attempt, and from the first again after the last. So every version is tried within as many attempts
  as there are versions, when no two of them differ in the patch number only.\<close>

theorem suggestions_cycle:
  fixes r :: "('db, 'v, 'm) registry"
  assumes "penv_ok E" and "reg_inv E r" and "rgVersions r \<noteq> []" and "distinct (map (minor_key E) (rgVersions r))"
    and "PeerOf E (Addr4 w) r = Err ErrNotFound"
  shows "\<exists>vs. snd (suggests E (Addr4 w) ts r) = Ok vs \<and> length vs = length ts \<and>
    (\<forall>j < length ts. vs ! j = rgVersions r ! (j mod length (rgVersions r))) \<and>
    (length (rgVersions r) \<le> length ts \<longrightarrow> set (take (length (rgVersions r)) vs) = set (rgVersions r))"
proof -
  let ?n = "length (rgVersions r)" and ?vs = "map (\<lambda>j. rgVersions r ! (j mod length (rgVersions r))) [0..<length ts]"
  from assms(2) obtain pm :: "u32 \<rightharpoonup> 'v rpeer" where R: "reg_rep E r pm" by (rule reg_inv_rep)
  have u: "pm w = None" using PeerOf_unknown [OF assms(1) R] assms(5) by simp
  have "take ?n ?vs = rgVersions r" if "?n \<le> length ts"
    using that by (intro nth_equalityI) simp_all
  then show ?thesis
    using suggests_result [OF assms(1) R assms(3,4) u, of ts] by (intro exI [of _ ?vs]) simp
qed

theorem suggestions_cycle_witness:
  "\<exists>vs. snd (suggests demo_penv (Addr4 0x0A000002) [0, 1, 2] demo_reg) = Ok vs \<and>
    vs ! 0 = (1, 5, 0) \<and> vs ! 1 = (1, 4, 0) \<and> vs ! 2 = (1, 5, 0)"
proof -
  have "distinct (map (minor_key demo_penv) (rgVersions demo_reg))" by (simp add: minor_key_def)
  from suggestions_cycle [OF demo_penv_ok demo_reg_inv _ this demo_peer_unknown, where w = "0x0A000002" and ts = "[0, 1, 2]"]
  obtain vs where
    "snd (suggests demo_penv (Addr4 0x0A000002) [0, 1, 2] demo_reg) = Ok vs"
    "\<forall>j < length [0 :: int, 1, 2]. vs ! j = rgVersions demo_reg ! (j mod length (rgVersions demo_reg))"
    by (auto simp del: suggests.simps)
  then show ?thesis by (intro exI [of _ vs]) (simp add: all_less_3 numeral_2_eq_2 del: suggests.simps)
qed

end
