(* ===== verification/ApiHandlers.thy ===== *)
theory ApiHandlers
  imports Linkage Registry ApiRoutes
begin

text \<open>
  The handlers of \<open>api/api.go\<close> and the records of \<open>api/entities.go\<close>: what a GET request is
  answered from the state of the \<open>Linkage\<close> and of the registry. The response is its status and
  its content; texts of errors are dropped. The name of a block ID in a response is the ID.
\<close>

section \<open>Responses\<close>

record apiStatus =
  VersionText :: string
  ShortForksCount :: int
  LongForksCount :: int
  AllPeersCount :: nat
  FriendlyPeersCount :: nat
  ConnectedPeersCount :: nat
  GoroutinesCount :: nat

record 'id headInfo =
  hiNumber :: u64
  hiID :: 'id
  hiHeight :: u32
  hiScore :: "int option"
  hiTimestamp :: int

record 'id leashInfo =
  liBlockID :: 'id
  liHeight :: u32
  liScore :: "int option"
  liTimestamp :: int
  liGenerator :: bytes
  liPeersCount :: nat
  liPeers :: "string list"

datatype ('v, 'id) content =
    CStatus apiStatus
  | CPeers "'v rpeer list"
  | CHeads "'id headInfo list"
  | CLeashes "'id leashInfo list"
  | CForks "'id Fork list"
  | CFork "'id Fork"
  | CGenerators "GeneratorStats list"

text \<open>\<open>Aborted\<close>: the handler panicked.\<close>

datatype ('v, 'id) response = JSON "('v, 'id) content" | HttpError nat | Page served | Aborted

definition StatusBadRequest :: nat where "StatusBadRequest = 400"
definition StatusNotFound :: nat where "StatusNotFound = 404"
definition StatusInternalServerError :: nat where "StatusInternalServerError = 500"

text \<open>
  The components a request is answered from. \<open>apMarshals\<close>: whether \<open>encoding/json\<close>, with the
  marshalers of package \<open>proto\<close>, accepts a value (a time after the year 9999 is refused);
  nothing is sent when it does not. \<open>apVersion\<close> and \<open>apGoroutines\<close>: what \<open>ForkDetectorVersion\<close>
  and \<open>NumGoroutine\<close> answer.
\<close>

record ('db, 'id, 'pdb, 'v, 'm) api =
  apEnv :: "('db, 'id) env"
  apLinkage :: "('db, 'id) linkage"
  apPenv :: "('pdb, 'v) penv"
  apRegistry :: "('pdb, 'v, 'm) registry"
  apMarshals :: "('v, 'id) content \<Rightarrow> bool"
  apVersion :: string
  apGoroutines :: nat

text \<open>\<open>if err != nil { http.Error(w, ..., status); return }\<close>.\<close>

definition or_error :: "nat \<Rightarrow> 'a res \<Rightarrow> ('a \<Rightarrow> ('v, 'id) response) \<Rightarrow> ('v, 'id) response" where
  "or_error status r f = (case r of Ok x \<Rightarrow> f x | Err _ \<Rightarrow> HttpError status | Panic \<Rightarrow> Aborted)"

lemma or_error_simps [simp]:
  "or_error status (Ok x) f = f x" "or_error status (Err e) f = HttpError status" "or_error status Panic f = Aborted"
  by (simp_all add: or_error_def)

definition encode :: "('db, 'id, 'pdb, 'v, 'm) api \<Rightarrow> ('v, 'id) content \<Rightarrow> ('v, 'id) response" where
  "encode A c = (if apMarshals A c then JSON c else HttpError StatusInternalServerError)"

section \<open>Peers\<close>

definition api_peers :: "('db, 'id, 'pdb, 'v, 'm) api \<Rightarrow> ('v, 'id) response" where
  "api_peers A =
     or_error StatusInternalServerError (Peers (apPenv A) (apRegistry A)) (\<lambda>ps. encode A (CPeers ps))"

definition api_friendly :: "('db, 'id, 'pdb, 'v, 'm) api \<Rightarrow> ('v, 'id) response" where
  "api_friendly A =
     or_error StatusInternalServerError (FriendlyPeers (apPenv A) (apRegistry A)) (\<lambda>ps. encode A (CPeers ps))"

definition api_connections :: "('db, 'id, 'pdb, 'v, 'm) api \<Rightarrow> ('v, 'id) response" where
  "api_connections A =
     or_error StatusInternalServerError (Connections (apPenv A) (apRegistry A)) (\<lambda>ps. encode A (CPeers ps))"

definition api_status :: "('db, 'id, 'pdb, 'v, 'm) api \<Rightarrow> ('v, 'id) response" where
  "api_status A =
     or_error StatusInternalServerError (StatsOf (apEnv A) (apLinkage A)) (\<lambda>stats.
     or_error StatusInternalServerError (Peers (apPenv A) (apRegistry A)) (\<lambda>all.
     or_error StatusInternalServerError (FriendlyPeers (apPenv A) (apRegistry A)) (\<lambda>friends.
     or_error StatusInternalServerError (Connections (apPenv A) (apRegistry A)) (\<lambda>connections.
     encode A (CStatus
       \<lparr>VersionText = apVersion A, ShortForksCount = Short stats, LongForksCount = Long stats,
        AllPeersCount = length all, FriendlyPeersCount = length friends,
        ConnectedPeersCount = length connections, GoroutinesCount = apGoroutines A\<rparr>)))))"

section \<open>Heads and leashes\<close>

definition api_heads :: "('db, 'id, 'pdb, 'v, 'm) api \<Rightarrow> ('v, 'id) response" where
  "api_heads A =
     or_error StatusInternalServerError (ActiveHeads (apEnv A) (apLinkage A)) (\<lambda>heads.
     or_error StatusInternalServerError
       (mapM_res (\<lambda>h. bind_res (BlockByID (apEnv A) (apLinkage A) (HeadBlockID h)) (\<lambda>b.
          Ok \<lparr>hiNumber = HeadID h, hiID = HeadBlockID h, hiHeight = BlkHeight b, hiScore = BlkScore b,
              hiTimestamp = BlkTimestamp b\<rparr>)) heads)
       (\<lambda>infos. encode A (CHeads infos)))"

definition leash_less :: "'id leashInfo \<Rightarrow> 'id leashInfo \<Rightarrow> bool" where
  "leash_less a b =
     (if score_value (liScore a) = score_value (liScore b) then liPeersCount a > liPeersCount b
      else score_value (liScore a) > score_value (liScore b))"

interpretation leash_order: strict_weak_order leash_less
  by unfold_locales (auto simp: leash_less_def split: if_splits)

text \<open>As \<^const>\<open>sort_forks\<close>: comparing a nil score with another one panics.\<close>

definition sort_leashes :: "'id leashInfo list \<Rightarrow> 'id leashInfo list res" where
  "sort_leashes r =
     (if (\<exists>x \<in> set r. liScore x = None) \<and> (\<exists>x \<in> set r. liScore x \<noteq> None) then Panic
      else Ok (sort_by leash_less r))"

definition leash_info :: "'id Block \<Rightarrow> string list \<Rightarrow> 'id leashInfo" where
  "leash_info b v =
     \<lparr>liBlockID = BlkID b, liHeight = BlkHeight b, liScore = BlkScore b, liTimestamp = BlkTimestamp b,
      liGenerator = BlkGenerator b, liPeersCount = length v, liPeers = v\<rparr>"

definition api_leashes :: "('db, 'id, 'pdb, 'v, 'm) api \<Rightarrow> ('v, 'id) response" where
  "api_leashes A =
     or_error StatusInternalServerError (Leashes (apEnv A) (apLinkage A)) (\<lambda>leashes.
     let m = group_by LeashBlockID (\<lambda>l. AddrString (LeashAddr l)) leashes [] in
     or_error StatusInternalServerError
       (mapM_res (\<lambda>(k, v). bind_res (BlockByID (apEnv A) (apLinkage A) k) (\<lambda>b. Ok (leash_info b v)))
         (range_map (range_ids (apEnv A)) m)) (\<lambda>r.
     or_error StatusInternalServerError (sort_leashes r) (\<lambda>r. encode A (CLeashes r))))"

section \<open>Forks\<close>

text \<open>\<open>getPeers\<close> builds a map; the model keeps its keys in a list. \<open>q\<close>: the parameter \<open>peers\<close>.\<close>

fun getPeersLoop :: "string list \<Rightarrow> addr list \<Rightarrow> addr list res" where
  "getPeersLoop [] m = Ok m"
| "getPeersLoop (s # ss) m =
     (let s = TrimSpace s in
      if length s > 0 then
        (case ParseAddr s of None \<Rightarrow> Err ErrParse | Some p \<Rightarrow> getPeersLoop ss (List.insert p m))
      else getPeersLoop ss m)"

definition getPeers :: "string \<Rightarrow> addr list res" where
  "getPeers q = getPeersLoop (split_on CHR '','' q) []"

definition api_forks :: "('db, 'id, 'pdb, 'v, 'm) api \<Rightarrow> string \<Rightarrow> ('v, 'id) response" where
  "api_forks A q =
     or_error StatusBadRequest (getPeers q) (\<lambda>ps.
     or_error StatusInternalServerError (Forks (apEnv A) (apLinkage A) ps) (\<lambda>forks.
     encode A (CForks forks)))"

text \<open>The loop over the connections: all of them, or those that are asked for.\<close>

definition active_peers :: "addr list \<Rightarrow> 'v rpeer list \<Rightarrow> addr list" where
  "active_peers rps connections =
     fold (\<lambda>c ps.
         let a = ap_addr (AddressPort c) in
         if length rps > 0 \<and> a \<notin> set rps then ps else List.insert a ps)
       connections []"

definition api_activeForks :: "('db, 'id, 'pdb, 'v, 'm) api \<Rightarrow> string \<Rightarrow> ('v, 'id) response" where
  "api_activeForks A q =
     or_error StatusBadRequest (getPeers q) (\<lambda>rps.
     or_error StatusInternalServerError (Connections (apPenv A) (apRegistry A)) (\<lambda>connections.
     or_error StatusInternalServerError
       (Forks (apEnv A) (apLinkage A) (active_peers rps connections)) (\<lambda>forks.
     encode A (CForks forks))))"

definition api_fork :: "('db, 'id, 'pdb, 'v, 'm) api \<Rightarrow> string \<Rightarrow> ('v, 'id) response" where
  "api_fork A address =
     (case ParseAddr address of
        None \<Rightarrow> HttpError StatusBadRequest
      | Some peer \<Rightarrow>
          or_error StatusInternalServerError (HasLeash (apEnv A) (apLinkage A) peer) (\<lambda>ok.
          if \<not> ok then HttpError StatusNotFound
          else
            or_error StatusInternalServerError (ForkOf (apEnv A) (apLinkage A) peer) (\<lambda>fork.
            encode A (CFork fork))))"

definition api_forkGenerators :: "('db, 'id, 'pdb, 'v, 'm) api \<Rightarrow> string \<Rightarrow> string \<Rightarrow> ('v, 'id) response" where
  "api_forkGenerators A address blocks =
     (case ParseAddr address of
        None \<Rightarrow> HttpError StatusBadRequest
      | Some peer \<Rightarrow>
          (case Atoi blocks of
             None \<Rightarrow> HttpError StatusBadRequest
           | Some c \<Rightarrow>
               or_error StatusInternalServerError (HasLeash (apEnv A) (apLinkage A) peer) (\<lambda>ok.
               if \<not> ok then HttpError StatusNotFound
               else
                 or_error StatusInternalServerError (ForkOf (apEnv A) (apLinkage A) peer) (\<lambda>fork.
                 let c = (if c = 0 then (if Longest fork then 1000 else ForkLength fork) else c) in
                 or_error StatusInternalServerError (ForkGenerators (apEnv A) (apLinkage A) (HeadBlock fork) c)
                   (\<lambda>generators. encode A (CGenerators generators))))))"

section \<open>Serving a request\<close>

text \<open>The handler of an endpoint, with the parameters of the path and the query parameter.\<close>

fun handle :: "('db, 'id, 'pdb, 'v, 'm) api \<Rightarrow> endpoint \<Rightarrow> string list \<Rightarrow> string \<Rightarrow> ('v, 'id) response" where
  "handle A EpPeers ps q = api_peers A"
| "handle A EpFriendly ps q = api_friendly A"
| "handle A EpConnections ps q = api_connections A"
| "handle A EpHeads ps q = api_heads A"
| "handle A EpLeashes ps q = api_leashes A"
| "handle A EpStatus ps q = api_status A"
| "handle A EpForks ps q = api_forks A q"
| "handle A EpActiveForks ps q = api_activeForks A q"
| "handle A EpFork ps q = (case ps of a # _ \<Rightarrow> api_fork A a | [] \<Rightarrow> api_fork A [])"
| "handle A EpForkGenerators ps q =
     (case ps of a # n # _ \<Rightarrow> api_forkGenerators A a n | _ \<Rightarrow> api_forkGenerators A [] [])"

text \<open>The middleware \<open>Recoverer\<close> answers for a handler that panicked.\<close>

fun Recoverer :: "('v, 'id) response \<Rightarrow> ('v, 'id) response" where
  "Recoverer Aborted = HttpError StatusInternalServerError"
| "Recoverer r = r"

definition serve :: "('db, 'id, 'pdb, 'v, 'm) api \<Rightarrow> string \<Rightarrow> string \<Rightarrow> ('v, 'id) response" where
  "serve A path q =
     Recoverer (case route path of
        Endpoint e ps \<Rightarrow> handle A e ps q
      | Files NotFound \<Rightarrow> HttpError StatusNotFound
      | Files f \<Rightarrow> Page f)"

end
