(* ===== verification/HandlersSpec.thy ===== *)
theory HandlersSpec
  imports ApiHandlers LinkageForks LinkageReads RegistryResults
begin

text \<open>
  What the handlers answer, in terms of the block graph of the \<open>Linkage\<close> and of the peers and
  connections of the registry.
\<close>

section \<open>The parts of the interface\<close>

definition api_ok :: "('db, 'id, 'pdb, 'v, 'm) api \<Rightarrow> 'id graph \<Rightarrow> bool" where
  "api_ok A g \<longleftrightarrow>
     env_ok (apEnv A) \<and> env_live (apEnv A) \<and> lk_rep (apEnv A) (apLinkage A) g \<and> times_ok g \<and>
     penv_ok (apPenv A) \<and> reg_inv (apPenv A) (apRegistry A)"

lemma api_okD:
  assumes "api_ok A g"
  shows "env_ok (apEnv A)" "env_live (apEnv A)" "lk_rep (apEnv A) (apLinkage A) g" "times_ok g"
    "penv_ok (apPenv A)" "reg_inv (apPenv A) (apRegistry A)"
  using assms by (simp_all add: api_ok_def)

text \<open>A response with a content: it is sent when it can be encoded.\<close>

definition answers :: "('db, 'id, 'pdb, 'v, 'm) api \<Rightarrow> ('v, 'id) content \<Rightarrow> ('v, 'id) response" where
  "answers A c = (if apMarshals A c then JSON c else HttpError 500)"

lemma Recoverer_encode [simp]: "Recoverer (encode A c) = answers A c"
  by (simp add: encode_def answers_def StatusInternalServerError_def)

lemma serve_endpoint: "route p = Endpoint e ps \<Longrightarrow> serve A p q = Recoverer (handle A e ps q)"
  by (simp add: serve_def)

lemma fixed_routes:
  "route ''/api/leashes'' = Endpoint EpLeashes []" "route ''/api/forks'' = Endpoint EpForks []"
  "route ''/api/active-forks'' = Endpoint EpActiveForks []" "route ''/api/status'' = Endpoint EpStatus []"
  by code_simp+

lemma fork_routes:
  assumes "a \<noteq> []" "CHR ''/'' \<notin> set a"
  shows "route (''/api/fork/'' @ a) = Endpoint EpFork [a]"
    "n \<noteq> [] \<Longrightarrow> CHR ''/'' \<notin> set n \<Longrightarrow>
       route (''/api/fork/'' @ a @ ''/generators/'' @ n) = Endpoint EpForkGenerators [a, n]"
proof -
  have "([Lit ''fork'', Param], EpFork) \<in> set api_routes"
    "([Lit ''fork'', Param, Lit ''generators'', Param], EpForkGenerators) \<in> set api_routes"
    by (simp_all add: api_routes_def)
  note r = this [THEN route_endpoint]
  show "route (''/api/fork/'' @ a) = Endpoint EpFork [a]"
    using r(1) [of "[''fork'', a]" "[a]"] assms by (simp add: join_segs_def api_root_def)
  show "route (''/api/fork/'' @ a @ ''/generators/'' @ n) = Endpoint EpForkGenerators [a, n]"
    if "n \<noteq> []" "CHR ''/'' \<notin> set n"
    using r(2) [of "[''fork'', a, ''generators'', n]" "[a, n]"] assms that by (simp add: join_segs_def api_root_def)
qed

section \<open>Leashes\<close>

text \<open>Printing the addresses of a map of slices.\<close>

definition map_slices :: "('a \<Rightarrow> 'b) \<Rightarrow> ('k \<times> 'a list) list \<Rightarrow> ('k \<times> 'b list) list" where
  "map_slices f m = map (\<lambda>(k, v). (k, map f v)) m"

lemma append_at_slices: "append_at k (f x) (map_slices f m) = map_slices f (append_at k x m)"
  by (induction k x m rule: append_at.induct) (simp_all add: map_slices_def)

lemma group_by_slices: "group_by key (\<lambda>x. f (val x)) xs (map_slices f m) = map_slices f (group_by key val xs m)"
  by (induction xs arbitrary: m) (simp_all add: append_at_slices)

lemma range_map_slices: "range_map order (map_slices f m) = map_slices f (range_map order m)"
proof -
  have "map_of (map_slices f m) k = map_option (map f) (map_of m k)" for k
    by (induction m) (auto simp: map_slices_def)
  moreover have "map fst (map_slices f m) = map fst m" by (auto simp: map_slices_def)
  ultimately have "range_map order (map_slices f m) =
      map (\<lambda>k. (k, case map_option (map f) (map_of m k) of None \<Rightarrow> [] | Some v \<Rightarrow> v)) (order (map fst m))"
    unfolding range_map_def by simp
  then show ?thesis by (simp add: range_map_def map_slices_def option.case_eq_if option.map_sel)
qed

definition leash_described :: "'id graph \<Rightarrow> 'id leashInfo \<Rightarrow> bool" where
  "leash_described g x \<longleftrightarrow>
     (let i = liBlockID x; n = node_of g i in
      liScore x = Some (score_of g i) \<and> liHeight x = bHeight (gBlk g n) \<and>
      liTimestamp x = int (unat (bTimestamp (gBlk g n))) \<and> liGenerator x = bGenerator (gBlk g n) \<and>
      set (liPeers x) = AddrString ` peers_on g [] i \<and> liPeersCount x = card (peers_on g [] i))"

lemma api_leashes_result:
  assumes A: "api_ok A g"
  shows "\<exists>r. api_leashes A = encode A (CLeashes r) \<and> distinct (map liBlockID r) \<and>
    set (map liBlockID r) = {i. peers_on g [] i \<noteq> {}} \<and> sorted_wrt (\<lambda>a b. \<not> leash_less b a) r \<and>
    (\<forall>x \<in> set r. leash_described g x)"
proof -
  let ?E = "apEnv A" and ?l = "apLinkage A"
  note E = api_okD(1) [OF A] and live = api_okD(2) [OF A] and R = api_okD(3) [OF A] and ts = api_okD(4) [OF A]
  obtain ls where ls: "st_leashes ?E (lnkSt ?l) = Ok ls" "distinct (map LeashAddr ls)"
    "set ls = {\<lparr>LeashAddr = a, LeashBlockID = i\<rparr> |a i. gLeash g a = Some i \<and> a \<noteq> all_ones}"
    using st_leashes_rep [OF E env_liveD(1) [OF live] lk_repD(1) [OF R]] by blast
  let ?m = "fork_entries ?E [] ls"
  note en = fork_entries [OF E ls(2,3), where P = "[]"]
  let ?f = "\<lambda>(k, v). leash_info (block_of ?E g (node_of g k)) (map AddrString v)"
  have entry: "known g k \<and> gId g (node_of g k) = k \<and> distinct v \<and> set v = peers_on g [] k"
    if "(k, v) \<in> set ?m" for k v
  proof -
    have v: "v \<noteq> []" "distinct v" "set v = peers_on g [] k" using en(2) [OF that] by auto
    then have "known g k" using peers_on_known [OF R] by (metis set_empty)
    with v node_of [OF this] show ?thesis by blast
  qed
  have ids: "map liBlockID (map ?f ?m) = map fst ?m"
    using entry by (auto simp: leash_info_def block_of_def)
  have described: "leash_described g x" if "x \<in> set (map ?f ?m)" for x
  proof -
    from that obtain k v where kv: "(k, v) \<in> set ?m" "x = ?f (k, v)" by auto
    note e = entry [OF kv(1)]
    have "BlkID (block_of ?E g (node_of g k)) = k" "BlkScore (block_of ?E g (node_of g k)) = Some (score_of g k)"
      using e score_of_Some [OF R, of k] by (simp_all add: block_of_def)
    moreover have "card (peers_on g [] k) = length v" using e by (metis distinct_card)
    ultimately show ?thesis
      using e by (simp add: kv(2) leash_info_def leash_described_def block_of_def Let_def)
  qed
  have entries: "range_map (range_ids ?E) (group_by LeashBlockID (\<lambda>l. AddrString (LeashAddr l)) ls []) = map_slices AddrString ?m"
    using group_by_slices [of LeashBlockID AddrString LeashAddr ls "[]"] range_map_slices [of "range_ids ?E" AddrString]
    by (simp add: fork_entries_def group_leashes_def map_slices_def)
  have step: "mapM_res (\<lambda>(k, v). bind_res (BlockByID ?E ?l k) (\<lambda>b. Ok (leash_info b v))) (map_slices AddrString ?m) =
      Ok (map ?f ?m)"
  proof -
    have "mapM_res (\<lambda>(k, v). bind_res (BlockByID ?E ?l k) (\<lambda>b. Ok (leash_info b v))) (map_slices AddrString ?m) =
        Ok (map (\<lambda>(k, v). leash_info (block_of ?E g (node_of g k)) v) (map_slices AddrString ?m))"
      by (rule mapM_res_Ok)
         (auto simp: map_slices_def BlockByID_def block_locked_rep [OF E live R ts] dest!: entry)
    then show ?thesis by (simp add: map_slices_def comp_def case_prod_beta)
  qed
  have sort: "sort_leashes (map ?f ?m) = Ok (sort_by leash_less (map ?f ?m))"
    using described unfolding sort_leashes_def leash_described_def Let_def by fastforce
  let ?r = "sort_by leash_less (map ?f ?m)"
  have "api_leashes A = encode A (CLeashes ?r)"
    by (simp add: api_leashes_def Leashes_def ls(1) Let_def entries step sort del: mapM_res.simps)
  moreover have "distinct (map liBlockID ?r)"
    using en(1) unfolding ids [symmetric] by (simp only: distinct_map_sort_by)
  moreover have "set (map liBlockID ?r) = {i. peers_on g [] i \<noteq> {}}"
    using en(3) arg_cong [OF ids, of set] by (simp add: image_image)
  moreover have "sorted_wrt (\<lambda>a b. \<not> leash_less b a) ?r" by (rule leash_order.sorted_sort_by)
  ultimately show ?thesis using described by (intro exI [of _ ?r]) simp
qed

section \<open>Active forks\<close>

lemma set_active_peers:
  "set (active_peers rps cs) = {a. a \<in> (\<lambda>c. ap_addr (AddressPort c)) ` set cs \<and> (rps = [] \<or> a \<in> set rps)}"
  and distinct_active_peers: "distinct (active_peers rps cs)"
proof -
  let ?s = "\<lambda>c ps. let a = ap_addr (AddressPort c) in
    if length rps > 0 \<and> a \<notin> set rps then ps else List.insert a ps"
  have "set (fold ?s cs ps) = set ps \<union> {a. a \<in> (\<lambda>c. ap_addr (AddressPort c)) ` set cs \<and> (rps = [] \<or> a \<in> set rps)}" for ps
    by (induction cs arbitrary: ps) (auto simp: Let_def)
  from this [of "[]"] show "set (active_peers rps cs) =
      {a. a \<in> (\<lambda>c. ap_addr (AddressPort c)) ` set cs \<and> (rps = [] \<or> a \<in> set rps)}"
    by (simp add: active_peers_def)
  have "distinct ps \<Longrightarrow> distinct (fold ?s cs ps)" for ps
    by (induction cs arbitrary: ps) (auto simp: Let_def)
  from this [of "[]"] show "distinct (active_peers rps cs)" by (simp add: active_peers_def)
qed

lemma Connections_addresses:
  fixes r :: "('pdb, 'v, 'm) registry"
  assumes E: "penv_ok E" and I: "reg_inv E r"
  shows "\<exists>cs. Connections E r = Ok cs \<and> (\<lambda>c. ap_addr (AddressPort c)) ` set cs = fst ` set (rgConns r)"
proof -
  from I obtain pm :: "u32 \<rightharpoonup> 'v rpeer" where R: "reg_rep E r pm" by (auto simp: reg_inv_def)
  from Connections_result [OF E R] obtain cs where "Connections E r = Ok cs"
    "mset (map (\<lambda>p. ap_addr (AddressPort p)) cs) = mset (map fst (rgConns r))" by blast
  then show ?thesis by (metis list.set_map set_mset_mset)
qed

section \<open>The query parameter\<close>

lemma getPeersLoop_Ok:
  "getPeersLoop ss m = Ok ps \<Longrightarrow>
     set ps = set m \<union> {a. \<exists>s \<in> set ss. TrimSpace s \<noteq> [] \<and> ParseAddr (TrimSpace s) = Some a}"
proof (induction ss arbitrary: m)
  case (Cons s ss)
  then show ?case by (cases "ParseAddr (TrimSpace s)") (auto simp: Let_def split: if_splits)
qed simp

lemma getPeers_string4:
  assumes "ws \<noteq> []"
  shows "\<exists>ps. getPeers (join_with CHR '','' (map string4 ws)) = Ok ps \<and> set ps = Addr4 ` set ws"
proof -
  have c: "CHR '','' \<notin> set (string4 w)" "TrimSpace (string4 w) = string4 w" "string4 w \<noteq> []" for w
  proof -
    show "CHR '','' \<notin> set (string4 w)" using string4_chars digit_neq(4) by fastforce
    have "\<not> is_space c" if "c \<in> set (string4 w)" for c
      using string4_chars [OF that] digit_neq(5) by (auto simp: is_space_def)
    then show "TrimSpace (string4 w) = string4 w" by (rule TrimSpace_plain)
    show "string4 w \<noteq> []" using ParseAddr_string4 [of w] by (auto simp: ParseAddr_def)
  qed
  have "\<exists>ps. getPeersLoop (map string4 ws) m = Ok ps \<and> set ps = set m \<union> Addr4 ` set ws" for m
  proof (induction ws arbitrary: m)
    case (Cons w ws)
    from Cons [of "List.insert (Addr4 w) m"] show ?case by (simp add: c ParseAddr_string4)
  qed simp
  from this [of "[]"] have "\<exists>ps. getPeersLoop (map string4 ws) [] = Ok ps \<and> set ps = Addr4 ` set ws" by simp
  moreover have "split_on CHR '','' (join_with CHR '','' (map string4 ws)) = map string4 ws"
    by (rule split_join) (use assms c(1) in auto)
  ultimately show ?thesis by (simp add: getPeers_def)
qed

end
