(* ===== verification/ServeProperties.thy ===== *)
theory ServeProperties
  imports HandlersSpec Demo PeersDemo
begin

text \<open>
  The properties of the HTTP interface: what a request is answered, from the path to the
  response, over the block graph of the \<open>Linkage\<close> and the registry of the peers, with examples at
  the block graph of \<open>Demo\<close> and the registry of \<open>PeersDemo\<close>.
\<close>

section \<open>The example\<close>

definition demo_api :: "(mem, demo_id, mem, demo_version, nat) api" where
  "demo_api =
     \<lparr>apEnv = demo_env, apLinkage = demo4, apPenv = demo_penv, apRegistry = demo_reg, apMarshals = (\<lambda>_. True),
      apVersion = ''v1'', apGoroutines = 9\<rparr>"

lemma demo_api_simps [simp]:
  "apEnv demo_api = demo_env" "apLinkage demo_api = demo4" "apPenv demo_api = demo_penv"
  "apRegistry demo_api = demo_reg" "answers demo_api c = JSON c"
  by (simp_all add: demo_api_def answers_def)

lemma demo_api_ok: "api_ok demo_api demo_g4"
  using demo_env_ok demo_env_live demo4_rep demo_times demo_penv_ok demo_reg_rep
  by (auto simp: api_ok_def reg_inv_def)

lemma demo_addresses:
  "ParseAddr ''nobody'' = None" "ParseAddr ''9.9.9.9'' = Some (Addr4 0x09090909)"
  "ParseAddr ''1.1.1.1'' = Some peer1" "ParseAddr ''2.2.2.2'' = Some peer2"
proof -
  have "parseIPv4 ''9.9.9.9'' = Some [9, 9, 9, 9]" "parseIPv4 ''1.1.1.1'' = Some [1, 1, 1, 1]"
    "parseIPv4 ''2.2.2.2'' = Some [2, 2, 2, 2]" by code_simp+
  moreover have "addr4_of [9, 9, 9, 9] = Addr4 0x09090909" "addr4_of [1, 1, 1, 1] = peer1" "addr4_of [2, 2, 2, 2] = peer2"
    by (simp_all add: addr4_of_def be_nat_def peer1_def peer2_def)
  ultimately show "ParseAddr ''nobody'' = None" "ParseAddr ''9.9.9.9'' = Some (Addr4 0x09090909)"
    "ParseAddr ''1.1.1.1'' = Some peer1" "ParseAddr ''2.2.2.2'' = Some peer2"
    by (simp_all add: ParseAddr_def)
qed

section \<open>Leashes\<close>

text \<open>C36: The list of leashes has one entry for each block some peer is leashed to, larger scores first
  and for equal scores more peers first; every entry has the data of its block and the addresses,
  in text, of exactly the peers on it.\<close>

theorem leashes_served:
  assumes "api_ok A g"
  shows "\<exists>r. serve A ''/api/leashes'' q = answers A (CLeashes r) \<and> distinct (map liBlockID r) \<and>
    set (map liBlockID r) = {i. peers_on g [] i \<noteq> {}} \<and> sorted_wrt (\<lambda>a b. \<not> leash_less b a) r \<and>
    (\<forall>x \<in> set r. leash_described g x)"
proof -
  from api_leashes_result [OF assms] obtain r where r: "api_leashes A = encode A (CLeashes r)"
    "distinct (map liBlockID r)" "set (map liBlockID r) = {i. peers_on g [] i \<noteq> {}}"
    "sorted_wrt (\<lambda>a b. \<not> leash_less b a) r" "\<forall>x \<in> set r. leash_described g x" by blast
  have "serve A ''/api/leashes'' q = answers A (CLeashes r)"
    using serve_endpoint [OF fixed_routes(1), of A q] r(1) by simp
  with r(2-5) show ?thesis by blast
qed

theorem leashes_served_witness:
  "\<exists>r. serve demo_api ''/api/leashes'' [] = JSON (CLeashes r) \<and> set (map liBlockID r) = {4, 5} \<and>
    (\<forall>x \<in> set r. liBlockID x = 4 \<longrightarrow> set (liPeers x) = {AddrString peer2})"
proof -
  obtain r where r: "serve demo_api ''/api/leashes'' [] = JSON (CLeashes r)"
    "set (map liBlockID r) = {i. peers_on demo_g4 [] i \<noteq> {}}" "\<forall>x \<in> set r. leash_described demo_g4 x"
    using leashes_served [OF demo_api_ok, of "[]"] by auto
  moreover have "{i. peers_on demo_g4 [] i \<noteq> {}} = {4, 5}" unfolding demo_peers_on(3) by blast
  ultimately show ?thesis by (auto simp: leash_described_def Let_def)
qed

section \<open>Forks\<close>

text \<open>C37: A request for the fork of a peer is answered with 400 when the address does not parse, with 404
  when the peer has no leash, and otherwise with the fork of the block the peer is leashed to, related to
  a longest fork. An IPv4 address in its usual form does parse.\<close>

theorem fork_served:
  assumes "api_ok A g" and "a \<noteq> []" and "CHR ''/'' \<notin> set a"
  shows "(ParseAddr a = None \<longrightarrow> serve A (''/api/fork/'' @ a) q = HttpError 400) \<and>
    (\<forall>p. ParseAddr a = Some p \<longrightarrow> plain p \<longrightarrow>
       (gLeash g p = None \<longrightarrow> serve A (''/api/fork/'' @ a) q = HttpError 404) \<and>
       (\<forall>i. gLeash g p = Some i \<longrightarrow> p \<noteq> all_ones \<longrightarrow>
          (\<forall>x \<in> nodes g. peers_on g [] (gId g x) \<noteq> {} \<longrightarrow> near g x (node_of g i)) \<longrightarrow>
          (\<exists>f k. serve A (''/api/fork/'' @ a) q = answers A (CFork f) \<and> best_leash g [] k \<and> fork_of_peer g k i f))) \<and>
    (\<forall>w. a = string4 w \<longrightarrow> ParseAddr a = Some (Addr4 w))"
proof -
  note ok = api_okD [OF assms(1)]
  have s: "serve A (''/api/fork/'' @ a) q = Recoverer (api_fork A a)"
    using serve_endpoint [OF fork_routes(1) [OF assms(2,3)], of A q] by simp
  have leash: "HasLeash (apEnv A) (apLinkage A) p = Ok (gLeash g p \<noteq> None)" if "plain p" for p
    by (rule HasLeash_rep [OF ok(1-3) that])
  have "\<exists>f k. serve A (''/api/fork/'' @ a) q = answers A (CFork f) \<and> best_leash g [] k \<and> fork_of_peer g k i f"
    if p: "ParseAddr a = Some p" "plain p" "gLeash g p = Some i" "p \<noteq> all_ones"
      and near: "\<forall>x \<in> nodes g. peers_on g [] (gId g x) \<noteq> {} \<longrightarrow> near g x (node_of g i)" for p i
  proof -
    from Fork_result [OF ok(1-4) p(3,4)] near obtain f k where
      f: "ForkOf (apEnv A) (apLinkage A) p = Ok f" "best_leash g [] k" "fork_of_peer g k i f" by blast
    have "api_fork A a = encode A (CFork f)" using p leash [OF p(2)] f(1) by (simp add: api_fork_def)
    with s f(2,3) show ?thesis by auto
  qed
  moreover have "serve A (''/api/fork/'' @ a) q = HttpError 400" if "ParseAddr a = None"
    using that s by (simp add: api_fork_def StatusBadRequest_def)
  moreover have "serve A (''/api/fork/'' @ a) q = HttpError 404"
    if "ParseAddr a = Some p" "plain p" "gLeash g p = None" for p
    using that s leash [OF that(2)] by (simp add: api_fork_def StatusNotFound_def)
  ultimately show ?thesis using ParseAddr_string4 by blast
qed

theorem fork_served_witness:
  "serve demo_api (''/api/fork/'' @ ''nobody'') [] = HttpError 400 \<and>
   serve demo_api (''/api/fork/'' @ ''9.9.9.9'') [] = HttpError 404 \<and>
   (\<exists>f. serve demo_api (''/api/fork/'' @ ''2.2.2.2'') [] = JSON (CFork f) \<and> HeadBlock f = 4)"
proof -
  note p = demo_addresses
  have l: "gLeash demo_g4 (Addr4 0x09090909) = None" "gLeash demo_g4 peer2 = Some 4"
    by (simp_all add: peer1_def peer2_def peer3_def)
  have near: "\<forall>x \<in> nodes demo_g4. peers_on demo_g4 [] (gId demo_g4 x) \<noteq> {} \<longrightarrow> near demo_g4 x (node_of demo_g4 4)"
    using demo_near by simp
  show ?thesis
    using fork_served [OF demo_api_ok, of "''nobody''" "[]"] fork_served [OF demo_api_ok, of "''9.9.9.9''" "[]"]
      fork_served [OF demo_api_ok, of "''2.2.2.2''" "[]"] p l near
    by (auto simp: fork_of_peer_def)
qed

text \<open>C38: The active forks are the forks of the peers with an open connection, or of those of them that
  the query names. But when there is no such peer, because nobody is connected or none of the named
  peers is, the answer is the same as for all forks.\<close>

theorem active_forks_served:
  assumes "api_ok A g" and "getPeers q = Ok rps"
  shows "\<exists>ps. set ps = {a \<in> fst ` set (rgConns (apRegistry A)). rps = [] \<or> a \<in> set rps} \<and> distinct ps \<and>
    serve A ''/api/active-forks'' q =
      Recoverer (or_error 500 (Forks (apEnv A) (apLinkage A) ps) (\<lambda>fs. encode A (CForks fs))) \<and>
    (ps = [] \<longrightarrow> serve A ''/api/active-forks'' q = serve A ''/api/forks'' [])"
proof -
  note ok = api_okD [OF assms(1)]
  from Connections_addresses [OF ok(5,6)] obtain cs where cs: "Connections (apPenv A) (apRegistry A) = Ok cs"
    "(\<lambda>c. ap_addr (AddressPort c)) ` set cs = fst ` set (rgConns (apRegistry A))" by blast
  let ?ps = "active_peers rps cs"
  have s: "serve A ''/api/active-forks'' q =
      Recoverer (or_error 500 (Forks (apEnv A) (apLinkage A) ?ps) (\<lambda>fs. encode A (CForks fs)))"
    using serve_endpoint [OF fixed_routes(3), of A q] assms(2) cs(1)
    by (simp add: api_activeForks_def StatusInternalServerError_def)
  have "getPeers [] = Ok []" by code_simp
  then have "serve A ''/api/forks'' [] =
      Recoverer (or_error 500 (Forks (apEnv A) (apLinkage A) []) (\<lambda>fs. encode A (CForks fs)))"
    using serve_endpoint [OF fixed_routes(2), of A "[]"] by (simp add: api_forks_def StatusInternalServerError_def)
  with s show ?thesis
    using set_active_peers [of rps cs] distinct_active_peers [of rps cs] cs(2) by (intro exI [of _ ?ps]) auto
qed

theorem active_forks_served_witness:
  "serve demo_api ''/api/active-forks'' ''1.1.1.1, 2.2.2.2'' = serve demo_api ''/api/forks'' []"
proof -
  have "map TrimSpace (split_on CHR '','' ''1.1.1.1, 2.2.2.2'') = [''1.1.1.1'', ''2.2.2.2'']" by code_simp
  then have "split_on CHR '','' ''1.1.1.1, 2.2.2.2'' = [''1.1.1.1'', '' 2.2.2.2'']" "TrimSpace ''1.1.1.1'' = ''1.1.1.1''"
    "TrimSpace '' 2.2.2.2'' = ''2.2.2.2''" by code_simp+
  then have q: "getPeers ''1.1.1.1, 2.2.2.2'' = Ok [peer2, peer1]"
    by (simp add: getPeers_def demo_addresses)
  from active_forks_served [OF demo_api_ok q] show ?thesis by auto
qed

end
