(* ===== verification/Distributor.thy ===== *)
theory Distributor
  imports SyncedHistory Registry
begin

text \<open>
  \<open>distributor.go\<close>: what comes from the network is handed to the registry, to the block graph
  and, over two channels, to the loader. One round of \<open>runLoop\<close> is one step; what a handler only
  logs is dropped. Messages carry the answers of the parsers of package \<open>proto\<close> and of the
  standard library for their parts.
\<close>

section \<open>Messages\<close>

text \<open>What the node itself sends.\<close>

datatype omsg = GetPeers | PeersList "addr_port list"

text \<open>What peers send. A signature is its bytes.\<close>

datatype 'id imsg =
    GetPeersMessage
  | PeersMessage "addr_port res list"
  | SignaturesMessage "bytes list"
  | BlockMessage "'id proto_block res"
  | ScoreMessage bytes
  | MicroBlockInvMessage "'id micro_block_inv res"
  | PBBlockMessage "'id proto_block res"
  | BlockIdsMessage "'id list"
  | OtherMessage

text \<open>The two channels to the loader, as one sequence.\<close>

datatype 'id package = IDsPackage addr "'id list" | BlockPackage addr "'id proto_block"

text \<open>A peer of the network library; \<open>npRemote\<close>: what \<open>netip.ParseAddrPort\<close> answers for its address.\<close>

record 'v npeer =
  npConn :: "'v conn"
  npRemote :: "addr_port option"

text \<open>The state the distributor works on, with what it has sent on the channels.\<close>

record ('db, 'id, 'pdb, 'v) dstate =
  dsReg :: "('pdb, 'v, omsg) registry"
  dsLnk :: "('db, 'id) linkage"
  dsOut :: "'id package list"

type_synonym ('db, 'id, 'pdb, 'v, 'a) ds_action = "(('db, 'id, 'pdb, 'v) dstate, 'a) action"

text \<open>\<open>id_of_signature\<close>: \<open>proto.NewBlockIDFromSignature\<close>.\<close>

record ('db, 'id, 'pdb, 'v) ds_env =
  deEnv :: "('db, 'id) env"
  dePenv :: "('pdb, 'v) penv"
  id_of_signature :: "bytes \<Rightarrow> 'id"

section \<open>Calls\<close>

definition on_reg :: "('pdb, 'v, omsg, 'a) rg_action \<Rightarrow> ('db, 'id, 'pdb, 'v, 'a) ds_action" where
  "on_reg m s = (case m (dsReg s) of (r, x) \<Rightarrow> (s\<lparr>dsReg := r\<rparr>, x))"

definition on_lnk :: "(('db, 'id) linkage, 'a) action \<Rightarrow> ('db, 'id, 'pdb, 'v, 'a) ds_action" where
  "on_lnk m s = (case m (dsLnk s) of (l, x) \<Rightarrow> (s\<lparr>dsLnk := l\<rparr>, x))"

definition send_package :: "'id package \<Rightarrow> ('db, 'id, 'pdb, 'v, unit) ds_action" where
  "send_package p s = (s\<lparr>dsOut := dsOut s @ [p]\<rparr>, Ok ())"

definition send_message :: "'v conn \<Rightarrow> omsg \<Rightarrow> ('db, 'id, 'pdb, 'v, unit) ds_action" where
  "send_message c m s = (s\<lparr>dsReg := (dsReg s)\<lparr>rgNet := rgNet (dsReg s) @ [SendMessage (cnId c) m]\<rparr>\<rparr>, Ok ())"

text \<open>A handler logs an error and returns.\<close>

definition logged :: "('s, 'a) action \<Rightarrow> ('s, unit) action" where
  "logged m s = (case m s of (s', Ok _) \<Rightarrow> (s', Ok ()) | (s', Err _) \<Rightarrow> (s', Ok ()) | (s', Panic) \<Rightarrow> (s', Panic))"

text \<open>\<open>netip.ParseAddrPort(peer.RemoteAddr().String())\<close>; a failure is logged.\<close>

definition with_remote :: "'v npeer \<Rightarrow> (addr \<Rightarrow> ('s, unit) action) \<Rightarrow> ('s, unit) action" where
  "with_remote p f s = (case npRemote p of None \<Rightarrow> (s, Ok ()) | Some ap \<Rightarrow> f (ap_addr ap) s)"

section \<open>Handlers\<close>

definition pingConnections :: "('db, 'id, 'pdb, 'v) ds_env \<Rightarrow> ('db, 'id, 'pdb, 'v, unit) ds_action" where
  "pingConnections D s = (s\<lparr>dsReg := Broadcast (dePenv D) GetPeers (dsReg s)\<rparr>, Ok ())"

definition handleConnected :: "('db, 'id, 'pdb, 'v) ds_env \<Rightarrow> int \<Rightarrow> 'v npeer \<Rightarrow> ('db, 'id, 'pdb, 'v, unit) ds_action" where
  "handleConnected D now p =
     with_remote p (\<lambda>a. logged (on_reg (RegisterPeer (dePenv D) now a (npConn p) (cnHandshake (npConn p)))))"

definition handleInternalError ::
  "('db, 'id, 'pdb, 'v) ds_env \<Rightarrow> int \<Rightarrow> 'v npeer \<Rightarrow> ('db, 'id, 'pdb, 'v, unit) ds_action" where
  "handleInternalError D now p =
     with_remote p (\<lambda>a.
       logged (on_reg (\<lambda>r. UnregisterPeer (dePenv D) now a (close_conn (npConn p) r))))"

text \<open>\<open>big.Int.SetBytes\<close> reads a natural number.\<close>

definition handleScoreMessage ::
  "('db, 'id, 'pdb, 'v) ds_env \<Rightarrow> 'v npeer \<Rightarrow> bytes \<Rightarrow> ('db, 'id, 'pdb, 'v, unit) ds_action" where
  "handleScoreMessage D p score =
     with_remote p (\<lambda>a. logged (on_reg (UpdatePeerScore (dePenv D) a (Some (int (be_nat score))))))"

text \<open>
  \<open>handleBlock\<close>: a block whose parent is not known is handed to the loader as well. The error
  that is returned otherwise wraps another variable, which is nil; it is an error all the same.
\<close>

definition ds_handleBlock ::
  "('db, 'id, 'pdb, 'v) ds_env \<Rightarrow> 'id proto_block \<Rightarrow> addr_port option \<Rightarrow> ('db, 'id, 'pdb, 'v, unit) ds_action" where
  "ds_handleBlock D blk remote s =
     (case remote of
        None \<Rightarrow> (s, Err ErrParse)
      | Some ap \<Rightarrow>
          (case on_lnk (PutBlock (deEnv D) blk (ap_addr ap)) s of
             (s', Panic) \<Rightarrow> (s', Panic)
           | (s', Err e) \<Rightarrow>
               if e \<noteq> ErrParentNotFound then (s', Err e)
               else send_package (BlockPackage (ap_addr ap) blk) s'
           | (s', Ok _) \<Rightarrow> send_package (BlockPackage (ap_addr ap) blk) s'))"

text \<open>The handlers of the two kinds of block messages differ in the parser only.\<close>

definition handleBlockMessage ::
  "('db, 'id, 'pdb, 'v) ds_env \<Rightarrow> 'v npeer \<Rightarrow> 'id proto_block res \<Rightarrow> ('db, 'id, 'pdb, 'v, unit) ds_action" where
  "handleBlockMessage D p b s =
     (case b of
        Panic \<Rightarrow> (s, Panic)
      | Err _ \<Rightarrow> (s, Ok ())
      | Ok blk \<Rightarrow> logged (ds_handleBlock D blk (npRemote p)) s)"

definition handleProtoBlockMessage ::
  "('db, 'id, 'pdb, 'v) ds_env \<Rightarrow> 'v npeer \<Rightarrow> 'id proto_block res \<Rightarrow> ('db, 'id, 'pdb, 'v, unit) ds_action" where
  "handleProtoBlockMessage D p b s =
     (case b of
        Panic \<Rightarrow> (s, Panic)
      | Err _ \<Rightarrow> (s, Ok ())
      | Ok blk \<Rightarrow> logged (ds_handleBlock D blk (npRemote p)) s)"

text \<open>The addresses that parse are appended; the registry parses their text again.\<close>

definition handlePeersMessage ::
  "('db, 'id, 'pdb, 'v) ds_env \<Rightarrow> addr_port res list \<Rightarrow> ('db, 'id, 'pdb, 'v, unit) ds_action" where
  "handlePeersMessage D pis = logged (on_reg (AppendAddresses (dePenv D) (filter is_ok pis)))"

definition handleGetPeersMessage ::
  "('db, 'id, 'pdb, 'v) ds_env \<Rightarrow> 'v npeer \<Rightarrow> ('db, 'id, 'pdb, 'v, unit) ds_action" where
  "handleGetPeersMessage D p s =
     (case FriendlyPeers (dePenv D) (dsReg s) of
        Panic \<Rightarrow> (s, Panic)
      | Err _ \<Rightarrow> (s, Ok ())
      | Ok ps \<Rightarrow>
          (case mapM_res TCPAddr ps of
             Ok infos \<Rightarrow> send_message (npConn p) (PeersList infos) s
           | _ \<Rightarrow> (s, Panic)))"

definition handleSignaturesMessage ::
  "('db, 'id, 'pdb, 'v) ds_env \<Rightarrow> 'v npeer \<Rightarrow> bytes list \<Rightarrow> ('db, 'id, 'pdb, 'v, unit) ds_action" where
  "handleSignaturesMessage D p sigs =
     with_remote p (\<lambda>a. send_package (IDsPackage a (map (id_of_signature D) sigs)))"

definition handleBlockIDsMessage ::
  "('db, 'id, 'pdb, 'v) ds_env \<Rightarrow> 'v npeer \<Rightarrow> 'id list \<Rightarrow> ('db, 'id, 'pdb, 'v, unit) ds_action" where
  "handleBlockIDsMessage D p ids =
     with_remote p (\<lambda>a s. if length ids = 0 then (s, Ok ()) else send_package (IDsPackage a ids) s)"

definition handleMicroBlockInvMessage ::
  "('db, 'id, 'pdb, 'v) ds_env \<Rightarrow> 'v npeer \<Rightarrow> 'id micro_block_inv res \<Rightarrow> ('db, 'id, 'pdb, 'v, unit) ds_action" where
  "handleMicroBlockInvMessage D p m =
     with_remote p (\<lambda>a s.
       case m of
         Panic \<Rightarrow> (s, Panic)
       | Err _ \<Rightarrow> (s, Ok ())
       | Ok mb \<Rightarrow> logged (on_lnk (PutMicroBlock (deEnv D) mb a)) s)"

fun handleMessage ::
  "('db, 'id, 'pdb, 'v) ds_env \<Rightarrow> 'v npeer \<Rightarrow> 'id imsg \<Rightarrow> ('db, 'id, 'pdb, 'v, unit) ds_action" where
  "handleMessage D p GetPeersMessage = handleGetPeersMessage D p"
| "handleMessage D p (PeersMessage pis) = handlePeersMessage D pis"
| "handleMessage D p (SignaturesMessage sigs) = handleSignaturesMessage D p sigs"
| "handleMessage D p (BlockMessage b) = handleBlockMessage D p b"
| "handleMessage D p (ScoreMessage score) = handleScoreMessage D p score"
| "handleMessage D p (MicroBlockInvMessage m) = handleMicroBlockInvMessage D p m"
| "handleMessage D p (PBBlockMessage b) = handleProtoBlockMessage D p b"
| "handleMessage D p (BlockIdsMessage ids) = handleBlockIDsMessage D p ids"
| "handleMessage D p OtherMessage = return_act ()"

section \<open>The loop\<close>

text \<open>What the select statement received; \<open>handleInfoMessage\<close> tells the first two apart.\<close>

datatype ('id, 'v) ds_event =
  DvConnected "'v npeer" | DvInternalErr "'v npeer" | DvTimer | DvMessage "'v npeer" "'id imsg"

fun ds_step ::
  "('db, 'id, 'pdb, 'v) ds_env \<Rightarrow> int \<Rightarrow> ('id, 'v) ds_event \<Rightarrow> ('db, 'id, 'pdb, 'v, unit) ds_action" where
  "ds_step D now (DvConnected p) = handleConnected D now p"
| "ds_step D now (DvInternalErr p) = handleInternalError D now p"
| "ds_step D now DvTimer = pingConnections D"
| "ds_step D now (DvMessage p m) = handleMessage D p m"

end
