(* ===== verification/ConnectionManager.thy ===== *)
theory ConnectionManager
  imports Registry
begin

text \<open>
  \<open>connection_manager.go\<close>, \<open>respawn.go\<close> and \<open>listener.go\<close>: accepting and opening connections
  with the version the registry suggests, the round that dials the available addresses, and the
  socket that is listened on. What the network
  library answers (\<open>incoming.RunIncomingPeer\<close>, \<open>outgoing.EstablishConnection\<close>) is the argument
  \<open>run\<close>.
\<close>

unbundle bit_operations_syntax

section \<open>Messages that are discarded\<close>

datatype content_id =
    ContentIDGetPeers | ContentIDPeers | ContentIDGetSignatures | ContentIDSignatures
  | ContentIDGetBlock | ContentIDBlock | ContentIDScore | ContentIDTransaction
  | ContentIDInvMicroblock | ContentIDCheckpoint | ContentIDMicroblockRequest | ContentIDMicroblock
  | ContentIDPBBlock | ContentIDPBMicroBlock | ContentIDPBTransaction | ContentIDGetBlockIDs
  | ContentIDBlockIDs | ContentIDGetBlockSnapshot | ContentIDMicroBlockSnapshot
  | ContentIDBlockSnapshot | ContentIDMicroBlockSnapshotRequest | OtherContentID byte

definition discardedMessages :: "content_id \<rightharpoonup> bool" where
  "discardedMessages =
     [ContentIDGetPeers \<mapsto> False, ContentIDPeers \<mapsto> False, ContentIDGetSignatures \<mapsto> True,
      ContentIDSignatures \<mapsto> False, ContentIDGetBlock \<mapsto> True, ContentIDBlock \<mapsto> False,
      ContentIDScore \<mapsto> False, ContentIDTransaction \<mapsto> True, ContentIDInvMicroblock \<mapsto> False,
      ContentIDCheckpoint \<mapsto> True, ContentIDMicroblockRequest \<mapsto> True, ContentIDMicroblock \<mapsto> True,
      ContentIDPBBlock \<mapsto> False, ContentIDPBMicroBlock \<mapsto> True, ContentIDPBTransaction \<mapsto> True,
      ContentIDGetBlockIDs \<mapsto> True, ContentIDBlockIDs \<mapsto> False, ContentIDGetBlockSnapshot \<mapsto> True,
      ContentIDMicroBlockSnapshot \<mapsto> True, ContentIDBlockSnapshot \<mapsto> True,
      ContentIDMicroBlockSnapshotRequest \<mapsto> True]"

section \<open>The connection manager\<close>

text \<open>A declared address that is empty is \<open>None\<close>. The version provider is the registry.\<close>

record cmanager =
  cmNetwork :: bytes
  cmName :: bytes
  cmNonce :: u32
  cmDeclared :: "addr_port option"
  cmDiscarded :: "content_id \<rightharpoonup> bool"

text \<open>The verb \<open>%c\<close> prints the scheme as the UTF-8 encoding of its code point.\<close>

definition utf8_char :: "byte \<Rightarrow> bytes" where
  "utf8_char b = (if b < 0x80 then [b] else [0xC0 OR drop_bit 6 b, 0x80 OR (b AND 0x3F)])"

text \<open>\<open>defaultApplication\<close> is the text ``waves''.\<close>

definition NewConnectionManager :: "byte \<Rightarrow> bytes \<Rightarrow> u32 \<Rightarrow> addr_port option \<Rightarrow> cmanager" where
  "NewConnectionManager scheme name nonce declared =
     \<lparr>cmNetwork = [119, 97, 118, 101, 115] @ utf8_char scheme, cmName = name, cmNonce = nonce,
      cmDeclared = declared, cmDiscarded = discardedMessages\<rparr>"

definition skipFunc :: "cmanager \<Rightarrow> content_id \<Rightarrow> bool" where
  "skipFunc h c = (case cmDiscarded h c of Some r \<Rightarrow> r | None \<Rightarrow> False)"

text \<open>What a connection is run with; the skip function and the parent are left out.\<close>

record 'v peer_params =
  ppNetwork :: bytes
  ppDeclared :: "addr_port option"
  ppName :: bytes
  ppNonce :: u64
  ppVersion :: 'v

definition conn_params :: "cmanager \<Rightarrow> 'v \<Rightarrow> 'v peer_params" where
  "conn_params h ver =
     \<lparr>ppNetwork = cmNetwork h, ppDeclared = cmDeclared h, ppName = cmName h, ppNonce = ucast (cmNonce h), ppVersion = ver\<rparr>"

text \<open>\<open>remote\<close>: the answer of \<open>netip.ParseAddrPort\<close> for the text of the remote address.\<close>

definition Accept ::
  "('db, 'v) penv \<Rightarrow> int \<Rightarrow> cmanager \<Rightarrow> ('v peer_params \<Rightarrow> unit res) \<Rightarrow> addr_port option \<Rightarrow> ('db, 'v, 'm, unit) rg_action" where
  "Accept E now h run remote =
     (case remote of
        None \<Rightarrow> fail_act ErrParse
      | Some ap \<Rightarrow>
          bind_act (SuggestVersion E now (ap_addr ap)) (\<lambda>ver r. (r, run (conn_params h ver))))"

definition Connect ::
  "('db, 'v) penv \<Rightarrow> int \<Rightarrow> cmanager \<Rightarrow> ('v peer_params \<Rightarrow> unit res) \<Rightarrow> addr_port option \<Rightarrow> ('db, 'v, 'm, unit) rg_action" where
  "Connect E now h run address =
     (case address of
        None \<Rightarrow> fail_act ErrParse
      | Some ap \<Rightarrow>
          bind_act (SuggestVersion E now (ap_addr ap)) (\<lambda>ver r. (r, run (conn_params h ver))))"

section \<open>Respawn\<close>

text \<open>One goroutine of \<open>establishConnections\<close>; an error of \<open>UnregisterPeer\<close> is logged.\<close>

definition establish ::
  "('db, 'v) penv \<Rightarrow> int \<Rightarrow> cmanager \<Rightarrow> ('v peer_params \<Rightarrow> unit res) \<Rightarrow> addr_port \<Rightarrow> ('db, 'v, 'm, unit) rg_action" where
  "establish E now h run ap r =
     (case Connect E now h run (Some ap) r of
        (r, Ok _) \<Rightarrow> (r, Ok ())
      | (r, Panic) \<Rightarrow> (r, Panic)
      | (r, Err _) \<Rightarrow>
          (case UnregisterPeer E now (ap_addr ap) r of
             (r, Panic) \<Rightarrow> (r, Panic)
           | (r, _) \<Rightarrow> (r, Ok ())))"

text \<open>The goroutines one after another; \<open>run ap\<close> is the answer of the network for the address.\<close>

fun establishConnections ::
  "('db, 'v) penv \<Rightarrow> int \<Rightarrow> cmanager \<Rightarrow> (addr_port \<Rightarrow> 'v peer_params \<Rightarrow> unit res) \<Rightarrow> addr_port list \<Rightarrow>
    ('db, 'v, 'm, unit) rg_action" where
  "establishConnections E now h run [] = return_act ()"
| "establishConnections E now h run (ap # as) =
     bind_act (establish E now h (run ap) ap) (\<lambda>_. establishConnections E now h run as)"

text \<open>The branch of \<open>handleEvents\<close> for the timer; the result says whether the timer is set again.\<close>

definition respawn_tick ::
  "('db, 'v) penv \<Rightarrow> int \<Rightarrow> cmanager \<Rightarrow> (addr_port \<Rightarrow> 'v peer_params \<Rightarrow> unit res) \<Rightarrow> ('db, 'v, 'm, bool) rg_action" where
  "respawn_tick E now h run r =
     (case TakeAvailableAddresses E now r of
        (r, Panic) \<Rightarrow> (r, Panic)
      | (r, Err _) \<Rightarrow> (r, Ok False)
      | (r, Ok as) \<Rightarrow> bind_act (establishConnections E now h run as) (\<lambda>_. return_act True) r)"

section \<open>Listener\<close>

text \<open>
  An address is \<open>None\<close> when it is the empty \<open>proto.TCPAddr\<close>; \<open>is_empty\<close> is the answer of its method
  \<open>Empty\<close>. \<open>lsListening\<close>: the field \<open>nl\<close> is not nil.
\<close>

record listener =
  lsBind :: "addr_port option"
  lsDeclared :: "addr_port option"
  lsListening :: bool

datatype service = EmptyService | ListenerService listener

definition NewListener :: "(addr_port option \<Rightarrow> bool) \<Rightarrow> addr_port option \<Rightarrow> addr_port option \<Rightarrow> service" where
  "NewListener is_empty bind declared =
     (if is_empty declared then EmptyService
      else if is_empty bind \<and> (case bind of None \<Rightarrow> True | Some ap \<Rightarrow> ap_port ap = 0) then EmptyService
      else ListenerService \<lparr>lsBind = bind, lsDeclared = declared, lsListening = False\<rparr>)"

text \<open>The start of \<open>run\<close>: \<open>listen\<close> is the answer of \<open>ListenConfig.Listen\<close>.\<close>

definition listener_start :: "unit res \<Rightarrow> (listener, unit) action" where
  "listener_start listen l =
     (case listen of
        Err e \<Rightarrow> (l, Err e)
      | Panic \<Rightarrow> (l, Panic)
      | Ok _ \<Rightarrow> (l\<lparr>lsListening := True\<rparr>, Ok ()))"

text \<open>
  One round of its loop: an error of \<open>Accept\<close> is logged, a connection is handed to the connection
  manager, whose error is logged too.
\<close>

definition listener_accept ::
  "('db, 'v) penv \<Rightarrow> int \<Rightarrow> cmanager \<Rightarrow> ('v peer_params \<Rightarrow> unit res) \<Rightarrow> addr_port option res \<Rightarrow> ('db, 'v, 'm, unit) rg_action" where
  "listener_accept E now h run conn r =
     (case conn of
        Panic \<Rightarrow> (r, Panic)
      | Err _ \<Rightarrow> (r, Ok ())
      | Ok remote \<Rightarrow>
          (case Accept E now h run remote r of
             (r, Panic) \<Rightarrow> (r, Panic)
           | (r, _) \<Rightarrow> (r, Ok ())))"

text \<open>\<open>Shutdown\<close> closes the listening socket, which is nil when \<open>Listen\<close> has failed or not returned yet.\<close>

definition listener_Shutdown :: "listener \<Rightarrow> unit res" where
  "listener_Shutdown l = (if lsListening l then Ok () else Panic)"

lemma shutdown_panics_after_failed_listen:
  "NewListener is_empty bind declared = ListenerService l \<Longrightarrow> listener_start (Err e) l = (l', x) \<Longrightarrow>
    listener_Shutdown l' = Panic"
  by (auto simp: NewListener_def listener_start_def listener_Shutdown_def split: if_splits)

section \<open>Which messages are received\<close>

lemma skipped_messages:
  "skipFunc (NewConnectionManager scheme name n declared) c \<longleftrightarrow>
     c \<in> {ContentIDGetSignatures, ContentIDGetBlock, ContentIDTransaction, ContentIDCheckpoint,
       ContentIDMicroblockRequest, ContentIDMicroblock, ContentIDPBMicroBlock, ContentIDPBTransaction,
       ContentIDGetBlockIDs, ContentIDGetBlockSnapshot, ContentIDMicroBlockSnapshot, ContentIDBlockSnapshot,
       ContentIDMicroBlockSnapshotRequest}"
  by (cases c) (simp_all add: skipFunc_def NewConnectionManager_def discardedMessages_def)

end
