(* ===== verification/System.thy ===== *)
theory System
  imports Distributor ConnectionManager Loader
begin

text \<open>
  The services of \<open>forkdetector.go\<close> at work on one registry and one block graph: the distributor,
  the loader, the listener and the respawn service. Each runs in its own goroutine; the registry and
  the linkage are guarded by mutexes, so a run is a sequence of steps of the services. The step
  of a service is what it does with one thing it has received.
\<close>

section \<open>What the loader sees\<close>

text \<open>The score in the answer of \<open>registry.Peer\<close>, and what \<open>sync\<close> reads of \<open>registry.Connections\<close>.\<close>

definition peer_score :: "('pdb, 'v) penv \<Rightarrow> ('pdb, 'v, 'm) registry \<Rightarrow> addr \<Rightarrow> int option res" where
  "peer_score E r a = bind_res (PeerOf E a r) (\<lambda>p. Ok (pScore p))"

definition connection_scores :: "('pdb, 'v) penv \<Rightarrow> ('pdb, 'v, 'm) registry \<Rightarrow> (addr \<times> int option) list res" where
  "connection_scores E r =
     bind_res (Connections E r) (\<lambda>ps. Ok (map (\<lambda>p. (ap_addr (AddressPort p), pScore p)) ps))"

type_synonym ('db, 'id) node_loader = "(('db, 'id) env \<times> ('db, 'id) linkage, 'id) world"

record ('db, 'id, 'pdb, 'v) node =
  ndDs :: "('db, 'id, 'pdb, 'v) dstate"
  ndLoader :: "('db, 'id) node_loader"

text \<open>The loader's own state, over the registry and the block graph as they are now.\<close>

definition loader_view :: "('db, 'id, 'pdb, 'v) ds_env \<Rightarrow> int \<Rightarrow> ('db, 'id, 'pdb, 'v) node \<Rightarrow> ('db, 'id) node_loader" where
  "loader_view D now s =
     (ndLoader s)\<lparr>plHp := (deEnv D, dsLnk (ndDs s)),
       plRep := (plRep (ndLoader s))\<lparr>ldPeerScore := peer_score (dePenv D) (dsReg (ndDs s)),
         ldConnections := connection_scores (dePenv D) (dsReg (ndDs s))\<rparr>,
       plNow := now\<rparr>"

section \<open>Start\<close>

text \<open>
  The part of \<open>run\<close> that creates the state: the registry over the stored peers learns the seed
  peers, then the linkage is opened over the stored blocks. The loader has no peer loader yet;
  the address is a place holder.
\<close>

definition start_node ::
  "('db, 'id, 'pdb, 'v) ds_env \<Rightarrow> byte \<Rightarrow> addr_port res option \<Rightarrow> 'v list \<Rightarrow> addr_port res list \<Rightarrow> 'pdb \<Rightarrow>
    'id proto_block \<Rightarrow> 'db \<Rightarrow> ('db, 'id, 'pdb, 'v) node res" where
  "start_node D scheme declared versions seedPeers stored genesis db =
     bind_res (NewRegistry (dePenv D) scheme declared versions stored) (\<lambda>reg.
     case AppendAddresses (dePenv D) seedPeers reg of
       (_, Panic) \<Rightarrow> Panic
     | (reg, _) \<Rightarrow>
         bind_res (NewLinkage (deEnv D) db scheme genesis) (\<lambda>linkage.
         Ok \<lparr>ndDs = \<lparr>dsReg = reg, dsLnk = linkage, dsOut = []\<rparr>,
             ndLoader = newPeerLoader (Addr4 0) (deEnv D, linkage) NewLoader 0\<rparr>))"

section \<open>Steps\<close>

type_synonym ('db, 'id, 'pdb, 'v, 'a) node_action = "(('db, 'id, 'pdb, 'v) node, 'a) action"

definition by_distributor :: "('db, 'id, 'pdb, 'v, 'a) ds_action \<Rightarrow> ('db, 'id, 'pdb, 'v, 'a) node_action" where
  "by_distributor m s = (case m (ndDs s) of (d, x) \<Rightarrow> (s\<lparr>ndDs := d\<rparr>, x))"

definition by_loader ::
  "('db, 'id, 'pdb, 'v) ds_env \<Rightarrow> (('db, 'id) env \<times> ('db, 'id) linkage, loader, 'id) pl_fire \<Rightarrow> int \<Rightarrow> 'id ld_input \<Rightarrow>
    ('db, 'id, 'pdb, 'v, unit) node_action" where
  "by_loader D F now inp s =
     (case ld_step F linkage_history (\<lambda>a h. LeashScore (fst h) (snd h) a) inp (loader_view D now s) of
        (w, x) \<Rightarrow> (s\<lparr>ndLoader := w, ndDs := (ndDs s)\<lparr>dsLnk := snd (plHp w)\<rparr>\<rparr>, x))"

text \<open>A package on a channel, as the loader receives it.\<close>

fun package_input :: "'id package \<Rightarrow> 'id ld_input" where
  "package_input (IDsPackage a ids) = InIDs a ids"
| "package_input (BlockPackage a b) = InBlock a (Some b)"

definition deliver ::
  "('db, 'id, 'pdb, 'v) ds_env \<Rightarrow> (('db, 'id) env \<times> ('db, 'id) linkage, loader, 'id) pl_fire \<Rightarrow> int \<Rightarrow>
    ('db, 'id, 'pdb, 'v, unit) node_action" where
  "deliver D F now s =
     (case dsOut (ndDs s) of
        [] \<Rightarrow> (s, Ok ())
      | p # ps \<Rightarrow> by_loader D F now (package_input p) (s\<lparr>ndDs := (ndDs s)\<lparr>dsOut := ps\<rparr>\<rparr>))"

text \<open>
  \<open>NdNet\<close>: the distributor receives from the network. \<open>NdDeliver\<close>: the loader receives a package.
  \<open>NdTick\<close>, \<open>NdTimer\<close>: the timers of the loader. \<open>NdAccept\<close>: the listener. \<open>NdRespawn\<close>: the
  addresses to dial are taken; \<open>NdDial\<close>, \<open>NdDialFailed\<close>: the two calls a dialling goroutine makes.
\<close>

datatype ('id, 'v) nd_event =
    NdNet "('id, 'v) ds_event"
  | NdDeliver
  | NdTick
  | NdTimer "nat \<Rightarrow> nat"
  | NdAccept "addr_port option" "'v peer_params \<Rightarrow> unit res"
  | NdRespawn
  | NdDial addr_port "'v peer_params \<Rightarrow> unit res"
  | NdDialFailed addr_port

fun nd_step ::
  "('db, 'id, 'pdb, 'v) ds_env \<Rightarrow> (('db, 'id) env \<times> ('db, 'id) linkage, loader, 'id) pl_fire \<Rightarrow> cmanager \<Rightarrow> int \<Rightarrow>
    ('id, 'v) nd_event \<Rightarrow> ('db, 'id, 'pdb, 'v, unit) node_action" where
  "nd_step D F h now (NdNet e) = by_distributor (ds_step D now e)"
| "nd_step D F h now NdDeliver = deliver D F now"
| "nd_step D F h now NdTick = by_loader D F now InTick"
| "nd_step D F h now (NdTimer pick) = by_loader D F now (InTimer pick)"
| "nd_step D F h now (NdAccept remote run) =
     by_distributor (on_reg (listener_accept (dePenv D) now h run (Ok remote)))"
| "nd_step D F h now NdRespawn =
     by_distributor (logged (on_reg (TakeAvailableAddresses (dePenv D) now)))"
| "nd_step D F h now (NdDial ap run) =
     by_distributor (logged (on_reg (Connect (dePenv D) now h run (Some ap))))"
| "nd_step D F h now (NdDialFailed ap) =
     by_distributor (logged (on_reg (UnregisterPeer (dePenv D) now (ap_addr ap))))"

end
