(* ===== verification/RegistrySafe.thy ===== *)
theory RegistrySafe
  imports RegistryQueries RegistryVersions
begin

text \<open>
  What the rest of the program relies on when it calls the registry: no call panics, the store
  keeps representing some peers, and a peer that has a score keeps having one.
\<close>

section \<open>Safe results\<close>

definition st_ok :: "('db, 'v) penv \<Rightarrow> 'db \<Rightarrow> bool" where
  "st_ok E db \<longleftrightarrow> (\<exists>pm :: u32 \<rightharpoonup> 'v rpeer. preg E db pm)"

definition scored :: "('db, 'v) penv \<Rightarrow> 'db \<Rightarrow> u32 \<Rightarrow> bool" where
  "scored E db w \<longleftrightarrow> (\<exists>p :: 'v rpeer. st_peer E db (Addr4 w) = Ok p \<and> pScore p \<noteq> None)"

definition fine ::
  "('db, 'v) penv \<Rightarrow> ('db, 'v, 'm) registry \<Rightarrow> ('db, 'v, 'm) registry \<times> 'a res \<Rightarrow> bool" where
  "fine E r x \<longleftrightarrow>
     st_ok E (rgSt (fst x)) \<and> snd x \<noteq> Panic \<and> (\<forall>w. scored E (rgSt r) w \<longrightarrow> scored E (rgSt (fst x)) w)"

lemma reg_inv_st_ok: "reg_inv E r \<Longrightarrow> st_ok E (rgSt r)"
  by (auto simp: reg_inv_def reg_rep_def st_ok_def)

lemma fine_same: "st_ok E (rgSt r) \<Longrightarrow> rgSt (fst x) = rgSt r \<Longrightarrow> snd x \<noteq> Panic \<Longrightarrow> fine E r x"
  by (simp add: fine_def)

lemma fine_trans: "fine E r x \<Longrightarrow> fine E (fst x) y \<Longrightarrow> fine E r y"
  by (simp add: fine_def)

text \<open>What a lookup finds.\<close>

lemma st_peer_cases:
  fixes db :: 'db and E :: "('db, 'v) penv"
  assumes E: "penv_ok E" and S: "st_ok E db" and a: "a \<noteq> AddrZero"
  obtains (unknown) "(st_peer E db a :: 'v rpeer res) = Err ErrNotFound" "\<And>w. a = Addr4 w \<Longrightarrow> \<not> scored E db w"
  | (found) p :: "'v rpeer" where "st_peer E db a = Ok p" "ap_addr (AddressPort p) = a" "whole_seconds (NextAttempt p)"
      "\<And>w. a = Addr4 w \<Longrightarrow> scored E db w \<Longrightarrow> pScore p \<noteq> None"
proof -
  from S obtain pm :: "u32 \<rightharpoonup> 'v rpeer" where R: "preg E db pm" by (auto simp: st_ok_def)
  note q = st_peer_any [OF E R a]
  show thesis
  proof (cases "pm (key4 a)")
    case None
    with q have n: "(st_peer E db a :: 'v rpeer res) = Err ErrNotFound" by simp
    show thesis by (rule unknown [OF n]) (use n in \<open>auto simp: scored_def\<close>)
  next
    case (Some x)
    with R have "whole_seconds (NextAttempt x)" by (auto simp: preg_def stored_ok_def)
    with Some q show thesis
      by (intro found [of "x\<lparr>AddressPort := \<lparr>ap_addr = a, ap_port = ap_port (AddressPort x)\<rparr>\<rparr>"])
         (auto simp: scored_def)
  qed
qed

lemma fine_put:
  fixes r r1 :: "('db, 'v, 'm) registry"
  assumes E: "penv_ok E" and S: "st_ok E (rgSt r)" and r1: "rgSt r1 = rgSt r" and w: "whole_seconds (NextAttempt p)"
    and keep: "\<And>w. ap_addr (AddressPort p) = Addr4 w \<Longrightarrow> scored E (rgSt r) w \<Longrightarrow> pScore p \<noteq> None"
  shows "fine E r (put_peer E p r1)"
  using E w
proof (cases rule: put_peer_cases [where r = r1])
  case (stored v)
  from S obtain pm :: "u32 \<rightharpoonup> 'v rpeer" where R: "preg E (rgSt r) pm" by (auto simp: st_ok_def)
  from putPeer_refines [OF E R stored] obtain db where
    db: "putPeer E p (rgSt r) = Ok db" "preg E db (pm(v \<mapsto> p\<lparr>pConn := None\<rparr>))" by blast
  have "scored E db w" if "scored E (rgSt r) w" for w
    using that keep [of w] stored st_peer_rep [OF E R, of w] st_peer_rep [OF E db(2), of w]
    by (cases "w = v") (auto simp: scored_def acceptable_def split: option.splits)
  with db r1 show ?thesis by (auto simp: fine_def put_peer_def st_ok_def)
next
  case (refused e)
  with S r1 show ?thesis by (simp add: fine_def)
qed

text \<open>Looking a peer up and putting it back changed.\<close>

lemma fine_get_put:
  fixes r r1 :: "('db, 'v, 'm) registry"
  assumes E: "penv_ok E" and S: "st_ok E (rgSt r)" and a: "a \<noteq> AddrZero" and r1: "\<And>x. rgSt (g x) = rgSt x"
    and f: "\<And>p. whole_seconds (NextAttempt p) \<Longrightarrow> whole_seconds (NextAttempt (f p))"
      "\<And>p. ap_addr (AddressPort (f p)) = ap_addr (AddressPort p)" "\<And>p. pScore p \<noteq> None \<Longrightarrow> pScore (f p) \<noteq> None"
  shows "fine E r (bind_act (get_peer E a) (\<lambda>p r. put_peer E (f p) (g r)) r)"
  using E S a
proof (cases rule: st_peer_cases)
  case unknown
  with S show ?thesis by (simp add: bind_act_def get_peer_def fine_def)
next
  case (found p)
  have "fine E r (put_peer E (f p) (g r))"
    by (rule fine_put [OF E S r1]) (use found f in auto)
  with found(1) show ?thesis by (simp add: bind_act_def get_peer_def)
qed

section \<open>The operations\<close>

lemma UpdatePeerScore_fine:
  "penv_ok E \<Longrightarrow> st_ok E (rgSt r) \<Longrightarrow> a \<noteq> AddrZero \<Longrightarrow> fine E r (UpdatePeerScore E a (Some s) r)"
  unfolding UpdatePeerScore_def by (rule fine_get_put [where g = "\<lambda>r. r"]) simp_all

lemma UnregisterPeer_fine:
  "penv_ok E \<Longrightarrow> st_ok E (rgSt r) \<Longrightarrow> a \<noteq> AddrZero \<Longrightarrow> fine E r (UnregisterPeer E now a r)"
  unfolding UnregisterPeer_def by (rule fine_get_put) simp_all

lemma checkPort_no_panic:
  "hsDeclared hs \<noteq> Some Panic \<Longrightarrow> snd (checkPort a np hs r) \<noteq> Panic"
  by (auto simp: checkPort_def split: option.split res.split)

lemma rgSt_close_conn [simp]: "rgSt (close_conn np r) = rgSt r"
  by (simp add: close_conn_def)

lemma register_found_fine:
  fixes r r1 :: "('db, 'v, 'm) registry"
  assumes E: "penv_ok E" and S: "st_ok E (rgSt r)" and r1: "rgSt r1 = rgSt r"
    and hs: "hsAppName (cnHandshake np) \<noteq> []" "hsDeclared hs \<noteq> Some Panic" and w: "whole_seconds (NextAttempt p)"
    and p: "\<And>w. ap_addr (AddressPort p) = Addr4 w \<Longrightarrow> scored E (rgSt r) w \<Longrightarrow> pScore p \<noteq> None"
      "\<And>w. a = Addr4 w \<Longrightarrow> scored E (rgSt r) w \<Longrightarrow> pScore p \<noteq> None"
  shows "fine E r (register_found E now a np hs p r1)"
proof -
  have refuse: "fine E r (refuse_peer E np p r1)"
    unfolding refuse_peer_def Let_def by (rule fine_put [OF E S]) (use r1 w p(1) in simp_all)
  obtain r2 y where c: "checkPort a np hs r1 = (r2, y)" by (cases "checkPort a np hs r1")
  with checkPort_state [of a np hs r1] have r2: "rgSt r2 = rgSt r" using r1 by auto
  have y: "y \<noteq> Panic" using checkPort_no_panic [OF hs(2), of a np r1] c by simp
  have "fine E r (bind_act (checkPort a np hs) (\<lambda>port r.
          let p = p\<lparr>AddressPort := \<lparr>ap_addr = a, ap_port = port\<rparr>, Nonce := hsNonce hs,
                    pName := hsNodeName hs, Version := hsVersion hs, pState := PeerConnected,
                    NextAttempt := Some (round_second now), pConn := Some np\<rparr>
          in put_peer E p (r\<lparr>rgConns := AList.update a np (rgConns r)\<rparr>)) r1)"
  proof (cases y)
    case (Ok port)
    show ?thesis
      unfolding bind_act_def c Ok prod.case res.case Let_def
      by (rule fine_put [OF E S]) (use r2 p(2) in simp_all)
  next
    case (Err e)
    with S r2 show ?thesis by (simp add: bind_act_def c fine_def)
  qed (use y in simp)
  with refuse hs(1) show ?thesis unfolding register_found_def by simp
qed

lemma RegisterPeer_fine:
  fixes r :: "('db, 'v, 'm) registry"
  assumes E: "penv_ok E" and S: "st_ok E (rgSt r)" and hs: "hsAppName (cnHandshake np) \<noteq> []" "hsDeclared hs \<noteq> Some Panic"
  shows "fine E r (RegisterPeer E now a np hs r)"
proof (cases "Is4 a \<and> a \<noteq> rgDeclared r")
  case False
  with S show ?thesis by (auto simp: RegisterPeer_def Let_def fine_def)
next
  case True
  then have a: "a \<noteq> AddrZero" by auto
  let ?r = "r\<lparr>rgPending := rgPending r - {a}\<rparr>"
  have z: "whole_seconds (NextAttempt (zero_peer E :: 'v rpeer))" "ap_addr (AddressPort (zero_peer E :: 'v rpeer)) = AddrZero"
    "pState (zero_peer E :: 'v rpeer) \<noteq> PeerHostile" by (simp_all add: zero_peer_def)
  show ?thesis
    using E S a
  proof (cases rule: st_peer_cases)
    case unknown
    have "fine E r (register_found E now a np hs (zero_peer E) ?r)"
      by (rule register_found_fine [OF E S _ hs]) (use z unknown(2) in auto)
    with True unknown(1) z(3) show ?thesis by (simp add: RegisterPeer_def Let_def)
  next
    case (found p)
    have "fine E r (register_found E now a np hs p ?r)"
      by (rule register_found_fine [OF E S _ hs]) (use found in auto)
    with True found(1) show ?thesis by (simp add: RegisterPeer_def Let_def)
  qed
qed

lemma appendLoop_fine:
  fixes r :: "('db, 'v, 'm) registry"
  assumes E: "penv_ok E"
  shows "st_ok E (rgSt r) \<Longrightarrow> Panic \<notin> set as \<Longrightarrow> fine E r (appendLoop E as c r)"
proof (induction as arbitrary: c r)
  case Nil
  then show ?case by (simp add: fine_def)
next
  case (Cons x as)
  note ih = Cons.IH [OF Cons.prems(1)]
  show ?case
  proof (cases x)
    case (Err e)
    with ih Cons.prems(2) show ?thesis by simp
  next
    case (Ok ap)
    show ?thesis
    proof (cases "\<exists>w. ap_addr ap = Addr4 w")
      case False
      then have "\<not> Is4 (ap_addr ap)" by (cases "ap_addr ap") auto
      with ih Ok Cons.prems(2) show ?thesis by simp
    next
      case True
      then obtain w where w: "ap_addr ap = Addr4 w" by blast
      from Cons.prems(1) obtain pm :: "u32 \<rightharpoonup> 'v rpeer" where R: "preg E (rgSt r) pm" by (auto simp: st_ok_def)
      let ?p = "(zero_peer E)\<lparr>AddressPort := ap, pState := PeerUnknown\<rparr> :: 'v rpeer"
      show ?thesis
      proof (cases "pm w")
        case None
        then have "\<not> scored E (rgSt r) w" using st_peer_rep [OF E R, of w] by (auto simp: scored_def)
        then have put: "fine E r (put_peer E ?p r)"
          by (intro fine_put [OF E Cons.prems(1)]) (auto simp: w zero_peer_def)
        obtain r' y where y: "put_peer E ?p r = (r', y)" by (cases "put_peer E ?p r")
        from put have s: "st_ok E (rgSt r')" "y \<noteq> Panic" by (simp_all add: fine_def y)
        have "fine E r (r', Ok c)" using put by (simp add: fine_def y)
        moreover have "fine E r (appendLoop E as (c + 1) r')"
          by (rule fine_trans [OF put]) (use Cons.IH [OF s(1)] Cons.prems(2) y in simp)
        ultimately show ?thesis
          using s(2) ih Cons.prems(2) None st_hasPeer_rep [OF E R, of w] y by (cases y) (auto simp: Ok w)
      next
        case (Some p)
        with ih Cons.prems(2) st_hasPeer_rep [OF E R, of w] show ?thesis by (simp add: Ok w)
      qed
    qed
  qed (use Cons.prems(2) in simp)
qed

lemma AppendAddresses_fine:
  "penv_ok E \<Longrightarrow> st_ok E (rgSt r) \<Longrightarrow> Panic \<notin> set as \<Longrightarrow> fine E r (AppendAddresses E as r)"
  unfolding AppendAddresses_def by (rule appendLoop_fine)

lemma takeLoop_fine: "st_ok E (rgSt r) \<Longrightarrow> fine E r (takeLoop now ps as r)"
proof (induction ps arbitrary: as r)
  case (Cons p ps)
  let ?r = "r\<lparr>rgPending := insert (ap_addr (AddressPort p)) (rgPending r)\<rparr>"
  have "fine E ?r x = fine E r x" for x :: "('a, 'b, 'c) registry \<times> addr_port list res" by (simp add: fine_def)
  with Cons.IH [of ?r] Cons show ?case by simp
qed (simp add: fine_def)

lemma TakeAvailableAddresses_fine:
  fixes r :: "('db, 'v, 'm) registry"
  assumes "penv_ok E" "st_ok E (rgSt r)"
  shows "fine E r (TakeAvailableAddresses E now r)"
proof -
  from assms(2) obtain pm :: "u32 \<rightharpoonup> 'v rpeer" where "preg E (rgSt r) pm" by (auto simp: st_ok_def)
  from st_peers_rep [OF assms(1) this] obtain ps :: "'v rpeer list" where "st_peers E (rgSt r) = Ok ps" by blast
  with takeLoop_fine [OF assms(2)] show ?thesis by (simp add: TakeAvailableAddresses_def)
qed

lemma SuggestVersion_fine:
  fixes r :: "('db, 'v, 'm) registry"
  assumes E: "penv_ok E" and S: "st_ok E (rgSt r)" and a: "a \<noteq> AddrZero" and vs: "rgVersions r \<noteq> []"
  shows "fine E r (SuggestVersion E now a r)"
proof -
  have put: "fine E r (bind_act (put_peer E q) (\<lambda>_. return_act v) r)" if "fine E r (put_peer E q r)" for q v
    using that by (cases "put_peer E q r"; cases "snd (put_peer E q r)") (auto simp: fine_def bind_act_def return_act_def)
  have pure: "bind_act (\<lambda>r. (r, f r)) g r = (case f r of Ok x \<Rightarrow> g x r | Err e \<Rightarrow> (r, Err e) | Panic \<Rightarrow> (r, Panic))"
    for f :: "('db, 'v, 'm) registry \<Rightarrow> 'v res" and g :: "'v \<Rightarrow> ('db, 'v, 'm, 'v) rg_action"
    by (simp add: bind_act_def split: res.split)
  have next_ok: "\<exists>v. nextVersion E u (rgVersions r) = Ok v" for u
  proof (cases "version_index E u (rgVersions r) + 1 < length (rgVersions r)")
    case True
    then show ?thesis by (simp add: nextVersion_def Let_def)
  next
    case False
    with vs show ?thesis by (auto simp: nextVersion_def Let_def)
  qed
  show ?thesis
    using E S a
  proof (cases rule: st_peer_cases)
    case unknown
    let ?q = "\<lambda>v. (zero_peer E)\<lparr>AddressPort := \<lparr>ap_addr = a, ap_port = 0\<rparr>, Version := v,
              NextAttempt := Some (round_second (now + delay)), pState := PeerUnknown\<rparr> :: 'v rpeer"
    have "fine E r (put_peer E (?q v) r)" for v
      by (rule fine_put [OF E S refl]) (use unknown(2) in auto)
    note put [OF this, of "rgVersions r ! 0" "rgVersions r ! 0"]
    with unknown(1) vs show ?thesis by (simp add: SuggestVersion_def pure bestVersion_def)
  next
    case (found p)
    obtain v where v: "nextVersion E (Version p) (rgVersions r) = Ok v" using next_ok by blast
    have "fine E r (put_peer E (p\<lparr>Version := v, NextAttempt := Some (round_second (now + delay))\<rparr>) r)"
      by (rule fine_put [OF E S refl]) (use found in auto)
    note put [OF this, of v]
    with found(1) v S show ?thesis
      by (auto simp: SuggestVersion_def pure fine_same)
  qed
qed

text \<open>The lists of peers.\<close>

lemma FriendlyPeers_Ok:
  fixes r :: "('db, 'v, 'm) registry"
  assumes E: "penv_ok E" and S: "st_ok E (rgSt r)"
  shows "\<exists>ps. FriendlyPeers E r = Ok ps \<and> (\<forall>p \<in> set ps. Is4 (ap_addr (AddressPort p)))"
proof -
  from S obtain pm :: "u32 \<rightharpoonup> 'v rpeer" where R: "preg E (rgSt r) pm" by (auto simp: st_ok_def)
  from st_peers_rep [OF E R] obtain ws where
    ws: "st_peers E (rgSt r) = Ok (map (\<lambda>w. the (pm w)) ws)" "set ws = dom pm" by blast
  have "Is4 (ap_addr (AddressPort (the (pm w))))" if "w \<in> set ws" for w
    using that ws(2) R by (auto simp: preg_def stored_ok_def)
  with ws(1) show ?thesis by (auto simp: FriendlyPeers_def)
qed

end
