(* ===== verification/DistributorSpec.thy ===== *)
theory DistributorSpec
  imports Distributor RegistrySafe LoaderSpec
begin

text \<open>
  The distributor over a well formed registry and block graph: no message makes it panic, and
  both stay well formed.
\<close>

section \<open>The state\<close>

text \<open>
  Documented behaviour of \<open>NewBlockIDFromBytes\<close>: it answers an error for bytes that are no ID.
\<close>

definition ds_env_ok :: "('db, 'id, 'pdb, 'v) ds_env \<Rightarrow> bool" where
  "ds_env_ok D \<longleftrightarrow> env_ok (deEnv D) \<and> env_live (deEnv D) \<and> penv_ok (dePenv D) \<and>
     (\<forall>bs. id_of_bytes (deEnv D) bs \<noteq> Panic)"

lemma ds_env_okD:
  assumes "ds_env_ok D"
  shows "env_ok (deEnv D)" "env_live (deEnv D)" "penv_ok (dePenv D)" "id_of_bytes (deEnv D) bs \<noteq> Panic"
  using assms by (simp_all add: ds_env_ok_def)

fun package_ok :: "'id package \<Rightarrow> bool" where
  "package_ok (IDsPackage a ids) = True"
| "package_ok (BlockPackage a b) = lk_sound b"

definition ds_ok :: "('db, 'id, 'pdb, 'v) ds_env \<Rightarrow> ('db, 'id, 'pdb, 'v) dstate \<Rightarrow> bool" where
  "ds_ok D s \<longleftrightarrow>
     reg_inv (dePenv D) (dsReg s) \<and> lk_ok (deEnv D, dsLnk s) \<and> (\<forall>p \<in> set (dsOut s). package_ok p)"

text \<open>
  What is received: an address that parses is a valid one; a handshake names an application and
  a node name in UTF-8; a parser does not panic; a block has a base target that fits 63 bits.
\<close>

definition peer_ok :: "('db, 'id, 'pdb, 'v) ds_env \<Rightarrow> 'v npeer \<Rightarrow> bool" where
  "peer_ok D p \<longleftrightarrow>
     (\<forall>ap. npRemote p = Some ap \<longrightarrow> plain (ap_addr ap)) \<and>
     hsAppName (cnHandshake (npConn p)) \<noteq> [] \<and> hsDeclared (cnHandshake (npConn p)) \<noteq> Some Panic \<and>
     valid_utf8 (dePenv D) (hsNodeName (cnHandshake (npConn p)))"

fun imsg_ok :: "'id imsg \<Rightarrow> bool" where
  "imsg_ok (PeersMessage pis) = (Panic \<notin> set pis)"
| "imsg_ok (BlockMessage b) = (b \<noteq> Panic \<and> (\<forall>x. b = Ok x \<longrightarrow> lk_sound x))"
| "imsg_ok (PBBlockMessage b) = (b \<noteq> Panic \<and> (\<forall>x. b = Ok x \<longrightarrow> lk_sound x))"
| "imsg_ok (MicroBlockInvMessage m) = (m \<noteq> Panic)"
| "imsg_ok _ = True"

fun event_ok :: "('db, 'id, 'pdb, 'v) ds_env \<Rightarrow> ('id, 'v) ds_event \<Rightarrow> bool" where
  "event_ok D (DvConnected p) = peer_ok D p"
| "event_ok D (DvInternalErr p) = peer_ok D p"
| "event_ok D DvTimer = True"
| "event_ok D (DvMessage p m) = (peer_ok D p \<and> imsg_ok m)"

lemma plain_valid: "plain a \<Longrightarrow> a \<noteq> AddrZero"
  by auto

section \<open>Steps\<close>

text \<open>The outcome of a handler: it returns, the state is well formed, scores stay, blocks stay.\<close>

definition ds_fine ::
  "('db, 'id, 'pdb, 'v) ds_env \<Rightarrow> ('db, 'id, 'pdb, 'v) dstate \<Rightarrow> ('db, 'id, 'pdb, 'v) dstate \<times> unit res \<Rightarrow> bool" where
  "ds_fine D s x \<longleftrightarrow>
     ds_ok D (fst x) \<and> snd x = Ok () \<and>
     (\<forall>w. scored (dePenv D) (rgSt (dsReg s)) w \<longrightarrow> scored (dePenv D) (rgSt (dsReg (fst x))) w) \<and>
     lk_capacity (deEnv D, dsLnk s) \<le> Suc (lk_capacity (deEnv D, dsLnk (fst x))) \<and>
     (\<exists>ps. dsOut (fst x) = dsOut s @ ps)"

lemma ds_fine_same: "ds_ok D s \<Longrightarrow> ds_fine D s (s, Ok ())"
  by (simp add: ds_fine_def)

lemma ds_fine_reg:
  assumes s: "ds_ok D s" and f: "fine (dePenv D) (dsReg s) (m (dsReg s))" and k: "reg_inv (dePenv D) (fst (m (dsReg s)))"
  shows "ds_fine D s (logged (on_reg m) s)"
proof -
  obtain r x where m: "m (dsReg s) = (r, x)" by (cases "m (dsReg s)")
  from f have "x \<noteq> Panic" by (simp add: fine_def m)
  then have "logged (on_reg m) s = (s\<lparr>dsReg := r\<rparr>, Ok ())" by (cases x) (simp_all add: logged_def on_reg_def m)
  with s f k show ?thesis by (simp add: ds_fine_def ds_ok_def fine_def m)
qed

lemma ds_fine_send: "ds_ok D s \<Longrightarrow> package_ok p \<Longrightarrow> ds_fine D s (send_package p s)"
  by (auto simp: ds_fine_def ds_ok_def send_package_def)

lemma with_remote_fine:
  assumes "ds_ok D s" "peer_ok D p" "\<And>a. plain a \<Longrightarrow> ds_fine D s (f a s)"
  shows "ds_fine D s (with_remote p f s)"
  using assms by (auto simp: with_remote_def peer_ok_def ds_fine_same split: option.split)

section \<open>Blocks\<close>

lemma PutBlock_fine:
  assumes D: "ds_env_ok D" and L: "lk_ok (deEnv D, l)" and cap: "0 < lk_capacity (deEnv D, l)"
    and a: "plain a" and b: "lk_sound blk" and put: "PutBlock (deEnv D) blk a l = (l', r)"
  shows "lk_ok (deEnv D, l')" "r \<noteq> Panic" "lk_capacity (deEnv D, l) \<le> Suc (lk_capacity (deEnv D, l'))"
proof -
  have p: "hpPutBlock linkage_history blk a (deEnv D, l) = ((deEnv D, l'), r)"
    using put by (simp add: linkage_history_def lift_lk_def)
  from lk_history.put_ok [OF L a cap p] show "lk_ok (deEnv D, l')"
    "lk_capacity (deEnv D, l) \<le> Suc (lk_capacity (deEnv D, l'))" by simp_all
  from lk_loader.put_no_panic [OF L a cap b p] show "r \<noteq> Panic" .
qed

text \<open>A sound block is put, unless neither it nor its parent is known.\<close>

lemma PutBlock_outcome:
  assumes L: "lk_ok (E, l)" and a: "plain a" and cap: "0 < lk_capacity (E, l)" and b: "lk_sound blk"
    and put: "PutBlock E blk a l = (l', r)"
  shows "if HasBlock E l (BlockID blk) = Ok True \<or> HasBlock E l (BlockParent blk) = Ok True then r = Ok ()
      else r = Err ErrParentNotFound"
    "if HasBlock E l (BlockID blk) = Ok True \<or> HasBlock E l (BlockParent blk) = Ok True
      then HasBlock E l' (BlockID blk) = Ok True \<and> LeashOf E l' a = Ok (BlockID blk) \<and>
        (\<forall>c. plain c \<and> c \<noteq> a \<longrightarrow> LeashOf E l' c = LeashOf E l c)
      else l' = l"
proof -
  from L obtain g where E: "env_ok E" "env_live E" and g: "lk_rep E l g" by (auto simp: lk_ok_def)
  have room: "room g" using cap lk_capacity_rep [OF g] by (simp add: room_def)
  note ref = PutBlock_refines [OF E g a room, of blk]
  note has = HasBlock_rep [OF E(2) g]
  have spec: "if known g (BlockID blk) \<or> known g (BlockParent blk) then \<exists>g'. g_put_block E (lnkScheme l) blk a g = Ok g'
      else g_put_block E (lnkScheme l) blk a g = Err ErrParentNotFound"
    using b env_liveD(4) [OF E(2), of "lnkScheme l" "GeneratorPublicKey blk"]
    by (auto simp: g_put_block_def newBlock_def calculateCumulativeScore_def calculateScore_def is_ok_iff
        lk_sound_def Let_def split: option.splits)
  show "if HasBlock E l (BlockID blk) = Ok True \<or> HasBlock E l (BlockParent blk) = Ok True then r = Ok ()
      else r = Err ErrParentNotFound"
    using spec ref put by (auto simp: has split: if_splits)
  show "if HasBlock E l (BlockID blk) = Ok True \<or> HasBlock E l (BlockParent blk) = Ok True
      then HasBlock E l' (BlockID blk) = Ok True \<and> LeashOf E l' a = Ok (BlockID blk) \<and>
        (\<forall>c. plain c \<and> c \<noteq> a \<longrightarrow> LeashOf E l' c = LeashOf E l c)
      else l' = l"
  proof (cases "known g (BlockID blk) \<or> known g (BlockParent blk)")
    case True
    with spec obtain g' where g': "g_put_block E (lnkScheme l) blk a g = Ok g'" by auto
    with ref put have "r = Ok ()" by auto
    with put have p: "hpPutBlock linkage_history blk a (E, l) = ((E, l'), Ok ())"
      by (simp add: linkage_history_def lift_lk_def)
    from lk_history.put_Ok [OF L a cap p] True show ?thesis by (simp add: linkage_history_simps has)
  next
    case False
    with spec ref put show ?thesis by (simp add: has)
  qed
qed

lemma putMicroBlock_on_genesis:
  assumes D: "ds_env_ok D" and R: "repr (deEnv D) db g" and ref: "Reference mb = gId g 1"
  shows "\<exists>e. putMicroBlock (deEnv D) mb db = Err e"
proof -
  note E = ds_env_okD [OF D]
  note one = one_in_nodes [OF reprD(7) [OF R]]
  have par: "bParent (gBlk g 1) = []" using reprD(2) [OF R] one by (simp add: fields_rep_def)
  show ?thesis
    unfolding putMicroBlock_def with_snapshot_live [OF env_liveD(1) [OF E(2)]] ref
      rep_getCounter [OF R] rep_getNum [OF R one] rep_getBlock [OF R one] bind_res.simps par
    using E(4) [of "[]"] by (cases "id_of_bytes (deEnv D) []") (simp_all add: id_of_bytes_Nil [OF E(1)])
qed

lemma g_put_micro_size: "g_put_micro E mb a g = Ok g' \<Longrightarrow> gSize g' \<le> Suc (gSize g)"
  by (auto simp: g_put_micro_def Let_def split: if_splits)

lemma PutMicroBlock_fine:
  assumes D: "ds_env_ok D" and L: "lk_ok (deEnv D, l)" and cap: "0 < lk_capacity (deEnv D, l)"
    and a: "plain a" and put: "PutMicroBlock (deEnv D) mb a l = (l', r)"
  shows "lk_ok (deEnv D, l') \<and> r \<noteq> Panic \<and> lk_capacity (deEnv D, l) \<le> Suc (lk_capacity (deEnv D, l'))"
proof -
  note E = ds_env_okD [OF D]
  from L obtain g where g: "lk_rep (deEnv D) l g" by (auto simp: lk_ok_def)
  have room: "room g" using cap lk_capacity_rep [OF g] by (simp add: room_def)
  have goal: ?thesis if "lk_rep (deEnv D) l' g'" "gSize g' \<le> Suc (gSize g)" "r \<noteq> Panic" for g'
    using that E(1,2) by (auto simp: lk_ok_def lk_capacity_rep [OF g] lk_capacity_rep [OF that(1)])
  have has: "st_hasBlock (deEnv D) (lnkSt l) i = Ok (known g i)" for i
    using st_hasBlock_rep [OF env_liveD(1) [OF E(2)] lk_repD(1) [OF g]] by (simp add: known_def)
  show ?thesis
  proof (cases "Reference mb = lnkGenesis l")
    case False
    note ref = PutMicroBlock_refines [OF E(1,2) g a room this]
    show ?thesis
    proof (cases "g_put_micro (deEnv D) mb a g")
      case (Ok g')
      with ref put goal g_put_micro_size [OF Ok] show ?thesis by auto
    qed (use ref put goal [of g] g in auto)
  next
    case True
    then have r1: "Reference mb = gId g 1" "known g (Reference mb)"
      using lk_repD(2) [OF g] one_in_nodes [OF lk_repD(3) [OF g]] by (auto simp: known_def image_iff intro: bexI [of _ 1])
    show ?thesis
    proof (cases "known g (TotalBlockID mb)")
      case True
      with write_leash_refines [OF E(1,2) g a True] put goal [of "g_leash a (TotalBlockID mb) g"]
      show ?thesis by (auto simp: PutMicroBlock_def read_st_def act_simps has)
    next
      case False
      obtain e where "putMicroBlock (deEnv D) mb (lnkSt l) = Err e"
        using putMicroBlock_on_genesis [OF D lk_repD(1) [OF g] r1(1)] by blast
      with False r1(2) put have "l' = l" "r = Err e"
        by (auto simp: PutMicroBlock_def read_st_def write_st_def act_simps has)
      with goal [of g] g show ?thesis by simp
    qed
  qed
qed

section \<open>Handlers\<close>

lemma ds_fine_lnk:
  assumes "ds_ok D s" "lk_ok (deEnv D, l)" "lk_capacity (deEnv D, dsLnk s) \<le> Suc (lk_capacity (deEnv D, l))"
    "\<forall>p \<in> set ps. package_ok p"
  shows "ds_fine D s (s\<lparr>dsLnk := l, dsOut := dsOut s @ ps\<rparr>, Ok ())"
  using assms by (auto simp: ds_fine_def ds_ok_def)

lemma handleBlock_fine:
  assumes D: "ds_env_ok D" and s: "ds_ok D s" and cap: "0 < lk_capacity (deEnv D, dsLnk s)" and p: "peer_ok D p" and b: "lk_sound blk"
  shows "ds_fine D s (logged (ds_handleBlock D blk (npRemote p)) s)"
proof (cases "npRemote p")
  case None
  with s show ?thesis by (simp add: logged_def ds_handleBlock_def ds_fine_same)
next
  case (Some ap)
  with p have a: "plain (ap_addr ap)" by (simp add: peer_ok_def)
  obtain l r where put: "PutBlock (deEnv D) blk (ap_addr ap) (dsLnk s) = (l, r)" by fastforce
  have L: "lk_ok (deEnv D, dsLnk s)" using s by (simp add: ds_ok_def)
  note f = PutBlock_fine [OF D L cap a b put]
  note lnk = ds_fine_lnk [OF s f(1,3)]
  have st: "s\<lparr>dsLnk := l, dsOut := dsOut s @ []\<rparr> = s\<lparr>dsLnk := l\<rparr>" by simp
  show ?thesis
    using lnk [of "[]", unfolded st] lnk [of "[BlockPackage (ap_addr ap) blk]"] b f(2) Some
    by (cases r) (auto simp: logged_def ds_handleBlock_def on_lnk_def put send_package_def)
qed

lemma handleMicroBlockInv_fine:
  assumes D: "ds_env_ok D" and s: "ds_ok D s" and cap: "0 < lk_capacity (deEnv D, dsLnk s)" and p: "peer_ok D p" and m: "m \<noteq> Panic"
  shows "ds_fine D s (handleMicroBlockInvMessage D p m s)"
  unfolding handleMicroBlockInvMessage_def
proof (rule with_remote_fine [OF s p])
  fix a assume a: "plain a"
  show "ds_fine D s (case m of Panic \<Rightarrow> (s, Panic) | Err _ \<Rightarrow> (s, Ok ())
      | Ok mb \<Rightarrow> logged (on_lnk (PutMicroBlock (deEnv D) mb a)) s)"
  proof (cases m)
    case (Ok mb)
    obtain l r where put: "PutMicroBlock (deEnv D) mb a (dsLnk s) = (l, r)" by fastforce
    have L: "lk_ok (deEnv D, dsLnk s)" using s by (simp add: ds_ok_def)
    note f = PutMicroBlock_fine [OF D L cap a put]
    have st: "s\<lparr>dsLnk := l, dsOut := dsOut s @ []\<rparr> = s\<lparr>dsLnk := l\<rparr>" by simp
    show ?thesis
      using ds_fine_lnk [OF s, of l "[]", unfolded st] f Ok
      by (cases r) (auto simp: logged_def on_lnk_def put)
  qed (use m s ds_fine_same in auto)
qed

lemma handleGetPeers_fine:
  assumes D: "ds_env_ok D" and s: "ds_ok D s"
  shows "ds_fine D s (handleGetPeersMessage D p s)"
proof -
  have I: "reg_inv (dePenv D) (dsReg s)" using s by (simp add: ds_ok_def)
  from FriendlyPeers_Ok [OF ds_env_okD(3) [OF D] reg_inv_st_ok [OF I]] obtain ps where
    ps: "FriendlyPeers (dePenv D) (dsReg s) = Ok ps" "\<forall>p \<in> set ps. Is4 (ap_addr (AddressPort p))" by blast
  have "mapM_res TCPAddr ps = Ok (map AddressPort ps)"
    by (rule mapM_res_Ok) (use ps(2) in \<open>simp add: TCPAddr_def\<close>)
  with ps(1) s show ?thesis
    by (simp add: handleGetPeersMessage_def send_message_def ds_fine_def ds_ok_def)
qed

lemma with_registry_fine:
  assumes D: "ds_env_ok D" and s: "ds_ok D s"
    and f: "st_ok (dePenv D) (rgSt (dsReg s)) \<Longrightarrow> fine (dePenv D) (dsReg s) (m (dsReg s))"
    and k: "reg_inv (dePenv D) (dsReg s) \<Longrightarrow> reg_inv (dePenv D) (fst (m (dsReg s)))"
  shows "ds_fine D s (logged (on_reg m) s)"
proof -
  have I: "reg_inv (dePenv D) (dsReg s)" using s by (simp add: ds_ok_def)
  show ?thesis by (rule ds_fine_reg [where m = m, OF s f [OF reg_inv_st_ok [OF I]] k [OF I]])
qed

lemma handleConnected_fine:
  assumes D: "ds_env_ok D" and s: "ds_ok D s" and p: "peer_ok D p"
  shows "ds_fine D s (handleConnected D now p s)"
  unfolding handleConnected_def
proof (rule with_remote_fine [OF s p])
  note E = ds_env_okD(3) [OF D]
  fix a assume "plain a"
  show "ds_fine D s (logged (on_reg (RegisterPeer (dePenv D) now a (npConn p) (cnHandshake (npConn p)))) s)"
    by (rule with_registry_fine [OF D s]) (use p in \<open>auto simp: peer_ok_def intro!: RegisterPeer_fine [OF E] RegisterPeer_keeps [OF E]\<close>)
qed

lemma handleInternalError_fine:
  assumes D: "ds_env_ok D" and s: "ds_ok D s" and p: "peer_ok D p"
  shows "ds_fine D s (handleInternalError D now p s)"
  unfolding handleInternalError_def
proof (rule with_remote_fine [OF s p])
  note E = ds_env_okD(3) [OF D]
  fix a assume a: "plain a"
  let ?c = "close_conn (npConn p)"
  have f: "fine (dePenv D) (dsReg s) (UnregisterPeer (dePenv D) now a (?c (dsReg s)))" if "st_ok (dePenv D) (rgSt (dsReg s))"
    using UnregisterPeer_fine [OF E, of "?c (dsReg s)" a now] that plain_valid [OF a] by (simp add: fine_def)
  show "ds_fine D s (logged (on_reg (\<lambda>r. UnregisterPeer (dePenv D) now a (?c r))) s)"
    by (rule with_registry_fine [OF D s]) (simp_all add: f keepsD [OF UnregisterPeer_keeps [OF E]])
qed

lemma handleScore_fine:
  assumes D: "ds_env_ok D" and s: "ds_ok D s" and p: "peer_ok D p"
  shows "ds_fine D s (handleScoreMessage D p score s)"
  unfolding handleScoreMessage_def
proof (rule with_remote_fine [OF s p])
  note E = ds_env_okD(3) [OF D]
  fix a assume a: "plain a"
  show "ds_fine D s (logged (on_reg (UpdatePeerScore (dePenv D) a (Some (int (be_nat score))))) s)"
    by (rule with_registry_fine [OF D s])
       (simp_all add: keepsD [OF UpdatePeerScore_keeps [OF E]] UpdatePeerScore_fine [OF E _ plain_valid [OF a]])
qed

lemma handlePeers_fine:
  assumes D: "ds_env_ok D" and s: "ds_ok D s" and pis: "Panic \<notin> set pis"
  shows "ds_fine D s (handlePeersMessage D pis s)"
  unfolding handlePeersMessage_def
  by (rule with_registry_fine [OF D s])
     (use ds_env_okD(3) [OF D] pis in \<open>auto intro: appendLoop_fine simp: AppendAddresses_def appendLoop_keeps\<close>)

lemma handleMessage_fine:
  assumes D: "ds_env_ok D" and s: "ds_ok D s" and cap: "0 < lk_capacity (deEnv D, dsLnk s)" and p: "peer_ok D p" and m: "imsg_ok m"
  shows "ds_fine D s (handleMessage D p m s)"
proof (cases m)
  case (SignaturesMessage sigs)
  then show ?thesis
    using s by (auto simp: handleSignaturesMessage_def intro!: with_remote_fine [OF s p] ds_fine_send)
next
  case (BlockIdsMessage ids)
  then show ?thesis
    using s by (auto simp: handleBlockIDsMessage_def ds_fine_same intro!: with_remote_fine [OF s p] ds_fine_send)
next
  case (BlockMessage b)
  with m s handleBlock_fine [OF D s cap p] show ?thesis by (cases b) (auto simp: handleBlockMessage_def ds_fine_same)
next
  case (PBBlockMessage b)
  with m s handleBlock_fine [OF D s cap p] show ?thesis by (cases b) (auto simp: handleProtoBlockMessage_def ds_fine_same)
next
  case OtherMessage
  with s show ?thesis by (simp add: return_act_def ds_fine_same)
qed (use m handleGetPeers_fine [OF D s] handlePeers_fine [OF D s] handleScore_fine [OF D s p]
    handleMicroBlockInv_fine [OF D s cap p] in auto)

lemma pingConnections_fine: "ds_ok D s \<Longrightarrow> ds_fine D s (pingConnections D s)"
  by (simp add: pingConnections_def Broadcast_def ds_fine_def ds_ok_def)

lemma ds_step_safe:
  assumes "ds_env_ok D" "ds_ok D s" "0 < lk_capacity (deEnv D, dsLnk s)" "event_ok D e"
  shows "ds_fine D s (ds_step D now e s)"
  using assms by (cases e) (auto intro: handleConnected_fine handleInternalError_fine handleMessage_fine pingConnections_fine)

end
