(* ===== verification/SystemSpec.thy ===== *)
theory SystemSpec
  imports System DistributorSpec
begin

text \<open>
  The services together: whatever they receive and in whatever order, none of them panics, and
  the registry, the block graph and the loader stay well formed.
\<close>

section \<open>The versions never change\<close>

abbreviation same_versions :: "'v list \<Rightarrow> ('db, 'v, 'm) registry \<Rightarrow> bool" where
  "same_versions vs r \<equiv> rgVersions r = vs"

lemma put_peer_versions [simp]: "rgVersions (fst (put_peer E p r)) = rgVersions r"
  by (simp add: put_peer_def split: res.split)

lemma put_peer_versions' [simp]: "put_peer E p r = (r', x) \<Longrightarrow> rgVersions r' = rgVersions r"
  by (metis fst_conv put_peer_versions)

lemma close_conn_versions [simp]: "rgVersions (close_conn c r) = rgVersions r"
  by (simp add: close_conn_def)

lemma bind_versions:
  assumes "\<And>r. rgVersions (fst (m r)) = rgVersions r" "\<And>x r. rgVersions (fst (f x r)) = rgVersions r"
  shows "rgVersions (fst (bind_act m f r)) = rgVersions r"
  using assms(1) [of r] assms(2) by (cases "m r"; cases "snd (m r)") (auto simp: bind_act_def)

lemma checkPort_versions: "rgVersions (fst (checkPort a np hs r)) = rgVersions r"
  using checkPort_state [of a np hs r] by auto

lemma UpdatePeerScore_versions: "rgVersions (fst (UpdatePeerScore E a s r)) = rgVersions r"
  unfolding UpdatePeerScore_def by (rule bind_versions) (simp_all add: get_peer_def)

lemma UnregisterPeer_versions: "rgVersions (fst (UnregisterPeer E now a r)) = rgVersions r"
  unfolding UnregisterPeer_def by (rule bind_versions) (simp_all add: get_peer_def)

lemma register_found_versions: "rgVersions (fst (register_found E now a np hs p r)) = rgVersions r"
proof -
  have "rgVersions (fst (bind_act (checkPort a np hs) (\<lambda>port r. put_peer E (q port)
      (r\<lparr>rgConns := AList.update a np (rgConns r)\<rparr>)) r)) = rgVersions r" for q
    by (rule bind_versions) (simp_all add: checkPort_versions)
  then show ?thesis by (simp add: register_found_def refuse_peer_def Let_def)
qed

lemma RegisterPeer_versions: "rgVersions (fst (RegisterPeer E now a np hs r)) = rgVersions r"
  by (simp add: RegisterPeer_def Let_def register_found_versions split: res.split)

lemma appendLoop_versions: "rgVersions (fst (appendLoop E as c r)) = rgVersions r"
  by (induction E as c r rule: appendLoop.induct) (auto split: res.split prod.split)

lemma takeLoop_versions: "rgVersions (fst (takeLoop now ps as r)) = rgVersions r"
  by (induction ps arbitrary: as r) simp_all

lemma TakeAvailableAddresses_versions: "rgVersions (fst (TakeAvailableAddresses E now r)) = rgVersions r"
  by (simp add: TakeAvailableAddresses_def takeLoop_versions split: res.split)

lemma SuggestVersion_versions: "rgVersions (fst (SuggestVersion E now a r)) = rgVersions r"
  by (auto simp: SuggestVersion_def return_act_def intro!: bind_versions split: res.split)

lemma Broadcast_versions [simp]: "rgVersions (Broadcast E msg r) = rgVersions r"
  by (simp add: Broadcast_def)

lemmas registry_versions = UpdatePeerScore_versions UnregisterPeer_versions RegisterPeer_versions appendLoop_versions
  TakeAvailableAddresses_versions SuggestVersion_versions

text \<open>Nor does the distributor change them.\<close>

abbreviation ds_versions :: "('db, 'id, 'pdb, 'v) dstate \<Rightarrow> 'v list" where
  "ds_versions s \<equiv> rgVersions (dsReg s)"

lemma ds_versions_simps [simp]:
  "ds_versions (fst (logged m s)) = ds_versions (fst (m s))"
  "ds_versions (fst (on_lnk n s)) = ds_versions s" "ds_versions (fst (send_package p s)) = ds_versions s"
  "ds_versions (fst (on_reg k s)) = rgVersions (fst (k (dsReg s)))"
  by (auto simp: logged_def on_lnk_def on_reg_def send_package_def split: prod.split res.split)

lemma with_remote_versions:
  "(\<And>a. ds_versions (fst (f a s)) = ds_versions s) \<Longrightarrow> ds_versions (fst (with_remote p f s)) = ds_versions s"
  by (simp add: with_remote_def split: option.split)

lemma ds_handleBlock_versions [simp]: "ds_versions (fst (ds_handleBlock D blk remote s)) = ds_versions s"
proof (cases remote)
  case (Some ap)
  obtain s' x where p: "on_lnk (PutBlock (deEnv D) blk (ap_addr ap)) s = (s', x)" by fastforce
  then have "ds_versions s' = ds_versions s" by (metis ds_versions_simps(2) fst_conv)
  with Some p show ?thesis by (cases x) (simp_all add: ds_handleBlock_def)
qed (simp add: ds_handleBlock_def)

lemma handleMessage_versions: "ds_versions (fst (handleMessage D p m s)) = ds_versions s"
proof (cases m)
  case GetPeersMessage
  then show ?thesis by (auto simp: handleGetPeersMessage_def send_message_def split: res.split)
next
  case (PeersMessage pis)
  then show ?thesis by (simp add: handlePeersMessage_def AppendAddresses_def registry_versions)
qed (auto simp: handleSignaturesMessage_def handleBlockMessage_def handleScoreMessage_def handleMicroBlockInvMessage_def
    handleProtoBlockMessage_def handleBlockIDsMessage_def return_act_def registry_versions
    intro!: with_remote_versions split: res.split)

lemma ds_step_versions: "ds_versions (fst (ds_step D now e s)) = ds_versions s"
  by (cases e) (auto simp: handleConnected_def handleInternalError_def pingConnections_def handleMessage_versions
      registry_versions intro!: with_remote_versions)

section \<open>What the registry tells the loader\<close>

lemma scored_iff:
  fixes r :: "('db, 'v, 'm) registry"
  assumes E: "penv_ok E" and S: "st_ok E (rgSt r)" and a: "a \<noteq> AddrZero"
  shows "(\<exists>s. peer_score E r a = Ok (Some s)) \<longleftrightarrow> scored E (rgSt r) (key4 a)"
proof -
  from S obtain pm :: "u32 \<rightharpoonup> 'v rpeer" where R: "preg E (rgSt r) pm" by (auto simp: st_ok_def)
  show ?thesis
    using st_peer_any [OF E R a] st_peer_rep [OF E R, of "key4 a"]
    by (auto simp: peer_score_def PeerOf_def scored_def split: option.splits)
qed

lemma peer_score_no_panic:
  fixes r :: "('db, 'v, 'm) registry"
  assumes "penv_ok E" "st_ok E (rgSt r)" "a \<noteq> AddrZero"
  shows "peer_score E r a \<noteq> Panic"
  using assms by (cases rule: st_peer_cases) (simp_all add: peer_score_def PeerOf_def)

lemma registry_answers:
  fixes r :: "('db, 'v, 'm) registry"
  assumes E: "penv_ok E" and I: "reg_inv E r"
  shows "answers_ok plain (peer_score E r, connection_scores E r) (x\<lparr>ldPeerScore := peer_score E r, ldConnections := connection_scores E r\<rparr>)"
proof -
  from I obtain pm :: "u32 \<rightharpoonup> 'v rpeer" where R: "reg_rep E r pm" by (auto simp: reg_inv_def)
  from Connections_result [OF E R] obtain ps where ps: "Connections E r = Ok ps"
    "\<forall>p \<in> set ps. connection_of r pm p" by blast
  have c: "plain (ap_addr (AddressPort p)) \<and>
      (pScore p \<noteq> None \<longrightarrow> (\<exists>s. peer_score E r (ap_addr (AddressPort p)) = Ok (Some s)))" if "p \<in> set ps" for p
  proof -
    from ps(2) that obtain w where w: "ap_addr (AddressPort p) = Addr4 w" "pm w = Some (p\<lparr>pConn := None\<rparr>)"
      unfolding connection_of_def by blast
    with get_peer_rep [OF E R, of w] show ?thesis by (auto simp: peer_score_def PeerOf_def)
  qed
  moreover have "peer_score E r a \<noteq> Panic" if "plain a" for a
    using that by (intro peer_score_no_panic [OF E reg_inv_st_ok [OF I]]) auto
  ultimately show ?thesis by (auto simp: answers_ok_def connection_scores_def ps(1))
qed

section \<open>The invariant\<close>

definition nd_ok :: "('db, 'id, 'pdb, 'v) ds_env \<Rightarrow> ('db, 'id, 'pdb, 'v) node \<Rightarrow> bool" where
  "nd_ok D s \<longleftrightarrow>
     ds_ok D (ndDs s) \<and> ds_versions (ndDs s) \<noteq> [] \<and>
     plain (plPeer (ndLoader s)) \<and> smPending (ndLoader s) = [] \<and> queue_sound lk_sound (plQueue (ndLoader s)) \<and>
     (ldActive (plRep (ndLoader s)) \<longrightarrow> scored (dePenv D) (rgSt (dsReg (ndDs s))) (key4 (plPeer (ndLoader s))))"

text \<open>The graph has room for the queue and one block more, and the last common blocks can be computed.\<close>

definition roomy :: "('db, 'id, 'pdb, 'v) ds_env \<Rightarrow> ('db, 'id, 'pdb, 'v) node \<Rightarrow> bool" where
  "roomy D s \<longleftrightarrow>
     length (plQueue (ndLoader s)) < lk_capacity (deEnv D, dsLnk (ndDs s)) \<and>
     (\<forall>a. plain a \<longrightarrow> lk_lcb_ok a (deEnv D, dsLnk (ndDs s)))"

fun nd_event_ok :: "('db, 'id, 'pdb, 'v) ds_env \<Rightarrow> ('id, 'v) nd_event \<Rightarrow> bool" where
  "nd_event_ok D (NdNet e) = event_ok D e"
| "nd_event_ok D (NdTimer pick) = (\<forall>n > 0. pick n < n)"
| "nd_event_ok D (NdAccept remote run) = ((\<forall>ap. remote = Some ap \<longrightarrow> plain (ap_addr ap)) \<and> (\<forall>p. run p \<noteq> Panic))"
| "nd_event_ok D (NdDial ap run) = (plain (ap_addr ap) \<and> (\<forall>p. run p \<noteq> Panic))"
| "nd_event_ok D (NdDialFailed ap) = plain (ap_addr ap)"
| "nd_event_ok D _ = True"

lemma nd_okD:
  assumes "nd_ok D s"
  shows "ds_ok D (ndDs s)" "reg_inv (dePenv D) (dsReg (ndDs s))" "st_ok (dePenv D) (rgSt (dsReg (ndDs s)))"
    "lk_ok (deEnv D, dsLnk (ndDs s))" "ds_versions (ndDs s) \<noteq> []"
  using assms by (simp_all add: nd_ok_def ds_ok_def reg_inv_st_ok)

definition told :: "('db, 'id, 'pdb, 'v) ds_env \<Rightarrow> ('db, 'id, 'pdb, 'v) node \<Rightarrow> answers" where
  "told D s = (peer_score (dePenv D) (dsReg (ndDs s)), connection_scores (dePenv D) (dsReg (ndDs s)))"

lemma loader_view_ok:
  assumes D: "ds_env_ok D" and s: "nd_ok D s"
  shows "world_ok (\<lambda>h. lk_ok h \<and> fst h = deEnv D) plain lk_sound (told D s) (loader_view D now s)"
proof -
  note I = nd_okD [OF s]
  note E = ds_env_okD(3) [OF D]
  have p: "plain (plPeer (ndLoader s))" using s by (simp add: nd_ok_def)
  note sc = scored_iff [OF E I(3) plain_valid [OF p]]
  have "registry_ok plain (told D s) (plPeer (ndLoader s)) (plRep (loader_view D now s))"
    using s sc registry_answers [OF E I(2)] by (simp add: registry_ok_def loader_view_def nd_ok_def told_def)
  then show ?thesis using I(4) s by (simp add: world_ok_def loader_view_def nd_ok_def)
qed

lemma nd_ok_view:
  fixes s :: "('db, 'id, 'pdb, 'v) node"
  assumes D: "ds_env_ok D" and s: "nd_ok D s"
  shows "lk_ok (deEnv D, dsLnk (ndDs s))" "\<exists>cs. Connections (dePenv D) (dsReg (ndDs s)) = Ok cs"
    "ldActive (plRep (ndLoader s)) \<longrightarrow>
       (\<exists>x. peer_score (dePenv D) (dsReg (ndDs s)) (plPeer (ndLoader s)) = Ok (Some x))"
proof -
  note I = nd_okD [OF s]
  note E = ds_env_okD(3) [OF D]
  show "lk_ok (deEnv D, dsLnk (ndDs s))" by (rule I(4))
  from I(2) obtain pm :: "u32 \<rightharpoonup> 'v rpeer" where "reg_rep (dePenv D) (dsReg (ndDs s)) pm" by (auto simp: reg_inv_def)
  from Connections_result [OF E this] show "\<exists>cs. Connections (dePenv D) (dsReg (ndDs s)) = Ok cs" by blast
  have "plain (plPeer (ndLoader s))" using s by (simp add: nd_ok_def)
  from scored_iff [OF E I(3) plain_valid [OF this]] show "ldActive (plRep (ndLoader s)) \<longrightarrow>
       (\<exists>x. peer_score (dePenv D) (dsReg (ndDs s)) (plPeer (ndLoader s)) = Ok (Some x))"
    using s by (simp add: nd_ok_def)
qed

text \<open>The distributor and the calls into the registry.\<close>

lemma by_distributor_fine:
  assumes D: "ds_env_ok D" and s: "nd_ok D s" and f: "ds_fine D (ndDs s) (m (ndDs s))"
    and v: "ds_versions (fst (m (ndDs s))) = ds_versions (ndDs s)"
  shows "\<exists>s'. by_distributor m s = (s', Ok ()) \<and> nd_ok D s'"
proof -
  obtain d x where m: "m (ndDs s) = (d, x)" by fastforce
  then have "nd_ok D (s\<lparr>ndDs := d\<rparr>)" "x = Ok ()"
    using f v s by (auto simp: ds_fine_def nd_ok_def)
  then show ?thesis by (simp add: by_distributor_def m)
qed

lemma by_registry_fine:
  assumes D: "ds_env_ok D" and s: "nd_ok D s"
    and f: "fine (dePenv D) (dsReg (ndDs s)) (m (dsReg (ndDs s)))" and k: "reg_inv (dePenv D) (fst (m (dsReg (ndDs s))))"
    and v: "rgVersions (fst (m (dsReg (ndDs s)))) = rgVersions (dsReg (ndDs s))"
  shows "\<exists>s'. by_distributor (logged (on_reg m)) s = (s', Ok ()) \<and> nd_ok D s'"
  by (rule by_distributor_fine [where m = "logged (on_reg m)", OF D s ds_fine_reg [where m = m, OF nd_okD(1) [OF s] f k]]) (simp add: v)

text \<open>Running a connection does not touch the registry.\<close>

lemma then_run:
  assumes "\<And>p. run p \<noteq> Panic"
  shows "fst (bind_act m (\<lambda>ver r. (r, run (f ver))) r) = fst (m r)"
    "fine E r (m r) \<Longrightarrow> fine E r (bind_act m (\<lambda>ver r. (r, run (f ver))) r)"
  using assms by (cases "m r"; cases "snd (m r)"; auto simp: bind_act_def fine_def)+

lemma dial_fine:
  assumes D: "ds_env_ok D" and s: "nd_ok D s" and a: "plain (ap_addr ap)" and run: "\<And>p. run p \<noteq> Panic"
  shows "\<exists>s'. by_distributor (logged (on_reg (bind_act (SuggestVersion (dePenv D) now (ap_addr ap))
      (\<lambda>ver r. (r, run (conn_params h ver)))))) s = (s', Ok ()) \<and> nd_ok D s'"
proof -
  note I = nd_okD [OF s]
  note E = ds_env_okD(3) [OF D]
  let ?m = "SuggestVersion (dePenv D) now (ap_addr ap)"
  let ?f = "\<lambda>ver r. (r, run (conn_params h ver))"
  have eq: "fst (bind_act ?m ?f (dsReg (ndDs s))) = fst (?m (dsReg (ndDs s)))" by (rule then_run(1) [OF run])
  have "fine (dePenv D) (dsReg (ndDs s)) (bind_act ?m ?f (dsReg (ndDs s)))"
    by (rule then_run(2) [where m = ?m and r = "dsReg (ndDs s)", OF run SuggestVersion_fine [OF E I(3) plain_valid [OF a] I(5)]])
  moreover have "reg_inv (dePenv D) (fst (bind_act ?m ?f (dsReg (ndDs s))))"
    unfolding eq by (rule SuggestVersion_keeps [OF E I(2)])
  moreover have "rgVersions (fst (bind_act ?m ?f (dsReg (ndDs s)))) = rgVersions (dsReg (ndDs s))"
    unfolding eq by (rule SuggestVersion_versions)
  ultimately show ?thesis by (rule by_registry_fine [where m = "bind_act ?m ?f", OF D s])
qed

section \<open>The loader\<close>

text \<open>The block graph is used with one environment throughout.\<close>

lemma linkage_history_env:
  "hpPutBlock linkage_history b a s = (s', r) \<Longrightarrow> fst s' = fst s"
  "hpMoveLeash linkage_history i a s = (s', r) \<Longrightarrow> fst s' = fst s"
  by (cases s; auto simp: linkage_history_def lift_lk_def split: prod.splits)+

interpretation lk_env: synced_history linkage_history "\<lambda>h. lk_ok h \<and> fst h = E" lk_capacity plain lk_score lk_lcb_ok lk_sound
  for E
proof (unfold_locales, goal_cases)
  case (1 s a)
  show ?case by (rule lk_history.leash_known [OF conjunct1 [OF 1(1)] 1(2)])
next
  case (2 s i)
  show ?case by (rule lk_history.has_total [OF conjunct1 [OF 2]])
next
  case (3 s i n)
  show ?case by (rule lk_history.last_ids [OF conjunct1 [OF 3(1)] 3(2,3)])
next
  case (4 s a i)
  from lk_history.move [OF conjunct1 [OF 4(1)] 4(2,3)] obtain s' where s':
    "hpMoveLeash linkage_history i a s = (s', Ok ())" "lk_ok s'" "lk_capacity s' = lk_capacity s"
    "hpLeash linkage_history a s' = Ok i"
    "\<forall>b. plain b \<and> b \<noteq> a \<longrightarrow> hpLeash linkage_history b s' = hpLeash linkage_history b s"
    "\<forall>j. hpHasBlock linkage_history j s' = hpHasBlock linkage_history j s" by blast
  with linkage_history_env(2) [OF s'(1)] 4(1) show ?case by simp
next
  case (5 s a b s' r)
  then show ?case
    using lk_history.put_ok [OF conjunct1 [OF 5(1)] 5(2-4)] linkage_history_env(1) [OF 5(4)] by simp
next
  case (6 s a b s')
  show ?case by (rule lk_history.put_Ok [OF conjunct1 [OF 6(1)] 6(2-4)])
next
  case (7 s a b s' r i)
  show ?case by (rule lk_history.put_keeps [OF conjunct1 [OF 7(1)] 7(2-5)])
next
  case (8 s a b s' r)
  show ?case by (rule lk_history.put_error [OF conjunct1 [OF 8(1)] 8(2-5)])
next
  case (9 s a)
  show ?case by (rule lk_loader.leash_score [OF conjunct1 [OF 9(1)] 9(2)])
next
  case (10 s a)
  show ?case by (rule lk_loader.lcb_known [OF conjunct1 [OF 10(1)] 10(2,3)])
next
  case (11 s a b s' r)
  show ?case by (rule lk_loader.put_no_panic [OF conjunct1 [OF 11(1)] 11(2-5)])
qed

lemma by_loader_fine:
  assumes D: "ds_env_ok D" and F: "stateless_ok F" and s: "nd_ok D s" and inp: "input_ok lk_sound inp"
    and room: "roomy D s"
  shows "\<exists>s'. by_loader D F now inp s = (s', Ok ()) \<and> nd_ok D s'"
proof -
  note I = nd_okD [OF s]
  note E = ds_env_okD(3) [OF D]
  let ?v = "loader_view D now s"
  have "length (plQueue ?v) \<le> lk_capacity (plHp ?v)" "\<And>a. plain a \<Longrightarrow> lk_lcb_ok a (plHp ?v)"
    using room by (simp_all add: loader_view_def roomy_def)
  from lk_env.ld_step_safe [OF F loader_view_ok [OF D s] this inp] obtain w where
    w: "ld_step F linkage_history lk_score inp ?v = (w, Ok ())"
      "world_ok (\<lambda>h. lk_ok h \<and> fst h = deEnv D) plain lk_sound (told D s) w" by blast
  have ls: "(\<lambda>a h. LeashScore (fst h) (snd h) a) = lk_score" by (simp add: lk_score_def fun_eq_iff)
  let ?d = "(ndDs s)\<lparr>dsLnk := snd (plHp w)\<rparr>"
  have w2: "lk_ok (plHp w)" "fst (plHp w) = deEnv D" "plain (plPeer w)" "smPending w = []"
    "queue_sound lk_sound (plQueue w)" "registry_ok plain (told D s) (plPeer w) (plRep w)"
    using w(2) by (simp_all add: world_ok_def)
  then have "plHp w = (deEnv D, snd (plHp w))" by (metis prod.collapse)
  with w2(1) have "ds_ok D ?d" using I(1) by (simp add: ds_ok_def)
  moreover have "scored (dePenv D) (rgSt (dsReg (ndDs s))) (key4 (plPeer w))" if "ldActive (plRep w)"
    using that w2(6) scored_iff [OF E I(3) plain_valid [OF w2(3)]]
    by (auto simp: registry_ok_def answers_ok_def told_def)
  ultimately have "nd_ok D (s\<lparr>ndLoader := w, ndDs := ?d\<rparr>)" using w2 I(5) by (simp add: nd_ok_def)
  with w(1) show ?thesis by (simp add: by_loader_def ls)
qed

section \<open>Every step\<close>

lemma deliver_fine:
  assumes D: "ds_env_ok D" and F: "stateless_ok F" and s: "nd_ok D s" and room: "roomy D s"
  shows "\<exists>s'. deliver D F now s = (s', Ok ()) \<and> nd_ok D s'"
proof (cases "dsOut (ndDs s)")
  case Nil
  with s show ?thesis by (simp add: deliver_def)
next
  case (Cons p ps)
  let ?s = "s\<lparr>ndDs := (ndDs s)\<lparr>dsOut := ps\<rparr>\<rparr>"
  have "nd_ok D ?s" "package_ok p" using s Cons by (simp_all add: nd_ok_def ds_ok_def)
  moreover have "roomy D ?s" using room by (simp add: roomy_def)
  moreover have "input_ok lk_sound (package_input p)" using \<open>package_ok p\<close> by (cases p) simp_all
  ultimately show ?thesis using by_loader_fine [OF D F] Cons by (simp add: deliver_def)
qed

lemma listener_accept_logged:
  "on_reg (listener_accept E now h run (Ok remote)) = logged (on_reg (Accept E now h run remote))"
  by (rule ext) (simp add: on_reg_def logged_def listener_accept_def split: prod.split res.split)

lemma nd_step_safe:
  assumes D: "ds_env_ok D" and F: "stateless_ok F" and s: "nd_ok D s" and room: "roomy D s" and e: "nd_event_ok D e"
  shows "\<exists>s'. nd_step D F h now e s = (s', Ok ()) \<and> nd_ok D s'"
proof -
  note I = nd_okD [OF s]
  note E = ds_env_okD(3) [OF D]
  have cap: "0 < lk_capacity (deEnv D, dsLnk (ndDs s))" using room by (simp add: roomy_def)
  show ?thesis
  proof (cases e)
    case (NdNet ev)
    with e show ?thesis
      using by_distributor_fine [where m = "ds_step D now ev", OF D s ds_step_safe [OF D I(1) cap] ds_step_versions] by simp
  next
    case NdDeliver
    with deliver_fine [OF D F s room] show ?thesis by simp
  next
    case NdTick
    with by_loader_fine [OF D F s _ room] show ?thesis by simp
  next
    case (NdTimer pick)
    with by_loader_fine [OF D F s _ room, of "InTimer pick"] e show ?thesis by simp
  next
    case (NdAccept remote run)
    show ?thesis
    proof (cases remote)
      case None
      with NdAccept s show ?thesis
        by (simp add: listener_accept_logged Accept_def by_distributor_def logged_def on_reg_def fail_act_def)
    next
      case (Some ap)
      with NdAccept e have "plain (ap_addr ap)" "\<And>p. run p \<noteq> Panic" by simp_all
      from dial_fine [OF D s this] NdAccept Some show ?thesis by (simp add: listener_accept_logged Accept_def)
    qed
  next
    case NdRespawn
    have "reg_inv (dePenv D) (fst (TakeAvailableAddresses (dePenv D) now (dsReg (ndDs s))))"
      using I(2) by (auto simp: TakeAvailableAddresses_def split: res.split)
    with NdRespawn show ?thesis
      using by_registry_fine [where m = "TakeAvailableAddresses (dePenv D) now",
          OF D s TakeAvailableAddresses_fine [OF E I(3)] _ TakeAvailableAddresses_versions] by simp
  next
    case (NdDial ap run)
    then have "plain (ap_addr ap)" "\<And>p. run p \<noteq> Panic" using e by simp_all
    from dial_fine [OF D s this] NdDial show ?thesis by (simp add: Connect_def)
  next
    case (NdDialFailed ap)
    then have "plain (ap_addr ap)" using e by simp
    with NdDialFailed show ?thesis
      using by_registry_fine [where m = "UnregisterPeer (dePenv D) now (ap_addr ap)",
          OF D s UnregisterPeer_fine [OF E I(3) plain_valid] keepsD [OF UnregisterPeer_keeps [OF E] I(2)]
            UnregisterPeer_versions] by simp
  qed
qed

section \<open>Reachable states\<close>

inductive nd_reach ::
  "('db, 'id, 'pdb, 'v) ds_env \<Rightarrow> (('db, 'id) env \<times> ('db, 'id) linkage, loader, 'id) pl_fire \<Rightarrow> cmanager \<Rightarrow>
    ('db, 'id, 'pdb, 'v) node \<Rightarrow> bool" for D F h where
  started: "preg (dePenv D) stored (pm :: u32 \<rightharpoonup> 'v rpeer) \<Longrightarrow> db_empty (ldb (deEnv D)) db \<Longrightarrow> versions \<noteq> [] \<Longrightarrow>
    Panic \<notin> set seedPeers \<Longrightarrow>
    start_node D scheme declared versions seedPeers stored genesis db = Ok s \<Longrightarrow> nd_reach D F h s"
| stepped: "nd_reach D F h s \<Longrightarrow> roomy D s \<Longrightarrow> nd_event_ok D e \<Longrightarrow> nd_step D F h now e s = (s', x) \<Longrightarrow>
    nd_reach D F h s'"

lemma start_node_ok:
  fixes pm :: "u32 \<rightharpoonup> 'v rpeer" and D :: "('db, 'id, 'pdb, 'v) ds_env"
  assumes D: "ds_env_ok D" and st: "preg (dePenv D) stored pm" "db_empty (ldb (deEnv D)) db" "versions \<noteq> []" "Panic \<notin> set seedPeers"
    and s: "start_node D scheme declared versions seedPeers stored genesis db = Ok s"
  shows "nd_ok D s"
proof -
  note E = ds_env_okD [OF D]
  from s obtain reg :: "('pdb, 'v, omsg) registry" where r: "NewRegistry (dePenv D) scheme declared versions stored = Ok reg"
    by (auto simp: start_node_def bind_res_eq_Ok)
  obtain reg' x where a: "AppendAddresses (dePenv D) seedPeers reg = (reg', x)" by fastforce
  from s r a obtain l where l: "NewLinkage (deEnv D) db scheme genesis = Ok l"
    and s': "s = \<lparr>ndDs = \<lparr>dsReg = reg', dsLnk = l, dsOut = []\<rparr>, ndLoader = newPeerLoader (Addr4 0) (deEnv D, l) NewLoader 0\<rparr>"
    by (cases x) (auto simp: start_node_def bind_res_eq_Ok)
  from r have reg: "rgSt reg = stored" "rgConns reg = []" "rgVersions reg = newVersions (dePenv D) versions"
    by (auto simp: NewRegistry_def bind_res_eq_Ok)
  then have "reg_rep (dePenv D) reg pm" using st(1) by (simp add: reg_rep_def conns_ok_def)
  then have "reg_inv (dePenv D) reg" by (auto simp: reg_inv_def)
  then have "reg_inv (dePenv D) (fst (AppendAddresses (dePenv D) seedPeers reg))"
    unfolding AppendAddresses_def by (rule appendLoop_keeps [OF E(3)])
  then have "reg_inv (dePenv D) reg'" by (simp add: a)
  moreover have "rgVersions reg' \<noteq> []"
    using appendLoop_versions [of "dePenv D" seedPeers 0 reg] a reg(3) st(3)
    by (simp add: AppendAddresses_def newVersions_def)
  moreover have "lk_ok (deEnv D, l)" using NewLinkage_rep [OF E(1) st(2) l] E(1,2) by (auto simp: lk_ok_def)
  ultimately show ?thesis
    by (simp add: s' nd_ok_def ds_ok_def newPeerLoader_def NewLoader_def)
qed

lemma nd_reach_ok:
  fixes D :: "('db, 'id, 'pdb, 'v) ds_env"
  assumes D: "ds_env_ok D" and F: "stateless_ok F" and s: "nd_reach D F h s"
  shows "nd_ok D s"
  using s
proof induction
  case (started stored pm db versions seedPeers scheme declared genesis s)
  from start_node_ok [OF D started] show ?case .
next
  case (stepped s e now s' x)
  from nd_step_safe [OF D F stepped.IH stepped.hyps(2,3), of h now] stepped.hyps(4) show ?case by auto
qed

section \<open>A round of the respawn service\<close>

text \<open>
  Whatever the network answers for the addresses that are dialed, a round ends and sets the timer
  again; the registry stays well formed.
\<close>

definition served :: "('db, 'v) penv \<Rightarrow> ('db, 'v, 'm) registry \<Rightarrow> bool" where
  "served E r \<longleftrightarrow> reg_inv E r \<and> rgVersions r \<noteq> []"

lemma establish_ok:
  fixes r :: "('db, 'v, 'm) registry"
  assumes E: "penv_ok E" and r: "served E r" and a: "ap_addr ap \<noteq> AddrZero" and run: "\<And>p. run p \<noteq> Panic"
  shows "\<exists>r'. establish E now h run ap r = (r', Ok ()) \<and> served E r'"
proof -
  have I: "reg_inv E r" "st_ok E (rgSt r)" "rgVersions r \<noteq> []" using r by (simp_all add: served_def reg_inv_st_ok)
  obtain r1 x where c: "Connect E now h run (Some ap) r = (r1, x)" by fastforce
  let ?m = "SuggestVersion E now (ap_addr ap)"
  have m: "Connect E now h run (Some ap) r = bind_act ?m (\<lambda>ver r. (r, run (conn_params h ver))) r"
    by (simp add: Connect_def)
  have x: "x \<noteq> Panic"
    using then_run(2) [where m = ?m and run = run and f = "conn_params h", OF run SuggestVersion_fine [OF E I(2) a I(3)]] c by (simp add: m fine_def)
  have r1: "r1 = fst (?m r)" 
    using then_run(1) [where m = ?m and run = run and f = "conn_params h" and r = r, OF run] c unfolding m by simp
  have s1: "served E r1"
    using SuggestVersion_keeps [OF E I(1)] I(3) by (simp add: r1 served_def SuggestVersion_versions)
  obtain r2 y where u: "UnregisterPeer E now (ap_addr ap) r1 = (r2, y)" by fastforce
  have "y \<noteq> Panic"
    using UnregisterPeer_fine [OF E reg_inv_st_ok a, of r1 now] s1 u by (simp add: fine_def served_def)
  moreover have "served E r2"
    using keepsD [OF UnregisterPeer_keeps [OF E], of r1 now "ap_addr ap"] UnregisterPeer_versions [of E now "ap_addr ap" r1] s1 u
    by (simp add: served_def)
  ultimately show ?thesis using c u x s1 by (cases x; cases y) (simp_all add: establish_def)
qed

lemma establishConnections_ok:
  fixes r :: "('db, 'v, 'm) registry"
  assumes E: "penv_ok E" and run: "\<And>ap p. run ap p \<noteq> Panic"
  shows "served E r \<Longrightarrow> \<forall>ap \<in> set as. ap_addr ap \<noteq> AddrZero \<Longrightarrow>
    \<exists>r'. establishConnections E now h run as r = (r', Ok ()) \<and> served E r'"
proof (induction as arbitrary: r)
  case (Cons ap as)
  then have a: "ap_addr ap \<noteq> AddrZero" by simp
  from establish_ok [OF E Cons.prems(1) a, of "run ap"] run obtain r1 where
    "establish E now h (run ap) ap r = (r1, Ok ())" "served E r1" by blast
  with Cons show ?case by (simp add: bind_act_def)
qed (simp add: return_act_def)

lemma respawn_tick_ok:
  fixes r :: "('db, 'v, 'm) registry"
  assumes E: "penv_ok E" and r: "served E r" and run: "\<And>ap p. run ap p \<noteq> Panic"
  shows "\<exists>r'. respawn_tick E now h run r = (r', Ok True) \<and> served E r'"
proof -
  from r obtain pm :: "u32 \<rightharpoonup> 'v rpeer" where R: "reg_rep E r pm" by (auto simp: served_def reg_inv_def)
  from TakeAvailable_result [OF E R] obtain ws where
    t: "TakeAvailableAddresses E now r = (r\<lparr>rgPending := rgPending r \<union> Addr4 ` taking pm now r\<rparr>,
      Ok (map (\<lambda>w. AddressPort (the (pm w))) ws))" "set ws = taking pm now r" by blast
  let ?r = "r\<lparr>rgPending := rgPending r \<union> Addr4 ` taking pm now r\<rparr>"
  have "ap_addr (AddressPort (the (pm w))) = Addr4 w" if "w \<in> set ws" for w
    using that t(2) R by (auto simp: taking_def reg_rep_def preg_def stored_ok_def)
  moreover have "served E ?r" using r by (simp add: served_def)
  ultimately show ?thesis
    using establishConnections_ok [where run = run, OF E run, of ?r "map (\<lambda>w. AddressPort (the (pm w))) ws" now h] t(1)
    by (auto simp: respawn_tick_def bind_act_def return_act_def)
qed

end
