(* ===== verification/SystemProperties.thy ===== *)
theory SystemProperties
  imports SystemSpec Demo PeersDemo
begin

text \<open>
  The properties of the services together, for any store, encoding and state machine library that
  behave as documented, with examples on a new database.
\<close>

section \<open>The examples\<close>

definition demo_node_env :: "(mem, demo_id, mem, demo_version) ds_env" where
  "demo_node_env =
     \<lparr>deEnv = demo_env, dePenv = demo_penv, id_of_signature = (\<lambda>bs. word_of_nat (be_nat (take 32 bs)))\<rparr>"

lemma demo_node_env_simps [simp]: "deEnv demo_node_env = demo_env" "dePenv demo_node_env = demo_penv"
  by (simp_all add: demo_node_env_def)

lemma demo_node_env_ok: "ds_env_ok demo_node_env"
proof -
  have "id_of_bytes demo_env bs \<noteq> Panic" for bs by (simp add: demo_env_def)
  then show ?thesis by (simp add: ds_env_ok_def demo_env_ok demo_env_live demo_penv_ok)
qed

text \<open>A node with an empty store of peers and the genesis block.\<close>

definition demo_registry :: "(mem, demo_version, omsg) registry" where
  "demo_registry =
     \<lparr>rgScheme = 87, rgVersions = [(1, 5, 0), (1, 4, 0)], rgDeclared = Addr4 0x0A000001, rgSt = [], rgConns = [],
      rgPending = {}, rgNet = []\<rparr>"

definition demo_node :: "(mem, demo_id, mem, demo_version) node" where
  "demo_node =
     \<lparr>ndDs = \<lparr>dsReg = demo_registry, dsLnk = demo0, dsOut = []\<rparr>,
      ndLoader = newPeerLoader (Addr4 0) (demo_env, demo0) NewLoader 0\<rparr>"

lemma demo_node_started:
  "start_node demo_node_env 87 (Some (Ok \<lparr>ap_addr = Addr4 0x0A000001, ap_port = 6868\<rparr>)) [(1, 4, 2), (1, 5, 7)] [] []
     (demo_proto 1 0 1 bt16) [] = Ok demo_node"
proof -
  have "NewRegistry demo_penv 87 (Some (Ok \<lparr>ap_addr = Addr4 0x0A000001, ap_port = 6868\<rparr>)) [(1, 4, 2), (1, 5, 7)] [] =
      Ok demo_registry"
    by (simp add: NewRegistry_def demo_registry_def newVersions_def demo_penv_def)
  then show ?thesis
    by (simp add: start_node_def AppendAddresses_def demo0_created demo_node_def)
qed

definition demo_cm :: cmanager where
  "demo_cm = NewConnectionManager 87 [102, 100] 7 (Some \<lparr>ap_addr = Addr4 0x0A000001, ap_port = 6868\<rparr>)"

lemma demo_node_reach: "nd_reach demo_node_env demo_fire demo_cm demo_node"
  by (rule nd_reach.started [OF _ _ _ _ demo_node_started])
     (use demo_store_empty in \<open>simp_all add: demo_env_def mem_empty_ok\<close>)

lemma demo_node_simps [simp]:
  "ndDs demo_node = \<lparr>dsReg = demo_registry, dsLnk = demo0, dsOut = []\<rparr>"
  "plQueue (ndLoader demo_node) = []"
  by (simp_all add: demo_node_def newPeerLoader_def)

lemma demo_node_roomy: "roomy demo_node_env demo_node"
proof -
  have "gLeash demo_g0 a = None" for a by (simp add: demo_g0_def g_init_def)
  then have "lk_lcb_ok a (demo_env, demo0)" for a
    unfolding lk_lcb_ok_def using demo0_rep(1) by auto
  moreover have "gSize demo_g0 = 1" by (simp add: demo_g0_def g_init_def)
  then have "0 < lk_capacity (demo_env, demo0)" by (simp add: lk_capacity_rep [OF demo0_rep(1)])
  ultimately show ?thesis by (simp add: roomy_def)
qed

definition demo_npeer :: "demo_version npeer" where
  "demo_npeer = \<lparr>npConn = demo_conn, npRemote = Some \<lparr>ap_addr = Addr4 0x0A000002, ap_port = 54321\<rparr>\<rparr>"

lemma demo_npeer_ok: "peer_ok demo_node_env demo_npeer"
  by (simp add: peer_ok_def demo_npeer_def)

section \<open>Properties\<close>

text \<open>C10: A block a peer sends reaches both the block graph and the loader. When the block or its parent is
  known, the block is known afterwards and the peer is leashed to it, the leashes of the other peers
  staying as they are; otherwise the block graph stays as it is. In either case the block is handed
  on to the loader, and the registry is not touched. Both kinds of block messages are handled so.\<close>

theorem block_message_reaches_graph_and_loader:
  fixes D :: "('db, 'id, 'pdb, 'v) ds_env"
  assumes "ds_env_ok D" and "ds_ok D s" and "0 < lk_capacity (deEnv D, dsLnk s)"
    and "npRemote p = Some \<lparr>ap_addr = a, ap_port = port\<rparr>" and "plain a" and "lk_sound blk"
  shows "\<exists>l'. (\<forall>m \<in> {PBBlockMessage (Ok blk), BlockMessage (Ok blk)}.
        handleMessage D p m s = (s\<lparr>dsLnk := l', dsOut := dsOut s @ [BlockPackage a blk]\<rparr>, Ok ())) \<and>
    (if HasBlock (deEnv D) (dsLnk s) (BlockID blk) = Ok True \<or> HasBlock (deEnv D) (dsLnk s) (BlockParent blk) = Ok True
     then HasBlock (deEnv D) l' (BlockID blk) = Ok True \<and> LeashOf (deEnv D) l' a = Ok (BlockID blk) \<and>
       (\<forall>b. plain b \<and> b \<noteq> a \<longrightarrow> LeashOf (deEnv D) l' b = LeashOf (deEnv D) (dsLnk s) b)
     else l' = dsLnk s)"
proof -
  have L: "lk_ok (deEnv D, dsLnk s)" using assms(2) by (simp add: ds_ok_def)
  obtain l' r where put: "PutBlock (deEnv D) blk a (dsLnk s) = (l', r)" by fastforce
  note o = PutBlock_outcome [OF L assms(5,3,6) put]
  from o(1) have "handleMessage D p m s = (s\<lparr>dsLnk := l', dsOut := dsOut s @ [BlockPackage a blk]\<rparr>, Ok ())"
    if "m = PBBlockMessage (Ok blk) \<or> m = BlockMessage (Ok blk)" for m
    using assms(4) put that
    by (auto simp: handleBlockMessage_def handleProtoBlockMessage_def ds_handleBlock_def logged_def on_lnk_def
        send_package_def split: if_splits)
  with o(2) show ?thesis by (intro exI [of _ l']) auto
qed

theorem block_message_reaches_graph_and_loader_witness:
  "\<exists>l'. handleMessage demo_node_env demo_npeer (PBBlockMessage (Ok (demo_proto 2 1 2 bt16))) (ndDs demo_node) =
      ((ndDs demo_node)\<lparr>dsLnk := l', dsOut := [BlockPackage (Addr4 0x0A000002) (demo_proto 2 1 2 bt16)]\<rparr>, Ok ()) \<and>
    HasBlock demo_env l' 2 = Ok True \<and> LeashOf demo_env l' (Addr4 0x0A000002) = Ok 2"
proof -
  have s: "ds_ok demo_node_env (ndDs demo_node)"
    using nd_reach_ok [OF demo_node_env_ok demo_fire_ok demo_node_reach] by (simp add: nd_ok_def)
  have cap: "0 < lk_capacity (demo_env, demo0)" using demo_node_roomy by (simp add: roomy_def)
  have "known demo_g0 1" by (simp add: known_def demo_g0_def g_init_def nodes_def)
  then have "HasBlock demo_env demo0 1 = Ok True" by (simp add: HasBlock_rep [OF demo_env_live demo0_rep(1)])
  then show ?thesis
    using block_message_reaches_graph_and_loader [OF demo_node_env_ok s, where p = demo_npeer and blk = "demo_proto 2 1 2 bt16"] cap
    by (simp add: demo_npeer_def demo_proto_def lk_sound_def MaxInt64_def) blast
qed



end
