(* ===== verification/Parameters.thy ===== *)
theory Parameters
  imports GoNet ChainsEntities
begin

text \<open>
  \<open>parameters.go\<close>: the command line. The texts of the flags are arguments; what the operating
  system says of the database folder, the settings of package \<open>settings\<close> and the parser of
  versions of package \<open>proto\<close> are parameters of the model. Before that, what it uses of the
  standard library: \<open>ParseAddrPort\<close> and \<open>AddrPort.String\<close> of \<open>net/netip\<close>, and \<open>path.Clean\<close>.
\<close>

section \<open>Addresses with ports\<close>

text \<open>\<open>strconv.ParseUint(s, 10, 16)\<close>.\<close>

definition ParseUint16 :: "string \<Rightarrow> u16 option" where
  "ParseUint16 s =
     (if s = [] then None
      else (case digits_val s 0 of
              None \<Rightarrow> None
            | Some n \<Rightarrow> if n < 2 ^ 16 then Some (word_of_nat n) else None))"

text \<open>\<open>splitAddrPort\<close>: at the last colon; an address in brackets must be IPv6, and only then.\<close>

definition ParseAddrPort :: "string \<Rightarrow> addr_port option" where
  "ParseAddrPort s =
     (if CHR '':'' \<notin> set s then None
      else
        let port = rev (takeWhile (\<lambda>c. c \<noteq> CHR '':'') (rev s));
            ip = take (length s - length port - 1) s
        in if ip = [] \<or> port = [] then None
           else
             let v6 = (hd ip = CHR ''['') in
             if v6 \<and> (length ip < 2 \<or> last ip \<noteq> CHR '']'') then None
             else
               (case ParseUint16 port of
                  None \<Rightarrow> None
                | Some p \<Rightarrow>
                    (case ParseAddr (if v6 then butlast (tl ip) else ip) of
                       None \<Rightarrow> None
                     | Some a \<Rightarrow> if v6 = Is4 a then None else Some \<lparr>ap_addr = a, ap_port = p\<rparr>)))"

definition AddrPortString :: "addr_port \<Rightarrow> string" where
  "AddrPortString ap =
     (case ap_addr ap of
        AddrZero \<Rightarrow> ''invalid AddrPort''
      | Addr4 w \<Rightarrow> string4 w @ '':'' @ decimal (unat (ap_port ap))
      | Addr6 w z \<Rightarrow> ''['' @ AddrString (Addr6 w z) @ '']:'' @ decimal (unat (ap_port ap)))"

text \<open>\<open>Addr.As4\<close>: an IPv6 address that maps no IPv4 one panics, and so does the zero address.\<close>

fun As4 :: "addr \<Rightarrow> u32 res" where
  "As4 AddrZero = Panic"
| "As4 (Addr4 w) = Ok w"
| "As4 (Addr6 w z) = (if drop_bit 32 w = 0xFFFF then Ok (ucast w) else Panic)"

section \<open>Paths\<close>

text \<open>\<open>path.Clean\<close>: the elements one after another, on a stack with the last one first.\<close>

fun clean_loop :: "bool \<Rightarrow> string list \<Rightarrow> string list \<Rightarrow> string list" where
  "clean_loop rooted [] st = st"
| "clean_loop rooted (e # es) st =
     (if e = '''' \<or> e = ''.'' then clean_loop rooted es st
      else if e = ''..'' then
        if st \<noteq> [] \<and> hd st \<noteq> ''..'' then clean_loop rooted es (tl st)
        else if rooted then clean_loop rooted es st
        else clean_loop rooted es (e # st)
      else clean_loop rooted es (e # st))"

definition path_Clean :: "string \<Rightarrow> string" where
  "path_Clean p =
     (let rooted = (take 1 p = ''/'');
          out = (if rooted then ''/'' else '''') @ join_with CHR ''/'' (rev (clean_loop rooted (split_on CHR ''/'' p) []))
      in if out = '''' then ''.'' else out)"

section \<open>The flags one by one\<close>

datatype blockchain_type = MainNet | TestNet | StageNet | Custom | OtherType

text \<open>\<open>netip.MustParseAddrPort\<close>.\<close>

definition MustParseAddrPort :: "string \<Rightarrow> addr_port res" where
  "MustParseAddrPort s = (case ParseAddrPort s of None \<Rightarrow> Panic | Some ap \<Rightarrow> Ok ap)"

text \<open>The default peers. A \<open>net.TCPAddr\<close> is kept as the address and port it was made from.\<close>

fun default_peers :: "blockchain_type \<Rightarrow> string list option" where
  "default_peers MainNet = Some [''34.253.153.4:6868'', ''168.119.116.189:6868'', ''135.181.87.72:6868'',
     ''162.55.39.115:6868'', ''168.119.155.201:6868'']"
| "default_peers TestNet = Some [''159.69.126.149:6868'', ''94.130.105.239:6868'', ''159.69.126.153:6868'',
     ''94.130.172.201:6868'', ''35.157.247.122:6868'']"
| "default_peers StageNet = Some [''88.99.185.128:6868'', ''49.12.15.166:6868'', ''95.216.205.3:6868'',
     ''88.198.179.16:6868'', ''52.58.254.101:6868'']"
| "default_peers Custom = None"
| "default_peers OtherType = None"

fun seed_loop :: "string list \<Rightarrow> addr_port list \<Rightarrow> addr_port list res" where
  "seed_loop [] r = Ok r"
| "seed_loop (a # as) r =
     (if TrimSpace a = '''' then seed_loop as r
      else (case ParseAddrPort (TrimSpace (TrimSpace a)) of
              None \<Rightarrow> Err ErrParse
            | Some ap \<Rightarrow> seed_loop as (r @ [ap])))"

definition parseSeedPeers :: "string \<Rightarrow> blockchain_type \<Rightarrow> addr_port list res" where
  "parseSeedPeers seedPeers t =
     (case default_peers t of
        None \<Rightarrow> Err ErrInvalidParam
      | Some ds \<Rightarrow>
          bind_res (mapM_res MustParseAddrPort ds) (\<lambda>r. seed_loop (split_on CHR '','' seedPeers) r))"

definition parseVersions :: "(string \<Rightarrow> 'v res) \<Rightarrow> string \<Rightarrow> 'v list res" where
  "parseVersions newVersionFromString str = mapM_res newVersionFromString (split_on CHR '','' str)"

text \<open>What \<open>os.Stat\<close> says.\<close>

datatype stat = NotExist | StatFailed | FileInfo (isDir: bool)

definition checkFolder :: "(string \<Rightarrow> stat) \<Rightarrow> string \<Rightarrow> string res" where
  "checkFolder os_stat str =
     (if str = '''' then Err ErrInvalidParam
      else
        (case os_stat str of
           NotExist \<Rightarrow> Err ErrInvalidParam
         | StatFailed \<Rightarrow> Err ErrInvalidParam
         | FileInfo d \<Rightarrow> if \<not> d then Err ErrInvalidParam else Ok (path_Clean str)))"

definition checkBind :: "string \<Rightarrow> string res" where
  "checkBind str =
     (if str = '''' then Err ErrInvalidParam
      else (case ParseAddrPort str of None \<Rightarrow> Err ErrParse | Some ap \<Rightarrow> Ok (AddrPortString ap)))"

definition checkName :: "string \<Rightarrow> string res" where
  "checkName str =
     (if str = '''' then Err ErrInvalidParam
      else if length str > 255 then Err ErrInvalidParam
      else Ok str)"

text \<open>The empty \<open>proto.TCPAddr\<close> is \<open>None\<close>.\<close>

definition parseAddress :: "string \<Rightarrow> addr_port option res" where
  "parseAddress addr =
     (case ParseAddrPort addr of
        None \<Rightarrow> Ok None
      | Some ap \<Rightarrow> bind_res (As4 (ap_addr ap)) (\<lambda>ip. Ok (Some \<lparr>ap_addr = Addr4 ip, ap_port = ap_port ap\<rparr>)))"

section \<open>All parameters\<close>

record flags =
  flagDB :: string
  flagBlockchainType :: string
  flagPeers :: string
  flagAPI :: string
  flagNet :: string
  flagDeclaredAddress :: string
  flagName :: string
  flagVersions :: string

definition default_flags :: flags where
  "default_flags =
     \<lparr>flagDB = '''', flagBlockchainType = ''mainnet'', flagPeers = '''', flagAPI = ''127.0.0.1:8080'',
      flagNet = ''127.0.0.1:6868'', flagDeclaredAddress = '''', flagName = ''forkdetector'', flagVersions = ''1.5''\<rparr>"

record 'id settings =
  bsType :: blockchain_type
  bsScheme :: byte
  bsGenesis :: "'id proto_block"

record ('id, 'v) parameters =
  dbPath :: string
  pmScheme :: byte
  genesis :: "'id proto_block"
  seedPeers :: "addr_port list"
  apiBind :: string
  netBind :: "addr_port option"
  declaredAddress :: "addr_port option"
  pmName :: string
  nonce :: u32
  versions :: "'v list"

definition newParameters ::
  "(string \<Rightarrow> stat) \<Rightarrow> (string \<Rightarrow> 'id settings res) \<Rightarrow> (string \<Rightarrow> 'v res) \<Rightarrow> u32 \<Rightarrow> flags \<Rightarrow> ('id, 'v) parameters res" where
  "newParameters os_stat settingsByTypeName newVersionFromString rand f =
     bind_res (checkFolder os_stat (flagDB f)) (\<lambda>dbf.
     bind_res (settingsByTypeName (flagBlockchainType f)) (\<lambda>bs.
     bind_res (parseSeedPeers (flagPeers f) (bsType bs)) (\<lambda>sps.
     bind_res (parseVersions newVersionFromString (flagVersions f)) (\<lambda>vss.
     bind_res (checkBind (flagAPI f)) (\<lambda>aa.
     bind_res (checkBind (flagNet f)) (\<lambda>na.
     bind_res (checkName (flagName f)) (\<lambda>nm.
     bind_res (parseAddress na) (\<lambda>nb.
     bind_res (parseAddress (flagDeclaredAddress f)) (\<lambda>da.
     Ok \<lparr>dbPath = dbf, pmScheme = bsScheme bs, genesis = bsGenesis bs, seedPeers = sps, apiBind = aa, netBind = nb,
         declaredAddress = da, pmName = nm, nonce = rand, versions = vss\<rparr>)))))))))"

end
