(* ===== verification/ParametersProperties.thy ===== *)
theory ParametersProperties
  imports Parameters
begin

text \<open>
  What the parameters that are accepted look like: addresses printed and parsed again, the peers of
  the command line, the cleaned path, and which addresses make the start panic.
\<close>

section \<open>Printing and parsing an address with a port\<close>

lemma digits_val_append:
  "digits_val (xs @ ys) v = (case digits_val xs v of None \<Rightarrow> None | Some u \<Rightarrow> digits_val ys u)"
  by (induction xs arbitrary: v) (auto split: option.split)

lemma digits_val_decimal: "digits_val (decimal n) 0 = Some n"
proof (induction n rule: decimal.induct)
  case (1 n)
  then show ?case
    unfolding decimal.simps [of n] by (simp add: digits_val_append digit_of_char mult.commute)
qed

lemma decimal_nonempty [simp]: "decimal n \<noteq> []"
  by (subst decimal.simps) simp

lemma ParseUint16_decimal: "ParseUint16 (decimal (unat (p :: u16))) = Some p"
  using unsigned_less [of p, where 'a = nat] by (simp add: ParseUint16_def digits_val_decimal)

lemma decimal_no_colon: "CHR '':'' \<notin> set (decimal n)"
  using decimal_digits digit_neq(2) by metis

lemma ParseAddrPort_split:
  assumes "CHR '':'' \<notin> set port" "ip \<noteq> []" "port \<noteq> []" "hd ip \<noteq> CHR ''[''"
  shows "ParseAddrPort (ip @ CHR '':'' # port) =
    (case ParseUint16 port of
       None \<Rightarrow> None
     | Some p \<Rightarrow>
         (case ParseAddr ip of
            None \<Rightarrow> None
          | Some a \<Rightarrow> if Is4 a then Some \<lparr>ap_addr = a, ap_port = p\<rparr> else None))"
proof -
  have "takeWhile (\<lambda>c. c \<noteq> CHR '':'') (rev (ip @ CHR '':'' # port)) = rev port"
    using assms(1) by (auto simp: takeWhile_append)
  then show ?thesis using assms by (simp add: ParseAddrPort_def Let_def cong: if_cong split: option.split)
qed

lemma string4_start: "string4 w \<noteq> [] \<and> hd (string4 w) \<noteq> CHR ''['' \<and> hd (string4 w) \<noteq> CHR '',''"
proof -
  obtain a b c d where bs: "be_bytes 4 (unat w) = [a, b, c, d]" using be_bytes_4 [of "unat w"] by blast
  then have s: "string4 w \<noteq> []" by (simp add: string4_def)
  then consider "hd (string4 w) = CHR ''.''" | d where "d < 10" "hd (string4 w) = digit_char d"
    using string4_chars [of "hd (string4 w)" w] by auto
  then show ?thesis
  proof cases
    case 2
    then have "(of_char (hd (string4 w)) :: nat) = 48 + d" by (simp add: digit_char_def)
    then show ?thesis using s 2(1) by (auto dest!: arg_cong [where f = "of_char :: char \<Rightarrow> nat"])
  qed (use s in simp)
qed

lemma ParseAddrPort_String4:
  "ParseAddrPort (AddrPortString \<lparr>ap_addr = Addr4 w, ap_port = p\<rparr>) = Some \<lparr>ap_addr = Addr4 w, ap_port = p\<rparr>"
proof -
  have "AddrPortString \<lparr>ap_addr = Addr4 w, ap_port = p\<rparr> = string4 w @ CHR '':'' # decimal (unat p)"
    by (simp add: AddrPortString_def)
  then show ?thesis
    using string4_start [of w]
    by (simp add: ParseAddrPort_split [OF decimal_no_colon] ParseUint16_decimal ParseAddr_string4)
qed

section \<open>The peers of the command line\<close>

lemma string_chars:
  assumes "c \<in> set (AddrPortString \<lparr>ap_addr = Addr4 w, ap_port = p\<rparr>)"
  shows "c \<noteq> CHR '','' \<and> \<not> is_space c"
proof -
  from assms string4_chars [of c w] decimal_digits [of c "unat p"]
  consider "c = CHR ''.'' \<or> c = CHR '':''" | d where "d < 10" "c = digit_char d"
    by (auto simp: AddrPortString_def)
  then show ?thesis
  proof cases
    case 1
    then show ?thesis by (auto simp: is_space_def)
  next
    case 2
    with digit_neq(4,5) [of d] show ?thesis by simp
  qed
qed

lemma seed_loop_strings:
  "(\<And>ap. ap \<in> set aps \<Longrightarrow> Is4 (ap_addr ap)) \<Longrightarrow> seed_loop (map AddrPortString aps) r = Ok (r @ aps)"
proof (induction aps arbitrary: r)
  case (Cons ap aps)
  from Cons.prems [of ap] obtain w p where ap: "ap = \<lparr>ap_addr = Addr4 w, ap_port = p\<rparr>"
    by (cases ap; cases "ap_addr ap") auto
  have trim: "TrimSpace (AddrPortString ap) = AddrPortString ap"
    using string_chars ap by (intro TrimSpace_plain) blast
  have "AddrPortString ap \<noteq> []" by (simp add: ap AddrPortString_def)
  with trim Cons show ?case by (simp add: ParseAddrPort_String4 [of w p, folded ap])
qed simp

text \<open>C40: IPv4 addresses given on the command line, printed with their ports and separated by commas,
  are read as these addresses, after the default peers of the network and in their order.\<close>

theorem seed_peers_roundtrip:
  assumes "\<And>ap. ap \<in> set aps \<Longrightarrow> Is4 (ap_addr ap)" and "parseSeedPeers '''' t = Ok ds"
  shows "parseSeedPeers (join_with CHR '','' (map AddrPortString aps)) t = Ok (ds @ aps)"
proof (cases "aps = []")
  case False
  have c: "CHR '','' \<notin> set (AddrPortString ap)" if "ap \<in> set aps" for ap
    using assms(1) [OF that] string_chars [of "CHR '',''"] by (cases ap; cases "ap_addr ap") auto
  have "split_on CHR '','' (join_with CHR '','' (map AddrPortString aps)) = map AddrPortString aps"
    by (rule split_join) (use False c in auto)
  with assms(2) seed_loop_strings [OF assms(1), of aps] show ?thesis
    by (auto simp: parseSeedPeers_def bind_res_eq_Ok TrimSpace_def split: option.splits)
qed (use assms(2) in simp)

text \<open>The default peers of each network parse.\<close>

lemma be_bytes_four: "be_bytes 4 n = be_bytes (Suc (Suc (Suc (Suc 0)))) n"
  by (rule arg_cong [where f = "\<lambda>k. be_bytes k n"]) simp

lemmas address_text = AddrPortString_def string4_def be_bytes_four decimal.simps digit_char_def char_of_def bit_Suc_0_iff

fun default_addresses :: "blockchain_type \<Rightarrow> u32 list" where
  "default_addresses MainNet = [0x22FD9904, 0xA87774BD, 0x87B55748, 0xA2372773, 0xA8779BC9]"
| "default_addresses TestNet = [0x9F457E95, 0x5E8269EF, 0x9F457E99, 0x5E82ACC9, 0x239DF77A]"
| "default_addresses StageNet = [0x5863B980, 0x310C0FA6, 0x5FD8CD03, 0x58C6B310, 0x343AFE65]"
| "default_addresses _ = []"

lemma default_peers_text:
  "default_peers t = Some ds \<Longrightarrow>
    ds = map (\<lambda>w. AddrPortString \<lparr>ap_addr = Addr4 w, ap_port = 6868\<rparr>) (default_addresses t)"
  by (cases t) (auto simp: address_text)

lemma default_peers_parse:
  assumes "default_peers t = Some ds"
  shows "mapM_res MustParseAddrPort ds = Ok (map (\<lambda>w. \<lparr>ap_addr = Addr4 w, ap_port = 6868\<rparr>) (default_addresses t))"
proof -
  have "mapM_res MustParseAddrPort (map (\<lambda>w. AddrPortString \<lparr>ap_addr = Addr4 w, ap_port = 6868\<rparr>) ws) =
      Ok (map (\<lambda>w. \<lparr>ap_addr = Addr4 w, ap_port = 6868\<rparr>) ws)" for ws
    by (induction ws) (simp_all add: MustParseAddrPort_def ParseAddrPort_String4)
  then show ?thesis unfolding default_peers_text [OF assms] .
qed

lemma no_seed_peers:
  "default_peers t \<noteq> None \<Longrightarrow>
    parseSeedPeers '''' t = Ok (map (\<lambda>w. \<lparr>ap_addr = Addr4 w, ap_port = 6868\<rparr>) (default_addresses t))"
  by (auto simp: parseSeedPeers_def default_peers_parse TrimSpace_def)

theorem seed_peers_roundtrip_witness:
  "parseSeedPeers (join_with CHR '','' [''10.0.0.1:6868'', ''10.0.0.2:6863'']) MainNet =
     Ok (map (\<lambda>w. \<lparr>ap_addr = Addr4 w, ap_port = 6868\<rparr>) (default_addresses MainNet) @
       [\<lparr>ap_addr = Addr4 0x0A000001, ap_port = 6868\<rparr>, \<lparr>ap_addr = Addr4 0x0A000002, ap_port = 6863\<rparr>])"
proof -
  let ?aps = "[\<lparr>ap_addr = Addr4 0x0A000001, ap_port = 6868\<rparr>, \<lparr>ap_addr = Addr4 0x0A000002, ap_port = 6863\<rparr>]"
  have "parseSeedPeers '''' MainNet =
      Ok (map (\<lambda>w. \<lparr>ap_addr = Addr4 w, ap_port = 6868\<rparr>) (default_addresses MainNet))"
    by (rule no_seed_peers) simp
  moreover have "Is4 (ap_addr ap)" if "ap \<in> set ?aps" for ap using that by auto
  ultimately have "parseSeedPeers (join_with CHR '','' (map AddrPortString ?aps)) MainNet =
      Ok (map (\<lambda>w. \<lparr>ap_addr = Addr4 w, ap_port = 6868\<rparr>) (default_addresses MainNet) @ ?aps)"
    by (intro seed_peers_roundtrip) blast+
  moreover have "map AddrPortString ?aps = [''10.0.0.1:6868'', ''10.0.0.2:6863'']" by (simp add: address_text)
  ultimately show ?thesis by (simp only:)
qed

section \<open>Accepted parameters\<close>

lemma split_on_nonempty [simp]: "split_on c s \<noteq> []"
  by (induction s) (auto split: list.split)

lemma seed_loop_extends: "seed_loop as r = Ok r' \<Longrightarrow> \<exists>xs. r' = r @ xs"
  by (induction as r rule: seed_loop.induct) (auto split: if_splits option.splits)

lemma parseAddress_v4: "parseAddress s = Ok (Some ap) \<Longrightarrow> Is4 (ap_addr ap)"
  by (auto simp: parseAddress_def bind_res_eq_Ok split: option.splits)


definition demo_flags :: flags where
  "demo_flags = default_flags\<lparr>flagDB := ''data/''\<rparr>"

definition demo_settings :: "string \<Rightarrow> nat settings res" where
  "demo_settings t =
     (if t = ''mainnet'' then
        Ok \<lparr>bsType = MainNet, bsScheme = 87,
            bsGenesis = \<lparr>BlockID = 1, BlockParent = 0, BlockTimestamp = 0, BlockBaseTarget = 16, GeneratorPublicKey = []\<rparr>\<rparr>
      else Err ErrInvalidParam)"


text \<open>
  An IPv6 address passes the check of the bind address, but the start panics on it: neither the
  network address nor the declared address may be one, unless it maps an IPv4 address.
\<close>

theorem ipv6_address_panics:
  assumes "ParseAddrPort s = Some \<lparr>ap_addr = Addr6 w z, ap_port = p\<rparr>" and "drop_bit 32 w \<noteq> 0xFFFF"
  shows "is_ok (checkBind s) \<and> parseAddress s = Panic"
proof -
  from assms(1) have "s \<noteq> ''''" by (auto simp: ParseAddrPort_def)
  with assms show ?thesis by (simp add: checkBind_def parseAddress_def)
qed

lemma be_nat_zeros: "be_nat (replicate n 0) = 0"
  by (induction n) (simp_all add: be_nat_def)

theorem ipv6_address_panics_witness: "is_ok (checkBind ''[::]:1'') \<and> parseAddress ''[::]:1'' = Panic"
proof -
  have "ParseAddrPort ''[::]:1'' = Some \<lparr>ap_addr = Addr6 0 [], ap_port = 1\<rparr>"
    by (simp add: ParseAddrPort_def Let_def ParseAddr_def parseIPv6_def ParseUint16_def digit_of_def be_nat_zeros)
  from ipv6_address_panics [OF this] show ?thesis by simp
qed

section \<open>Clean paths\<close>

text \<open>
  The elements that are left, the last one first: no empty one, no dot, no slash; double dots only
  at the front of a relative path.
\<close>

definition plain_elem :: "string \<Rightarrow> bool" where
  "plain_elem e \<longleftrightarrow> e \<noteq> '''' \<and> e \<noteq> ''.'' \<and> CHR ''/'' \<notin> set e"

fun clean_stack :: "bool \<Rightarrow> string list \<Rightarrow> bool" where
  "clean_stack rooted [] = True"
| "clean_stack rooted (e # st) =
     (plain_elem e \<and> clean_stack rooted st \<and> (e = ''..'' \<longrightarrow> \<not> rooted \<and> (st = [] \<or> hd st = ''..'')))"

lemma clean_loop_clean:
  "clean_stack rooted st \<Longrightarrow> (\<And>e. e \<in> set es \<Longrightarrow> CHR ''/'' \<notin> set e) \<Longrightarrow> clean_stack rooted (clean_loop rooted es st)"
proof (induction rooted es st rule: clean_loop.induct)
  case (2 rooted e es st)
  have "clean_stack rooted (tl st)" using "2.prems"(1) by (cases st) auto
  have es: "\<And>x. x \<in> set es \<Longrightarrow> CHR ''/'' \<notin> set x" and e: "CHR ''/'' \<notin> set e" using "2.prems"(2) by simp_all
  consider "e = '''' \<or> e = ''.''" | "e = ''..''" | "plain_elem e" "e \<noteq> ''..''" using e by (auto simp: plain_elem_def)
  then show ?case
  proof cases
    case 1
    with "2.IH"(1) [OF _ "2.prems"(1) es] show ?thesis by (simp split: if_splits)
  next
    case 2
    then show ?thesis
      using "2.IH"(2) [OF _ _ _ \<open>clean_stack rooted (tl st)\<close> es] "2.IH"(3) [OF _ _ _ _ "2.prems"(1) es]
        "2.IH"(4) [OF _ _ _ _ _ es] "2.prems"(1)
      by (cases rooted; cases "st = []"; cases "hd st = ''..''"; simp add: plain_elem_def)
  next
    case 3
    with "2.IH"(5) [OF _ _ _ es] "2.prems"(1) show ?thesis by (simp add: plain_elem_def)
  qed
qed simp

text \<open>On clean elements the loop changes nothing.\<close>

lemma clean_loop_push:
  "clean_stack rooted (rev es @ st) \<Longrightarrow> clean_loop rooted es st = rev es @ st"
proof (induction es arbitrary: st)
  case (Cons e es)
  have "clean_stack rooted (xs @ ys) \<Longrightarrow> clean_stack rooted ys" for xs ys by (induction xs) auto
  with Cons.prems have "clean_stack rooted (e # st)" by fastforce
  then have "clean_loop rooted (e # es) st = clean_loop rooted es (e # st)" by (auto simp: plain_elem_def)
  with Cons show ?case by simp
qed simp

lemma join_with_hd: "es \<noteq> [] \<Longrightarrow> hd es \<noteq> [] \<Longrightarrow> join_with c es \<noteq> [] \<and> hd (join_with c es) = hd (hd es)"
  by (induction c es rule: join_with.induct) auto

lemma split_on_set: "e \<in> set (split_on c s) \<Longrightarrow> c \<notin> set e"
  by (induction s arbitrary: e) (auto split: if_splits list.splits)

lemma clean_stack_elems: "clean_stack rooted st \<Longrightarrow> e \<in> set st \<Longrightarrow> plain_elem e"
  by (induction st) auto

theorem path_Clean_idempotent: "path_Clean (path_Clean p) = path_Clean p"
proof -
  let ?rooted = "take 1 p = ''/''"
  define st where "st = clean_loop ?rooted (split_on CHR ''/'' p) []"
  have st: "clean_stack ?rooted st" unfolding st_def by (rule clean_loop_clean) (auto dest: split_on_set)
  let ?es = "rev st"
  have elems: "plain_elem e" if "e \<in> set ?es" for e using clean_stack_elems [OF st] that by simp
  have split: "split_on CHR ''/'' (join_with CHR ''/'' ?es) = (if ?es = [] then [''''] else ?es)"
    using elems by (auto simp: plain_elem_def intro!: split_join)
  have loop: "clean_loop ?rooted (if ?es = [] then [''''] else ?es) [] = st"
    using clean_loop_push [of ?rooted ?es "[]"] st by auto
  have C: "path_Clean p = (let out = (if ?rooted then ''/'' else '''') @ join_with CHR ''/'' ?es in if out = '''' then ''.'' else out)"
    by (simp add: path_Clean_def st_def Let_def)
  have join: "join_with CHR ''/'' ?es = '''' \<longleftrightarrow> ?es = []" "?es \<noteq> [] \<Longrightarrow> hd (join_with CHR ''/'' ?es) = hd (hd ?es)"
    using elems join_with_hd [of ?es "CHR ''/''"] by (cases ?es; force simp: plain_elem_def)+
  show ?thesis
  proof (cases ?rooted)
    case True
    then have "path_Clean p = ''/'' @ join_with CHR ''/'' ?es" by (simp add: C Let_def)
    moreover have "split_on CHR ''/'' (''/'' @ join_with CHR ''/'' ?es) = '''' # (if ?es = [] then [''''] else ?es)"
      using split by simp
    ultimately show ?thesis using loop True by (simp add: path_Clean_def Let_def)
  next
    case False
    show ?thesis
    proof (cases "?es = []")
      case True
      with False have "path_Clean p = ''.''" by (simp add: C)
      then show ?thesis by (simp add: path_Clean_def Let_def)
    next
      case ne: False
      then have c: "path_Clean p = join_with CHR ''/'' ?es" using False join(1) by (simp add: C Let_def)
      have "plain_elem (hd ?es)" by (rule elems) (use ne in \<open>rule hd_in_set\<close>)
      then have "hd (hd ?es) \<noteq> CHR ''/''" by (cases "hd ?es") (auto simp: plain_elem_def)
      with join ne have "take 1 (join_with CHR ''/'' ?es) \<noteq> ''/''" by (cases "join_with CHR ''/'' ?es") auto
      with c split loop False ne show ?thesis by (simp add: path_Clean_def [of "join_with _ _"] Let_def join(1))
    qed
  qed
qed

end
