(* ===== verification/Shutdown.thy ===== *)
theory Shutdown
  imports System
begin

text \<open>
  The life of the program after its start, from \<open>forkdetector.go\<close>: the goroutine of \<open>main\<close>, which
  waits for the signal and then shuts the services down one after another, and the goroutines of the
  services with the places where they wait. The channels between distributor and loader have no
  buffer: a package in \<open>dsOut\<close> is one the distributor is waiting at its send with. Starting these
  goroutines and the steps of \<^term>\<open>nd_step\<close> are interleaved in any order.
\<close>

section \<open>States\<close>

text \<open>
  \<open>LsStarting\<close>: before \<open>Listen\<close>; \<open>LsChecking\<close>: at the select of the loop; \<open>LsAccepting\<close>: in
  \<open>Accept\<close>. A service is at its select or handles what it has received while it is running.
\<close>

datatype api_pc = ApiServing | ApiReturned
datatype listener_pc = LsStarting | LsChecking | LsAccepting | LsReturned
datatype service_pc = SvRunning | SvReturned

text \<open>Where \<open>run\<close> is, or how the program has ended.\<close>

datatype main_pc =
    MainWaits
  | ShutdownApi | WaitApi
  | ShutdownListener | WaitListener
  | WaitRespawn | WaitLoader | WaitDistributor
  | Terminated | Panicked | Exited

record ('db, 'id, 'pdb, 'v) program =
  pgNode :: "('db, 'id, 'pdb, 'v) node"
  pgDone :: bool
  pgMain :: main_pc
  pgApi :: api_pc
  pgService :: service
  pgListener :: listener_pc
  pgNlClosed :: bool
  pgRespawn :: service_pc
  pgLoader :: service_pc
  pgDistributor :: service_pc
  pgChClosed :: bool

text \<open>The services have been created and run; \<open>svc\<close> is what \<^term>\<open>NewListener\<close> has returned.\<close>

definition start_program :: "service \<Rightarrow> ('db, 'id, 'pdb, 'v) node \<Rightarrow> ('db, 'id, 'pdb, 'v) program" where
  "start_program svc n =
     \<lparr>pgNode = n, pgDone = False, pgMain = MainWaits, pgApi = ApiServing, pgService = svc,
      pgListener = LsStarting, pgNlClosed = False, pgRespawn = SvRunning, pgLoader = SvRunning,
      pgDistributor = SvRunning, pgChClosed = False\<rparr>"

section \<open>Shutting down\<close>

text \<open>\<open>Shutdown\<close> of three services waits for the goroutine; \<open>None\<close>: it is still waiting.\<close>

definition respawn_Shutdown :: "('db, 'id, 'pdb, 'v) program \<Rightarrow> ('db, 'id, 'pdb, 'v) program option" where
  "respawn_Shutdown p = (if pgRespawn p = SvReturned then Some p else None)"

definition loader_Shutdown :: "('db, 'id, 'pdb, 'v) program \<Rightarrow> ('db, 'id, 'pdb, 'v) program option" where
  "loader_Shutdown p = (if pgLoader p = SvReturned then Some p else None)"

definition distributor_Shutdown :: "('db, 'id, 'pdb, 'v) program \<Rightarrow> ('db, 'id, 'pdb, 'v) program option" where
  "distributor_Shutdown p = (if pgDistributor p = SvReturned then Some (p\<lparr>pgChClosed := True\<rparr>) else None)"

text \<open>
  The end of \<open>run\<close>. \<open>Shutdown\<close> of the API makes its server return, that of the listener closes the
  socket; when closing fails it does not wait.
\<close>

inductive main_step :: "('db, 'id, 'pdb, 'v) program \<Rightarrow> ('db, 'id, 'pdb, 'v) program \<Rightarrow> bool" where
  signalled: "pgMain p = MainWaits \<Longrightarrow> pgDone p \<Longrightarrow> main_step p (p\<lparr>pgMain := ShutdownApi\<rparr>)"
| api_shutdown: "pgMain p = ShutdownApi \<Longrightarrow> main_step p (p\<lparr>pgMain := WaitApi\<rparr>)"
| api_waited: "pgMain p = WaitApi \<Longrightarrow> pgApi p = ApiReturned \<Longrightarrow> main_step p (p\<lparr>pgMain := ShutdownListener\<rparr>)"
| no_listener: "pgMain p = ShutdownListener \<Longrightarrow> pgService p = EmptyService \<Longrightarrow> main_step p (p\<lparr>pgMain := WaitRespawn\<rparr>)"
| nl_closed: "pgMain p = ShutdownListener \<Longrightarrow> pgService p = ListenerService l \<Longrightarrow> listener_Shutdown l = Ok () \<Longrightarrow>
    main_step p (p\<lparr>pgNlClosed := True, pgMain := WaitListener\<rparr>)"
| nl_not_closed: "pgMain p = ShutdownListener \<Longrightarrow> pgService p = ListenerService l \<Longrightarrow> listener_Shutdown l = Ok () \<Longrightarrow>
    main_step p (p\<lparr>pgMain := WaitRespawn\<rparr>)"
| nl_nil: "pgMain p = ShutdownListener \<Longrightarrow> pgService p = ListenerService l \<Longrightarrow> listener_Shutdown l = Panic \<Longrightarrow>
    main_step p (p\<lparr>pgMain := Panicked\<rparr>)"
| listener_waited: "pgMain p = WaitListener \<Longrightarrow> pgListener p = LsReturned \<Longrightarrow> main_step p (p\<lparr>pgMain := WaitRespawn\<rparr>)"
| respawn_waited: "pgMain p = WaitRespawn \<Longrightarrow> respawn_Shutdown p = Some q \<Longrightarrow> main_step p (q\<lparr>pgMain := WaitLoader\<rparr>)"
| loader_waited: "pgMain p = WaitLoader \<Longrightarrow> loader_Shutdown p = Some q \<Longrightarrow> main_step p (q\<lparr>pgMain := WaitDistributor\<rparr>)"
| distributor_waited: "pgMain p = WaitDistributor \<Longrightarrow> distributor_Shutdown p = Some q \<Longrightarrow>
    main_step p (q\<lparr>pgMain := Terminated\<rparr>)"

text \<open>
  The server of the API: it returns when it is shut down; when it cannot be started, \<open>Fatalf\<close> ends
  the program.
\<close>

inductive api_step :: "('db, 'id, 'pdb, 'v) program \<Rightarrow> ('db, 'id, 'pdb, 'v) program \<Rightarrow> bool" where
  api_closed: "pgApi p = ApiServing \<Longrightarrow> pgMain p = WaitApi \<Longrightarrow> api_step p (p\<lparr>pgApi := ApiReturned\<rparr>)"
| api_fatal: "pgApi p = ApiServing \<Longrightarrow> pgMain p = MainWaits \<or> pgMain p = ShutdownApi \<Longrightarrow>
    api_step p (p\<lparr>pgMain := Exited\<rparr>)"

text \<open>
  \<open>Listener.run\<close>. A connection \<open>Accept\<close> returns is handled in a goroutine of its own, by the event
  \<open>NdAccept\<close> of the node; an error of \<open>Accept\<close> is logged. On a closed socket \<open>Accept\<close> returns at once.
\<close>

inductive listener_step :: "('db, 'id, 'pdb, 'v) program \<Rightarrow> ('db, 'id, 'pdb, 'v) program \<Rightarrow> bool" where
  listened: "pgService p = ListenerService l \<Longrightarrow> pgListener p = LsStarting \<Longrightarrow> listener_start (Ok ()) l = (l', Ok ()) \<Longrightarrow>
    listener_step p (p\<lparr>pgService := ListenerService l', pgListener := LsChecking\<rparr>)"
| not_listened: "pgService p = ListenerService l \<Longrightarrow> pgListener p = LsStarting \<Longrightarrow> listener_start (Err e) l = (l', Err e) \<Longrightarrow>
    listener_step p (p\<lparr>pgService := ListenerService l', pgListener := LsReturned\<rparr>)"
| listener_done: "pgService p = ListenerService l \<Longrightarrow> pgListener p = LsChecking \<Longrightarrow> pgDone p \<Longrightarrow>
    listener_step p (p\<lparr>pgListener := LsReturned\<rparr>)"
| listener_goes_on: "pgService p = ListenerService l \<Longrightarrow> pgListener p = LsChecking \<Longrightarrow> \<not> pgDone p \<Longrightarrow>
    listener_step p (p\<lparr>pgListener := LsAccepting\<rparr>)"
| accepted: "pgService p = ListenerService l \<Longrightarrow> pgListener p = LsAccepting \<Longrightarrow> \<not> pgNlClosed p \<Longrightarrow>
    listener_step p (p\<lparr>pgListener := LsChecking\<rparr>)"
| accept_closed: "pgService p = ListenerService l \<Longrightarrow> pgListener p = LsAccepting \<Longrightarrow> pgNlClosed p \<Longrightarrow>
    listener_step p (p\<lparr>pgListener := LsChecking\<rparr>)"

text \<open>The loops of the other services return when they see the end of the context at their select.\<close>

definition respawn_return :: "('db, 'id, 'pdb, 'v) program \<Rightarrow> ('db, 'id, 'pdb, 'v) program option" where
  "respawn_return p = (if pgRespawn p = SvRunning \<and> pgDone p then Some (p\<lparr>pgRespawn := SvReturned\<rparr>) else None)"

definition loader_return :: "('db, 'id, 'pdb, 'v) program \<Rightarrow> ('db, 'id, 'pdb, 'v) program option" where
  "loader_return p = (if pgLoader p = SvRunning \<and> pgDone p then Some (p\<lparr>pgLoader := SvReturned\<rparr>) else None)"

definition at_select :: "('db, 'id, 'pdb, 'v) program \<Rightarrow> bool" where
  "at_select p \<longleftrightarrow> pgDistributor p = SvRunning \<and> dsOut (ndDs (pgNode p)) = []"

definition distributor_return :: "('db, 'id, 'pdb, 'v) program \<Rightarrow> ('db, 'id, 'pdb, 'v) program option" where
  "distributor_return p = (if at_select p \<and> pgDone p then Some (p\<lparr>pgDistributor := SvReturned\<rparr>) else None)"

section \<open>The program\<close>

text \<open>
  Which events of the node are possible: the distributor receives only at its select, a package is
  handed over when both sides are there, and connections are accepted, dialed and dropped by
  goroutines nobody waits for.
\<close>

fun enabled :: "('db, 'id, 'pdb, 'v) program \<Rightarrow> ('id, 'v) nd_event \<Rightarrow> bool" where
  "enabled p (NdNet e) = at_select p"
| "enabled p NdDeliver =
     (pgDistributor p = SvRunning \<and> dsOut (ndDs (pgNode p)) \<noteq> [] \<and> pgLoader p = SvRunning)"
| "enabled p NdTick = (pgLoader p = SvRunning)"
| "enabled p (NdTimer pick) = (pgLoader p = SvRunning)"
| "enabled p (NdAccept remote run) = (\<exists>l. pgService p = ListenerService l \<and> lsListening l)"
| "enabled p NdRespawn = (pgRespawn p = SvRunning)"
| "enabled p (NdDial ap run) = True"
| "enabled p (NdDialFailed ap) = True"

text \<open>A panic in any goroutine ends the program.\<close>

definition with_node :: "('db, 'id, 'pdb, 'v) program \<Rightarrow> ('db, 'id, 'pdb, 'v) node \<times> unit res \<Rightarrow> ('db, 'id, 'pdb, 'v) program" where
  "with_node p r = p\<lparr>pgNode := fst r, pgMain := (if snd r = Panic then Panicked else pgMain p)\<rparr>"

definition over :: "('db, 'id, 'pdb, 'v) program \<Rightarrow> bool" where
  "over p \<longleftrightarrow> pgMain p = Terminated \<or> pgMain p = Panicked \<or> pgMain p = Exited"

text \<open>A step; an event of the node is noted.\<close>

inductive pg_step ::
  "('db, 'id, 'pdb, 'v) ds_env \<Rightarrow> (('db, 'id) env \<times> ('db, 'id) linkage, loader, 'id) pl_fire \<Rightarrow> cmanager \<Rightarrow>
    ('id, 'v) nd_event option \<Rightarrow> ('db, 'id, 'pdb, 'v) program \<Rightarrow> ('db, 'id, 'pdb, 'v) program \<Rightarrow> bool" for D F h where
  signal: "\<not> over p \<Longrightarrow> \<not> pgDone p \<Longrightarrow> pg_step D F h None p (p\<lparr>pgDone := True\<rparr>)"
| main: "\<not> over p \<Longrightarrow> main_step p q \<Longrightarrow> pg_step D F h None p q"
| api: "\<not> over p \<Longrightarrow> api_step p q \<Longrightarrow> pg_step D F h None p q"
| listen: "\<not> over p \<Longrightarrow> listener_step p q \<Longrightarrow> pg_step D F h None p q"
| respawn: "\<not> over p \<Longrightarrow> respawn_return p = Some q \<Longrightarrow> pg_step D F h None p q"
| loader: "\<not> over p \<Longrightarrow> loader_return p = Some q \<Longrightarrow> pg_step D F h None p q"
| distributor: "\<not> over p \<Longrightarrow> distributor_return p = Some q \<Longrightarrow> pg_step D F h None p q"
| event: "\<not> over p \<Longrightarrow> enabled p e \<Longrightarrow> pg_step D F h (Some e) p (with_node p (nd_step D F h now e (pgNode p)))"

definition pg_runs ::
  "('db, 'id, 'pdb, 'v) ds_env \<Rightarrow> (('db, 'id) env \<times> ('db, 'id) linkage, loader, 'id) pl_fire \<Rightarrow> cmanager \<Rightarrow>
    ('db, 'id, 'pdb, 'v) program \<Rightarrow> ('db, 'id, 'pdb, 'v) program \<Rightarrow> bool" where
  "pg_runs D F h = (\<lambda>p q. \<exists>a. pg_step D F h a p q)\<^sup>*\<^sup>*"

inductive_cases main_stepE: "main_step p q"
inductive_cases api_stepE: "api_step p q"
inductive_cases listener_stepE: "listener_step p q"
inductive_cases pg_stepE: "pg_step D F h a p q"

end
