(* ===== verification/ShutdownSpec.thy ===== *)
theory ShutdownSpec
  imports Shutdown SystemSpec
begin

text \<open>
  What every interleaving of the goroutines keeps, and exactly when a shutdown can come to its end.
\<close>

section \<open>The channels\<close>

text \<open>A message makes the distributor send one package at most.\<close>

lemma logged_out [simp]: "dsOut (fst (logged m s)) = dsOut (fst (m s))"
  by (simp add: logged_def split: prod.split res.split)

lemma on_reg_out [simp]: "dsOut (fst (on_reg m s)) = dsOut s"
  by (simp add: on_reg_def split: prod.split)

lemma on_lnk_out [simp]: "dsOut (fst (on_lnk m s)) = dsOut s"
  by (simp add: on_lnk_def split: prod.split)

definition sends_one :: "('db, 'id, 'pdb, 'v) dstate \<Rightarrow> ('db, 'id, 'pdb, 'v) dstate \<Rightarrow> bool" where
  "sends_one s s' \<longleftrightarrow> dsOut s' = dsOut s \<or> (\<exists>p. dsOut s' = dsOut s @ [p])"

lemma sends_one_simps [simp]:
  "dsOut s' = dsOut s \<Longrightarrow> sends_one s s'"
  "sends_one s (fst (send_package pkg s))"
  "sends_one s (fst (logged m s)) = sends_one s (fst (m s))"
  "sends_one s (fst (with_remote p f s)) = (\<forall>ap. npRemote p = Some ap \<longrightarrow> sends_one s (fst (f (ap_addr ap) s)))"
  by (auto simp: sends_one_def send_package_def with_remote_def split: option.split)

lemma ds_handleBlock_sends [simp]: "sends_one s (fst (ds_handleBlock D blk remote s))"
proof (cases remote)
  case (Some ap)
  obtain s' x where p: "on_lnk (PutBlock (deEnv D) blk (ap_addr ap)) s = (s', x)" by fastforce
  then have "dsOut s' = dsOut s" by (metis fst_conv on_lnk_out)
  with Some p show ?thesis by (cases x) (auto simp: ds_handleBlock_def sends_one_def send_package_def)
qed (simp add: ds_handleBlock_def)

lemma handleMessage_sends [simp]: "sends_one s (fst (handleMessage D p m s))"
  by (cases m)
     (auto simp: handleGetPeersMessage_def send_message_def handlePeersMessage_def handleScoreMessage_def
       handleSignaturesMessage_def handleBlockIDsMessage_def handleMicroBlockInvMessage_def handleBlockMessage_def
       handleProtoBlockMessage_def return_act_def split: res.split)

lemma ds_step_sends: "sends_one s (fst (ds_step D now e s))"
  by (cases e) (simp_all add: handleConnected_def handleInternalError_def pingConnections_def)

text \<open>The packages of the node.\<close>

abbreviation out :: "('db, 'id, 'pdb, 'v) node \<Rightarrow> 'id package list" where
  "out s \<equiv> dsOut (ndDs s)"

lemma by_distributor_out: "out (fst (by_distributor m s)) = dsOut (fst (m (ndDs s)))"
  by (simp add: by_distributor_def split: prod.split)

lemma by_loader_out [simp]: "out (fst (by_loader D F now inp s)) = out s"
  by (simp add: by_loader_def split: prod.split)

lemma nd_step_out:
  "out (fst (nd_step D F h now e s)) = out s" if "\<nexists>v. e = NdNet v" "e \<noteq> NdDeliver"
  using that by (cases e) (simp_all add: by_distributor_out listener_accept_logged)

lemma deliver_out: "out (fst (nd_step D F h now NdDeliver s)) = tl (out s)"
  by (simp add: deliver_def split: list.split)

lemma receive_out: "out s = [] \<Longrightarrow> length (out (fst (nd_step D F h now (NdNet e) s))) \<le> 1"
  using ds_step_sends [of "ndDs s" D now e] by (auto simp: by_distributor_out sends_one_def)

section \<open>What every step keeps\<close>

definition listener_inv :: "('db, 'id, 'pdb, 'v) program \<Rightarrow> bool" where
  "listener_inv p \<longleftrightarrow>
     (\<forall>l. pgService p = ListenerService l \<longrightarrow>
        (pgListener p = LsStarting \<longrightarrow> \<not> lsListening l) \<and>
        (pgListener p = LsChecking \<or> pgListener p = LsAccepting \<longrightarrow> lsListening l)) \<and>
     (pgMain p = WaitListener \<longrightarrow> pgNlClosed p \<and> (\<exists>l. pgService p = ListenerService l \<and> lsListening l)) \<and>
     (pgMain p = Panicked \<longrightarrow> (\<exists>l. pgService p = ListenerService l \<and> \<not> lsListening l))"

definition order_inv :: "('db, 'id, 'pdb, 'v) program \<Rightarrow> bool" where
  "order_inv p \<longleftrightarrow>
     length (out (pgNode p)) \<le> 1 \<and>
     (pgDistributor p = SvReturned \<longrightarrow> out (pgNode p) = []) \<and>
     (pgMain p \<in> {WaitLoader, WaitDistributor, Terminated} \<longrightarrow> pgRespawn p = SvReturned) \<and>
     (pgMain p \<in> {WaitDistributor, Terminated} \<longrightarrow> pgLoader p = SvReturned) \<and>
     (pgMain p = Terminated \<longrightarrow> pgDistributor p = SvReturned) \<and>
     (pgChClosed p \<longrightarrow> pgMain p = Terminated)"

lemmas program_defs = respawn_Shutdown_def loader_Shutdown_def distributor_Shutdown_def respawn_return_def
  loader_return_def distributor_return_def at_select_def over_def

lemma main_step_inv:
  "main_step p q \<Longrightarrow> \<not> over p \<Longrightarrow> listener_inv p \<Longrightarrow> order_inv p \<Longrightarrow> listener_inv q \<and> order_inv q"
  by (erule main_stepE)
     (auto simp: listener_inv_def order_inv_def program_defs listener_Shutdown_def split: if_splits)

lemma api_step_inv:
  "api_step p q \<Longrightarrow> \<not> over p \<Longrightarrow> listener_inv p \<Longrightarrow> order_inv p \<Longrightarrow> listener_inv q \<and> order_inv q"
  by (erule api_stepE) (auto simp: listener_inv_def order_inv_def over_def)

lemma listener_step_inv:
  "listener_step p q \<Longrightarrow> \<not> over p \<Longrightarrow> listener_inv p \<Longrightarrow> order_inv p \<Longrightarrow> listener_inv q \<and> order_inv q"
  by (erule listener_stepE) (auto simp: listener_inv_def order_inv_def over_def listener_start_def)

text \<open>The returns of the other services.\<close>

lemma listener_inv_frame [simp]:
  "listener_inv (p\<lparr>pgRespawn := x\<rparr>) = listener_inv p" "listener_inv (p\<lparr>pgLoader := x\<rparr>) = listener_inv p"
  "listener_inv (p\<lparr>pgDistributor := x\<rparr>) = listener_inv p" "listener_inv (p\<lparr>pgDone := d\<rparr>) = listener_inv p"
  "listener_inv (p\<lparr>pgNode := n\<rparr>) = listener_inv p"
  by (simp_all add: listener_inv_def)

lemma order_inv_frame [simp]:
  "order_inv (p\<lparr>pgDone := d\<rparr>) = order_inv p"
  "order_inv p \<Longrightarrow> order_inv (p\<lparr>pgRespawn := SvReturned\<rparr>)" "order_inv p \<Longrightarrow> order_inv (p\<lparr>pgLoader := SvReturned\<rparr>)"
  "order_inv p \<Longrightarrow> out (pgNode p) = [] \<Longrightarrow> order_inv (p\<lparr>pgDistributor := SvReturned\<rparr>)"
  "order_inv p \<Longrightarrow> length (out n) \<le> 1 \<Longrightarrow> pgDistributor p = SvReturned \<longrightarrow> out n = [] \<Longrightarrow> order_inv (p\<lparr>pgNode := n\<rparr>)"
  by (simp_all add: order_inv_def)

lemma return_inv:
  assumes "respawn_return p = Some q \<or> loader_return p = Some q \<or> distributor_return p = Some q"
    and "listener_inv p" "order_inv p"
  shows "listener_inv q \<and> order_inv q"
  using assms by (auto simp: respawn_return_def loader_return_def distributor_return_def at_select_def split: if_splits)

lemma event_inv:
  assumes "enabled p e" "\<not> over p" "snd (nd_step D F h now e (pgNode p)) \<noteq> Panic" "listener_inv p" "order_inv p"
  shows "listener_inv (with_node p (nd_step D F h now e (pgNode p))) \<and>
    order_inv (with_node p (nd_step D F h now e (pgNode p)))"
proof -
  let ?n = "fst (nd_step D F h now e (pgNode p))"
  have "length (out ?n) \<le> 1 \<and> (pgDistributor p = SvReturned \<longrightarrow> out ?n = [])"
  proof (cases "\<exists>v. e = NdNet v")
    case True
    then show ?thesis using assms(1) receive_out [of "pgNode p" D F h now] by (auto simp: at_select_def)
  next
    case False
    then show ?thesis
      using assms(5) nd_step_out [of e D F h now "pgNode p"] deliver_out [of D F h now "pgNode p"]
      by (cases "e = NdDeliver") (auto simp: order_inv_def)
  qed
  then show ?thesis using assms(3-5) by (simp add: with_node_def)
qed

inductive pg_reach ::
  "('db, 'id, 'pdb, 'v) ds_env \<Rightarrow> (('db, 'id) env \<times> ('db, 'id) linkage, loader, 'id) pl_fire \<Rightarrow> cmanager \<Rightarrow>
    ('db, 'id, 'pdb, 'v) program \<Rightarrow> bool" for D F h where
  booted: "nd_reach D F h n \<Longrightarrow> out n = [] \<Longrightarrow> pg_reach D F h (start_program (NewListener is_empty bind declared) n)"
| moved: "pg_reach D F h p \<Longrightarrow> pg_step D F h a p q \<Longrightarrow>
    (\<And>e. a = Some e \<Longrightarrow> nd_event_ok D e \<and> roomy D (pgNode p)) \<Longrightarrow> pg_reach D F h q"

lemma step_node:
  assumes "pg_step D F h None p q"
  shows "pgNode q = pgNode p"
  using assms by (auto elim!: pg_stepE main_stepE api_stepE listener_stepE simp: program_defs split: if_splits)

lemma pg_reach_inv:
  fixes D :: "('db, 'id, 'pdb, 'v) ds_env"
  assumes D: "ds_env_ok D" and F: "stateless_ok F" and p: "pg_reach D F h p"
  shows "nd_reach D F h (pgNode p) \<and> listener_inv p \<and> order_inv p"
  using p
proof induction
  case (booted n is_empty bind declared)
  then show ?case
    by (auto simp: start_program_def listener_inv_def order_inv_def NewListener_def split: if_splits)
next
  case (moved p a q)
  show ?case
  proof (cases a)
    case None
    with moved.hyps have st: "pg_step D F h None p q" by simp
    moreover from st have "listener_inv q \<and> order_inv q"
    proof (cases rule: pg_step.cases)
      case signal
      with moved.IH show ?thesis by simp
    next
      case main
      with moved.IH show ?thesis by (blast dest: main_step_inv)
    next
      case api
      with moved.IH show ?thesis by (blast dest: api_step_inv)
    next
      case listen
      with moved.IH show ?thesis by (blast dest: listener_step_inv)
    qed (use moved.IH return_inv [of p q] in simp_all)
    ultimately show ?thesis using moved.IH by (simp add: step_node)
  next
    case (Some e)
    with moved.hyps obtain now where e: "\<not> over p" "enabled p e" "q = with_node p (nd_step D F h now e (pgNode p))"
      by (auto elim: pg_stepE)
    from Some moved.hyps have ok: "nd_event_ok D e" "roomy D (pgNode p)" by simp_all
    from nd_step_safe [OF D F nd_reach_ok [OF D F conjunct1 [OF moved.IH]] ok(2,1), of h now] obtain n where
      n: "nd_step D F h now e (pgNode p) = (n, Ok ())" by blast
    from nd_reach.stepped [OF conjunct1 [OF moved.IH] ok(2,1) n] have "nd_reach D F h (pgNode q)"
      by (simp add: e(3) n with_node_def)
    moreover have "listener_inv q \<and> order_inv q"
      unfolding e(3) by (rule event_inv [OF e(2,1)]) (use n moved.IH in simp_all)
    ultimately show ?thesis by simp
  qed
qed

section \<open>Programs that never end\<close>

text \<open>The distributor waits at a send, and the loader has returned.\<close>

definition sender_left :: "('db, 'id, 'pdb, 'v) program \<Rightarrow> bool" where
  "sender_left p \<longleftrightarrow> out (pgNode p) \<noteq> [] \<and> pgLoader p = SvReturned"

text \<open>The listener has returned without a socket, and \<open>run\<close> has still to shut it down.\<close>

definition socket_missing :: "('db, 'id, 'pdb, 'v) program \<Rightarrow> bool" where
  "socket_missing p \<longleftrightarrow>
     pgMain p \<in> {MainWaits, ShutdownApi, WaitApi, ShutdownListener} \<and>
     (\<exists>l. pgService p = ListenerService l \<and> \<not> lsListening l \<and> pgListener p = LsReturned)"

definition hangs :: "('db, 'id, 'pdb, 'v) program \<Rightarrow> bool" where
  "hangs p \<longleftrightarrow> sender_left p \<and> pgDistributor p = SvRunning \<and> pgMain p \<noteq> Terminated"

definition crashes :: "('db, 'id, 'pdb, 'v) program \<Rightarrow> bool" where
  "crashes p \<longleftrightarrow> socket_missing p \<or> pgMain p = Panicked \<or> pgMain p = Exited"

lemma event_hangs:
  assumes "enabled p e" "hangs p"
  shows "hangs (with_node p (nd_step D F h now e (pgNode p)))"
proof -
  from assms have "\<nexists>v. e = NdNet v" "e \<noteq> NdDeliver" by (auto simp: hangs_def sender_left_def at_select_def)
  from nd_step_out [OF this, of D F h now "pgNode p"] assms(2) show ?thesis by (simp add: hangs_def sender_left_def with_node_def)
qed

lemma step_hangs:
  assumes "pg_step D F h a p q" "hangs p"
  shows "hangs q"
  using assms(1)
proof (cases rule: pg_step.cases)
  case main
  from main(3) assms(2) show ?thesis
    by (cases rule: main_step.cases) (auto simp: hangs_def sender_left_def program_defs split: if_splits)
next
  case api
  from api(3) assms(2) show ?thesis by (cases rule: api_step.cases) (auto simp: hangs_def sender_left_def)
next
  case listen
  from listen(3) assms(2) show ?thesis by (cases rule: listener_step.cases) (auto simp: hangs_def sender_left_def)
next
  case (event e now)
  from event_hangs [OF event(4) assms(2)] event(2) show ?thesis by simp
qed (use assms(2) in \<open>auto simp: hangs_def sender_left_def program_defs split: if_splits\<close>)

lemma step_crashes:
  assumes "pg_step D F h a p q" "crashes p"
  shows "crashes q"
proof -
  from assms have "\<not> over p" by (auto elim: pg_stepE)
  with assms(2) have p: "socket_missing p" by (auto simp: crashes_def over_def)
  from assms(1) show ?thesis
  proof (cases rule: pg_step.cases)
    case main
    from main(3) p show ?thesis
      by (cases rule: main_step.cases) (auto simp: crashes_def socket_missing_def listener_Shutdown_def)
  next
    case api
    from api(3) p show ?thesis by (cases rule: api_step.cases) (auto simp: crashes_def socket_missing_def)
  next
    case listen
    from listen(3) p show ?thesis by (cases rule: listener_step.cases) (auto simp: socket_missing_def)
  qed (use p in \<open>auto simp: crashes_def socket_missing_def with_node_def program_defs split: if_splits\<close>)
qed

lemma runs_hangs: "pg_runs D F h p q \<Longrightarrow> hangs p \<Longrightarrow> hangs q"
  unfolding pg_runs_def by (induction rule: rtranclp_induct) (auto dest: step_hangs)

lemma runs_crashes: "pg_runs D F h p q \<Longrightarrow> crashes p \<Longrightarrow> crashes q"
  unfolding pg_runs_def by (induction rule: rtranclp_induct) (auto dest: step_crashes)

section \<open>Programs that can end\<close>

definition ends ::
  "('db, 'id, 'pdb, 'v) ds_env \<Rightarrow> (('db, 'id) env \<times> ('db, 'id) linkage, loader, 'id) pl_fire \<Rightarrow> cmanager \<Rightarrow>
    ('db, 'id, 'pdb, 'v) program \<Rightarrow> bool" where
  "ends D F h p \<longleftrightarrow> (\<exists>q. pg_runs D F h p q \<and> pgMain q = Terminated)"

lemma ends_now: "pgMain p = Terminated \<Longrightarrow> ends D F h p"
  by (auto simp: ends_def pg_runs_def)

lemma ends_step: "pg_step D F h a p q \<Longrightarrow> ends D F h q \<Longrightarrow> ends D F h p"
  unfolding ends_def pg_runs_def by (blast intro: converse_rtranclp_into_rtranclp)

lemma ends_main: "main_step p q \<Longrightarrow> \<not> over p \<Longrightarrow> ends D F h q \<Longrightarrow> ends D F h p"
  by (rule ends_step [OF pg_step.main])

lemma ends_listener: "listener_step p q \<Longrightarrow> \<not> over p \<Longrightarrow> ends D F h q \<Longrightarrow> ends D F h p"
  by (rule ends_step [OF pg_step.listen])

text \<open>Everything but the API and the listener has returned.\<close>

definition settled :: "('db, 'id, 'pdb, 'v) program \<Rightarrow> bool" where
  "settled p \<longleftrightarrow> pgDone p \<and> pgRespawn p = SvReturned \<and> pgLoader p = SvReturned \<and> pgDistributor p = SvReturned"

lemma settled_frame [simp]:
  "settled (p\<lparr>pgMain := m\<rparr>) = settled p" "settled (p\<lparr>pgListener := x\<rparr>) = settled p"
  "settled (p\<lparr>pgService := s\<rparr>) = settled p" "settled (p\<lparr>pgNlClosed := b\<rparr>) = settled p"
  "settled (p\<lparr>pgApi := a\<rparr>) = settled p"
  by (simp_all add: settled_def)

lemma ends_from_distributor: "pgMain p = WaitDistributor \<Longrightarrow> settled p \<Longrightarrow> ends D F h p"
  by (rule ends_main [OF main_step.distributor_waited]) (auto simp: settled_def program_defs intro: ends_now)

lemma ends_from_loader: "pgMain p = WaitLoader \<Longrightarrow> settled p \<Longrightarrow> ends D F h p"
  by (rule ends_main [OF main_step.loader_waited]) (auto simp: settled_def program_defs intro: ends_from_distributor)

lemma ends_from_respawn: "pgMain p = WaitRespawn \<Longrightarrow> settled p \<Longrightarrow> ends D F h p"
  by (rule ends_main [OF main_step.respawn_waited]) (auto simp: settled_def program_defs intro: ends_from_loader)

lemma ends_from_wait_listener:
  assumes "pgMain p = WaitListener" "settled p" "pgNlClosed p" "pgService p = ListenerService l" "pgListener p \<noteq> LsStarting"
  shows "ends D F h p"
proof -
  have returned: "ends D F h q"
    if "pgMain q = WaitListener" "settled q" "pgListener q = LsReturned" for q :: "('a, 'b, 'c, 'd) program"
    by (rule ends_main [OF main_step.listener_waited [OF that(1,3)]])
       (use that in \<open>auto simp: over_def intro: ends_from_respawn\<close>)
  have check: "ends D F h q"
    if "pgMain q = WaitListener" "settled q" "pgService q = ListenerService l" "pgListener q = LsChecking"
    for q :: "('a, 'b, 'c, 'd) program"
    by (rule ends_listener [OF listener_step.listener_done [OF that(3,4)]])
       (use that in \<open>auto simp: over_def settled_def intro!: returned\<close>)
  show ?thesis
  proof (cases "pgListener p")
    case LsAccepting
    show ?thesis
      by (rule ends_listener [OF listener_step.accept_closed [OF assms(4) LsAccepting assms(3)]])
         (use assms in \<open>auto simp: over_def intro!: check\<close>)
  qed (use assms returned check in auto)
qed

text \<open>The listener can be shut down, now or when it has started.\<close>

definition closable :: "('db, 'id, 'pdb, 'v) program \<Rightarrow> bool" where
  "closable p \<longleftrightarrow> pgService p = EmptyService \<or>
     (\<exists>l. pgService p = ListenerService l \<and> (lsListening l \<and> pgListener p \<noteq> LsStarting \<or> pgListener p = LsStarting))"

lemma ends_from_shutdown_listener:
  assumes "pgMain p = ShutdownListener" "settled p" "closable p"
  shows "ends D F h p"
proof -
  have listening: "ends D F h q"
    if "pgMain q = ShutdownListener" "settled q" "pgService q = ListenerService l" "lsListening l" "pgListener q \<noteq> LsStarting"
    for l and q :: "('a, 'b, 'c, 'd) program"
    by (rule ends_main [OF main_step.nl_closed [OF that(1,3)]])
       (use that in \<open>auto simp: over_def listener_Shutdown_def intro!: ends_from_wait_listener\<close>)
  from assms(3) consider (none) "pgService p = EmptyService"
    | (opened) l where "pgService p = ListenerService l" "lsListening l" "pgListener p \<noteq> LsStarting"
    | (start) l where "pgService p = ListenerService l" "pgListener p = LsStarting"
    by (auto simp: closable_def)
  then show ?thesis
  proof cases
    case none
    then show ?thesis
      by (intro ends_main [OF main_step.no_listener [OF assms(1)]])
         (use assms in \<open>auto simp: over_def intro: ends_from_respawn\<close>)
  next
    case opened
    with assms show ?thesis by (intro listening)
  next
    case start
    show ?thesis
      by (rule ends_listener [OF listener_step.listened [OF start, where l' = "l\<lparr>lsListening := True\<rparr>"]])
         (use assms(1,2) in \<open>auto simp: over_def listener_start_def intro!: listening\<close>)
  qed
qed

lemma closable_frame [simp]: "closable (p\<lparr>pgMain := m\<rparr>) = closable p" "closable (p\<lparr>pgApi := a\<rparr>) = closable p"
  by (simp_all add: closable_def)

lemma ends_from_wait_api:
  assumes "pgMain p = WaitApi" "settled p" "closable p"
  shows "ends D F h p"
proof -
  have returned: "ends D F h q" if "pgMain q = WaitApi" "settled q" "closable q" "pgApi q = ApiReturned"
    for q :: "('a, 'b, 'c, 'd) program"
    by (rule ends_main [OF main_step.api_waited [OF that(1,4)]])
       (use that in \<open>auto simp: over_def intro!: ends_from_shutdown_listener\<close>)
  show ?thesis
  proof (cases "pgApi p")
    case ApiServing
    show ?thesis
      by (rule ends_step [OF pg_step.api [OF _ api_step.api_closed [OF ApiServing assms(1)]]])
         (use assms in \<open>auto simp: over_def intro!: returned\<close>)
  qed (use assms returned in auto)
qed

lemma ends_from_start:
  assumes "pgMain p = MainWaits \<or> pgMain p = ShutdownApi" "settled p" "closable p"
  shows "ends D F h p"
proof -
  have shut: "ends D F h q" if "pgMain q = ShutdownApi" "settled q" "closable q" for q :: "('a, 'b, 'c, 'd) program"
    by (rule ends_main [OF main_step.api_shutdown [OF that(1)]])
       (use that in \<open>auto simp: over_def intro!: ends_from_wait_api\<close>)
  from assms(1) show ?thesis
  proof
    assume m: "pgMain p = MainWaits"
    show ?thesis
      by (rule ends_main [OF main_step.signalled [OF m]])
         (use assms m in \<open>auto simp: over_def settled_def intro!: shut\<close>)
  qed (use assms shut in auto)
qed

lemma ends_settled:
  assumes "settled p" "listener_inv p" "\<not> crashes p"
  shows "ends D F h p"
proof -
  have "closable p" if "pgMain p \<in> {MainWaits, ShutdownApi, WaitApi, ShutdownListener}"
    using that assms(2,3) by (cases "pgService p"; cases "pgListener p")
      (auto simp: crashes_def socket_missing_def closable_def listener_inv_def)
  moreover have "ends D F h p" if "pgMain p = WaitListener"
    using that assms(1,2) ends_from_wait_listener [of p _ D F h] by (auto simp: listener_inv_def)
  ultimately show ?thesis
    using assms ends_from_start [of p D F h] ends_from_wait_api [of p D F h] ends_from_shutdown_listener [of p D F h]
      ends_from_respawn [of p D F h] ends_from_loader [of p D F h] ends_from_distributor [of p D F h] ends_now [of p D F h]
    by (cases "pgMain p") (simp_all add: crashes_def)
qed

section \<open>Exactly when\<close>

lemma crashes_frame [simp]:
  "crashes (p\<lparr>pgRespawn := x\<rparr>) = crashes p" "crashes (p\<lparr>pgLoader := x\<rparr>) = crashes p"
  "crashes (p\<lparr>pgDistributor := x\<rparr>) = crashes p" "crashes (p\<lparr>pgNode := n\<rparr>) = crashes p"
  by (simp_all add: crashes_def socket_missing_def)

lemma ends_at_select:
  fixes p :: "('db, 'id, 'pdb, 'v) program"
  assumes "pgDone p" "\<not> over p" "out (pgNode p) = []" "listener_inv p" "\<not> crashes p"
  shows "ends D F h p"
proof -
  have resp: "ends D F h q"
    if "pgDone q" "\<not> over q" "listener_inv q" "\<not> crashes q" "pgLoader q = SvReturned" "pgDistributor q = SvReturned"
    for q :: "('db, 'id, 'pdb, 'v) program"
  proof (cases "pgRespawn q")
    case SvRunning
    show ?thesis
      by (rule ends_step [OF pg_step.respawn [where q = "q\<lparr>pgRespawn := SvReturned\<rparr>"]])
         (use that SvRunning in \<open>auto simp: respawn_return_def settled_def intro!: ends_settled\<close>)
  qed (use that ends_settled [of q] in \<open>simp add: settled_def\<close>)
  have load: "ends D F h q"
    if "pgDone q" "\<not> over q" "listener_inv q" "\<not> crashes q" "pgDistributor q = SvReturned"
    for q :: "('db, 'id, 'pdb, 'v) program"
  proof (cases "pgLoader q")
    case SvRunning
    show ?thesis
      by (rule ends_step [OF pg_step.loader [where q = "q\<lparr>pgLoader := SvReturned\<rparr>"]])
         (use that SvRunning in \<open>auto simp: loader_return_def over_def intro!: resp\<close>)
  qed (use that resp in simp)
  show ?thesis
  proof (cases "pgDistributor p")
    case SvRunning
    show ?thesis
      by (rule ends_step [OF pg_step.distributor [where q = "p\<lparr>pgDistributor := SvReturned\<rparr>"]])
         (use assms SvRunning in \<open>auto simp: distributor_return_def at_select_def over_def intro!: load\<close>)
  qed (use assms load in simp)
qed

lemma ends_iff:
  fixes D :: "('db, 'id, 'pdb, 'v) ds_env"
  assumes D: "ds_env_ok D" and F: "stateless_ok F" and p: "pg_reach D F h p" and d: "pgDone p" and room: "roomy D (pgNode p)"
  shows "ends D F h p \<longleftrightarrow> \<not> sender_left p \<and> \<not> crashes p"
proof
  note I = pg_reach_inv [OF D F p]
  assume "ends D F h p"
  then obtain q where q: "pg_runs D F h p q" "pgMain q = Terminated" by (auto simp: ends_def)
  have "pgMain p \<noteq> Terminated \<and> pgDistributor p = SvRunning" if "sender_left p"
    using I that by (cases "pgDistributor p") (auto simp: order_inv_def sender_left_def)
  then have "\<not> sender_left p" using runs_hangs [OF q(1)] q(2) by (auto simp: hangs_def)
  moreover have "\<not> crashes p" using runs_crashes [OF q(1)] q(2) by (auto simp: crashes_def socket_missing_def)
  ultimately show "\<not> sender_left p \<and> \<not> crashes p" ..
next
  note I = pg_reach_inv [OF D F p]
  assume ok: "\<not> sender_left p \<and> \<not> crashes p"
  show "ends D F h p"
  proof (cases "over p")
    case True
    with ok show ?thesis by (auto simp: over_def crashes_def intro: ends_now)
  next
    case False
    show ?thesis
    proof (cases "out (pgNode p) = []")
      case True
      with d False I ok show ?thesis by (intro ends_at_select) simp_all
    next
      case sending: False
      then have en: "enabled p NdDeliver"
        using I ok by (cases "pgLoader p"; cases "pgDistributor p") (auto simp: order_inv_def sender_left_def)
      from nd_step_safe [OF D F nd_reach_ok [OF D F conjunct1 [OF I]] room, of NdDeliver h 0] obtain n where
        n: "nd_step D F h 0 NdDeliver (pgNode p) = (n, Ok ())" by auto
      have "length (out (pgNode p)) \<le> 1" using I by (simp add: order_inv_def)
      then have "out n = []"
        using deliver_out [of D F h 0 "pgNode p"] n by (cases "out (pgNode p)") simp_all
      with d False I ok have "ends D F h (p\<lparr>pgNode := n\<rparr>)" by (intro ends_at_select) (simp_all add: over_def)
      moreover have "pg_step D F h (Some NdDeliver) p (p\<lparr>pgNode := n\<rparr>)"
        using pg_step.event [OF False en, of D F h 0] n by (simp add: with_node_def del: nd_step.simps)
      ultimately show ?thesis by (rule ends_step [rotated])
    qed
  qed
qed

end
