(* ===== verification/ShutdownProperties.thy ===== *)
theory ShutdownProperties
  imports ShutdownSpec SystemProperties
begin

text \<open>
  The properties of the program as a whole, from its start to its end, with an example in which the
  shutdown never completes.
\<close>

section \<open>The example\<close>

text \<open>
  A node without a listener receives IDs of blocks; before the distributor has handed them on, the
  signal comes and the loader returns.
\<close>

definition demo_program :: "(mem, demo_id, mem, demo_version) program" where
  "demo_program = start_program (NewListener (\<lambda>ap. ap = None) None None) demo_node"

definition demo_ids :: "(demo_id, demo_version) nd_event" where
  "demo_ids = NdNet (DvMessage demo_npeer (BlockIdsMessage [5, 6]))"

definition demo_sending :: "(mem, demo_id, mem, demo_version) node" where
  "demo_sending = demo_node\<lparr>ndDs := (ndDs demo_node)\<lparr>dsOut := [IDsPackage (Addr4 0x0A000002) [5, 6]]\<rparr>\<rparr>"

definition demo_hung :: "(mem, demo_id, mem, demo_version) program" where
  "demo_hung = demo_program\<lparr>pgNode := demo_sending, pgDone := True, pgLoader := SvReturned\<rparr>"

lemma demo_program_simps [simp]:
  "pgNode demo_program = demo_node" "pgMain demo_program = MainWaits" "pgDone demo_program = False"
  "pgDistributor demo_program = SvRunning" "pgLoader demo_program = SvRunning" "pgChClosed demo_program = False"
  "pgService demo_program = EmptyService"
  by (simp_all add: demo_program_def start_program_def NewListener_def)

lemma demo_waits: "demo_program\<lparr>pgNode := n, pgMain := MainWaits\<rparr> = demo_program\<lparr>pgNode := n\<rparr>"
  by (simp add: demo_program_def start_program_def)

lemma demo_ids_step: "nd_step demo_node_env demo_fire demo_cm 0 demo_ids demo_node = (demo_sending, Ok ())"
  by (simp add: demo_ids_def by_distributor_def handleBlockIDsMessage_def with_remote_def demo_npeer_def
      send_package_def demo_sending_def)

lemma demo_program_reach: "pg_reach demo_node_env demo_fire demo_cm demo_program"
  unfolding demo_program_def by (rule pg_reach.booted [OF demo_node_reach]) simp

lemma demo_sending_reach: "pg_reach demo_node_env demo_fire demo_cm (demo_program\<lparr>pgNode := demo_sending\<rparr>)"
proof (rule pg_reach.moved [OF demo_program_reach])
  have "enabled demo_program demo_ids" by (simp add: demo_ids_def at_select_def)
  from pg_step.event [OF _ this, of demo_node_env demo_fire demo_cm 0]
  show "pg_step demo_node_env demo_fire demo_cm (Some demo_ids) demo_program (demo_program\<lparr>pgNode := demo_sending\<rparr>)"
    by (simp add: demo_ids_step with_node_def over_def demo_waits)
  show "nd_event_ok demo_node_env e \<and> roomy demo_node_env (pgNode demo_program)" if "Some demo_ids = Some e" for e
    using that demo_npeer_ok demo_node_roomy by (auto simp: demo_ids_def)
qed

lemma demo_hung_reach: "pg_reach demo_node_env demo_fire demo_cm demo_hung"
proof -
  let ?p = "demo_program\<lparr>pgNode := demo_sending, pgDone := True\<rparr>"
  have "pg_reach demo_node_env demo_fire demo_cm ?p"
    by (rule pg_reach.moved [OF demo_sending_reach pg_step.signal]) (simp_all add: over_def)
  moreover have "pg_step demo_node_env demo_fire demo_cm None ?p demo_hung"
    by (rule pg_step.loader) (simp_all add: over_def loader_return_def demo_hung_def)
  ultimately show ?thesis by (rule pg_reach.moved) simp
qed

lemma demo_hung_roomy: "roomy demo_node_env (pgNode demo_hung)"
  using demo_node_roomy by (simp add: roomy_def demo_hung_def demo_sending_def)

section \<open>Properties\<close>



text \<open>C3: After the signal the program can still come to its regular end, whatever it is doing, except in
  these cases: the loader has returned while the distributor is still waiting at a send, since nobody
  will receive the package and the shutdown waits for the distributor for ever; the listener has returned
  without a socket and is still to be shut down, which will panic; or the program has ended already by a
  panic or because the API could not be started. In these cases no continuation reaches the end.\<close>

theorem shutdown_completes_iff:
  fixes D :: "('db, 'id, 'pdb, 'v) ds_env"
  assumes "ds_env_ok D" and "stateless_ok F" and "pg_reach D F h p" and "pgDone p" and "roomy D (pgNode p)"
  shows "(\<exists>q. pg_runs D F h p q \<and> pgMain q = Terminated) \<longleftrightarrow>
    \<not> (dsOut (ndDs (pgNode p)) \<noteq> [] \<and> pgLoader p = SvReturned) \<and>
    \<not> (pgMain p \<in> {MainWaits, ShutdownApi, WaitApi, ShutdownListener} \<and>
       (\<exists>l. pgService p = ListenerService l \<and> \<not> lsListening l \<and> pgListener p = LsReturned)) \<and>
    pgMain p \<noteq> Panicked \<and> pgMain p \<noteq> Exited"
  using ends_iff [OF assms] by (auto simp: ends_def sender_left_def crashes_def socket_missing_def)

theorem shutdown_completes_iff_witness:
  "\<not> (\<exists>q. pg_runs demo_node_env demo_fire demo_cm demo_hung q \<and> pgMain q = Terminated) \<and>
    (\<exists>q. pg_runs demo_node_env demo_fire demo_cm (demo_program\<lparr>pgDone := True\<rparr>) q \<and> pgMain q = Terminated)"
proof
  note iff = shutdown_completes_iff [OF demo_node_env_ok demo_fire_ok]
  show "\<not> (\<exists>q. pg_runs demo_node_env demo_fire demo_cm demo_hung q \<and> pgMain q = Terminated)"
    using iff [OF demo_hung_reach _ demo_hung_roomy] by (simp add: demo_hung_def demo_sending_def)
  have "pg_reach demo_node_env demo_fire demo_cm (demo_program\<lparr>pgDone := True\<rparr>)"
    by (rule pg_reach.moved [OF demo_program_reach pg_step.signal]) (simp_all add: over_def)
  from iff [OF this] demo_node_roomy
  show "\<exists>q. pg_runs demo_node_env demo_fire demo_cm (demo_program\<lparr>pgDone := True\<rparr>) q \<and> pgMain q = Terminated"
    by simp
qed

end
