(* ===== verification/RespawnSpec.thy ===== *)
theory RespawnSpec
  imports SystemSpec
begin

text \<open>
  A round of the respawn service, peer by peer: what dialing leaves of the registry, of the peers that
  are reached and of those that are not.
\<close>

section \<open>One peer\<close>

text \<open>Offering a version to a known peer changes its version and its next attempt at most.\<close>

lemma SuggestVersion_known:
  fixes r :: "('db, 'v, 'm) registry" and pm :: "u32 \<rightharpoonup> 'v rpeer"
  assumes E: "penv_ok E" and R: "reg_rep E r pm" and p: "pm w = Some p" and vs: "rgVersions r \<noteq> []"
  shows "\<exists>db p' x. SuggestVersion E now (Addr4 w) r = (r\<lparr>rgSt := db\<rparr>, x) \<and> x \<noteq> Panic \<and>
    reg_rep E (r\<lparr>rgSt := db\<rparr>) (pm(w \<mapsto> p')) \<and> AddressPort p' = AddressPort p \<and> pState p' = pState p"
proof (cases "pState p = PeerUnknown")
  case True
  obtain v where "nextVersion E (Version p) (rgVersions r) = Ok v"
    using vs by (cases "version_index E (Version p) (rgVersions r) + 1 < length (rgVersions r)")
      (auto simp: nextVersion_def Let_def)
  from SuggestVersion_next [OF E R p True this, of now] obtain db where
    "SuggestVersion E now (Addr4 w) r = (r\<lparr>rgSt := db\<rparr>, Ok v)" "reg_rep E (r\<lparr>rgSt := db\<rparr>) (pm(w \<mapsto> tried now v p))" by blast
  moreover have "AddressPort (tried now v p) = AddressPort p" "pState (tried now v p) = pState p"
    by (simp_all add: tried_def)
  ultimately show ?thesis by blast
next
  case False
  then have "\<exists>x. SuggestVersion E now (Addr4 w) r = (r, x) \<and> x \<noteq> Panic"
    using get_peer_rep [OF E R, of w] p by (simp add: SuggestVersion_def)
  moreover have "r\<lparr>rgSt := rgSt r\<rparr> = r" "pm(w \<mapsto> p) = pm" using p by auto
  ultimately show ?thesis using R by metis
qed

text \<open>The registry after some peers have been dialed: their records may differ in version and next attempt.\<close>

definition refuses :: "('v peer_params \<Rightarrow> unit res) \<Rightarrow> bool" where
  "refuses run \<longleftrightarrow> (\<forall>q. \<exists>e. run q = Err e)"

definition dialed :: "int \<Rightarrow> bool \<Rightarrow> u32 \<Rightarrow> 'v rpeer \<Rightarrow> 'v rpeer \<Rightarrow> ('db, 'v, 'm) registry \<Rightarrow> bool" where
  "dialed now refused w p p' r \<longleftrightarrow>
     AddressPort p' = AddressPort p \<and> pState p' = pState p \<and>
     (refused \<longrightarrow> Addr4 w \<notin> rgPending r \<and> NextAttempt p' = Some (round_second (now + delay)))"

definition frame :: "u32 set \<Rightarrow> ('db, 'v, 'm) registry \<Rightarrow> ('db, 'v, 'm) registry \<Rightarrow> bool" where
  "frame ws r r' \<longleftrightarrow>
     map_of (rgConns r') = map_of (rgConns r) \<and> rgDeclared r' = rgDeclared r \<and> rgVersions r' = rgVersions r \<and>
     rgPending r - Addr4 ` ws \<subseteq> rgPending r' \<and> rgPending r' \<subseteq> rgPending r"

lemma frame_trans: "frame ws r r1 \<Longrightarrow> frame vs r1 r2 \<Longrightarrow> frame (ws \<union> vs) r r2"
  unfolding frame_def by auto

lemma establish_effect:
  fixes r :: "('db, 'v, 'm) registry" and pm :: "u32 \<rightharpoonup> 'v rpeer"
  assumes E: "penv_ok E" and R: "reg_rep E r pm" and p: "pm w = Some p" and vs: "rgVersions r \<noteq> []"
    and c: "map_of (rgConns r) (Addr4 w) = None" and run: "\<And>q. run q \<noteq> Panic"
  shows "\<exists>r1 p'. establish E now h run (AddressPort p) r = (r1, Ok ()) \<and> reg_rep E r1 (pm(w \<mapsto> p')) \<and>
    frame {w} r r1 \<and> dialed now (refuses run) w p p' r1"
proof -
  have a: "ap_addr (AddressPort p) = Addr4 w" using stored_peer [OF R p] by (simp add: stored_ok_def)
  from SuggestVersion_known [OF E R p vs, of now] obtain db p1 x where
    s: "SuggestVersion E now (Addr4 w) r = (r\<lparr>rgSt := db\<rparr>, x)" "x \<noteq> Panic"
    "reg_rep E (r\<lparr>rgSt := db\<rparr>) (pm(w \<mapsto> p1))" "AddressPort p1 = AddressPort p" "pState p1 = pState p" by blast
  let ?r = "r\<lparr>rgSt := db\<rparr>"
  obtain y where y: "Connect E now h run (Some (AddressPort p)) r = (?r, y)" "y \<noteq> Panic" "refuses run \<longrightarrow> \<not> is_ok y"
  proof (cases x)
    case (Ok v)
    with s(1) a have "Connect E now h run (Some (AddressPort p)) r = (?r, run (conn_params h v))"
      by (simp add: Connect_def bind_act_def)
    moreover have "\<not> is_ok (run (conn_params h v))" if "refuses run"
      using that by (metis is_ok.simps(2) refuses_def)
    ultimately show ?thesis using that run by blast
  next
    case (Err e)
    with s(1) a show ?thesis by (intro that [of "Err e"]) (simp_all add: Connect_def bind_act_def)
  qed (use s(2) in simp)
  show ?thesis
  proof (cases y)
    case (Ok u)
    with y have "establish E now h run (AddressPort p) r = (?r, Ok ())" "\<not> refuses run"
      by (simp_all add: establish_def)
    moreover have "frame {w} r ?r" by (auto simp: frame_def)
    ultimately show ?thesis using s(3-5) by (auto simp: dialed_def)
  next
    case (Err e)
    have "pm(w \<mapsto> p1, w \<mapsto> left now p1) = pm(w \<mapsto> left now p1)" by simp
    with UnregisterPeer_result [OF E s(3), of w p1 now] obtain db' where
      u: "UnregisterPeer E now (Addr4 w) ?r = ((disconnecting w ?r)\<lparr>rgSt := db'\<rparr>, Ok ())"
      "reg_rep E ((disconnecting w ?r)\<lparr>rgSt := db'\<rparr>) (pm(w \<mapsto> left now p1))" by auto
    with y Err a have "establish E now h run (AddressPort p) r = ((disconnecting w ?r)\<lparr>rgSt := db'\<rparr>, Ok ())"
      by (simp add: establish_def)
    moreover have "frame {w} r ((disconnecting w ?r)\<lparr>rgSt := db'\<rparr>)"
      using c by (auto simp: frame_def disconnecting_def delete_conv' fun_eq_iff)
    moreover have "dialed now (refuses run) w p (left now p1) ((disconnecting w ?r)\<lparr>rgSt := db'\<rparr>)"
      using s(4,5) by (simp add: dialed_def left_def disconnecting_def)
    ultimately show ?thesis using u(2) by blast
  qed (use y(2) in simp)
qed

section \<open>The peers of a round\<close>

lemma establishConnections_effect:
  fixes r :: "('db, 'v, 'm) registry" and pm :: "u32 \<rightharpoonup> 'v rpeer"
  assumes E: "penv_ok E" and run: "\<And>ap q. run ap q \<noteq> Panic"
  shows "reg_rep E r pm \<Longrightarrow> rgVersions r \<noteq> [] \<Longrightarrow> distinct ws \<Longrightarrow>
    (\<And>w. w \<in> set ws \<Longrightarrow> pm w \<noteq> None \<and> map_of (rgConns r) (Addr4 w) = None) \<Longrightarrow>
    \<exists>r1 pm1. establishConnections E now h run (map (\<lambda>w. AddressPort (the (pm w))) ws) r = (r1, Ok ()) \<and>
      reg_rep E r1 pm1 \<and> frame (set ws) r r1 \<and> (\<forall>w. w \<notin> set ws \<longrightarrow> pm1 w = pm w) \<and>
      (\<forall>w \<in> set ws. \<exists>p'. pm1 w = Some p' \<and>
         dialed now (refuses (run (AddressPort (the (pm w))))) w (the (pm w)) p' r1)"
proof (induction ws arbitrary: r pm)
  case Nil
  then show ?case by (auto simp: return_act_def frame_def)
next
  case (Cons w ws)
  from Cons.prems(4) [of w] obtain p where p: "pm w = Some p" and c: "map_of (rgConns r) (Addr4 w) = None" by auto
  from establish_effect [where run = "run (AddressPort p)", OF E Cons.prems(1) p Cons.prems(2) c run, of now h]
  obtain r1 p' where e: "establish E now h (run (AddressPort p)) (AddressPort p) r = (r1, Ok ())"
    "reg_rep E r1 (pm(w \<mapsto> p'))" "frame {w} r r1" "dialed now (refuses (run (AddressPort p))) w p p' r1" by blast
  let ?pm = "pm(w \<mapsto> p')"
  have same: "?pm v = pm v" if "v \<in> set ws" for v using that Cons.prems(3) by auto
  then have as: "map (\<lambda>v. AddressPort (the (?pm v))) ws = map (\<lambda>v. AddressPort (the (pm v))) ws" by simp
  have "?pm v \<noteq> None \<and> map_of (rgConns r1) (Addr4 v) = None" if "v \<in> set ws" for v
    using that Cons.prems(4) [of v] e(3) same by (simp add: frame_def)
  with Cons.IH [OF e(2)] Cons.prems(2,3) e(3) obtain r2 pm2 where
    f: "establishConnections E now h run (map (\<lambda>v. AddressPort (the (?pm v))) ws) r1 = (r2, Ok ())"
    "reg_rep E r2 pm2" "frame (set ws) r1 r2" "\<forall>v. v \<notin> set ws \<longrightarrow> pm2 v = ?pm v"
    "\<forall>v \<in> set ws. \<exists>q. pm2 v = Some q \<and> dialed now (refuses (run (AddressPort (the (?pm v))))) v (the (?pm v)) q r2"
    unfolding frame_def by auto
  have "pm2 w = Some p'" using f(4) Cons.prems(3) by simp
  moreover have "dialed now (refuses (run (AddressPort p))) w p p' r2"
    using e(4) f(3) by (auto simp: dialed_def frame_def)
  moreover have "establishConnections E now h run (map (\<lambda>v. AddressPort (the (pm v))) (w # ws)) r = (r2, Ok ())"
    using e(1) f(1) p unfolding as by (simp add: bind_act_def)
  moreover have "frame (set (w # ws)) r r2" using frame_trans [OF e(3) f(3)] by simp
  moreover have "\<forall>v \<in> set ws. \<exists>q. pm2 v = Some q \<and> dialed now (refuses (run (AddressPort (the (pm v))))) v (the (pm v)) q r2"
    using f(5) same by simp
  moreover have "\<forall>v. v \<notin> set (w # ws) \<longrightarrow> pm2 v = pm v" using f(4) by simp
  ultimately show ?case using f(2) p by (intro exI [of _ r2] exI [of _ pm2]) simp
qed

text \<open>
  The whole round: it sets the timer again, no connection of the registry changes, the addresses that
  refused are given out again exactly when the delay is over.
\<close>

lemma respawn_tick_effect:
  fixes r :: "('db, 'v, 'm) registry"
  assumes E: "penv_ok E" and I: "reg_inv E r" and vs: "rgVersions r \<noteq> []" and run: "\<And>ap q. run ap q \<noteq> Panic"
    and t: "TakeAvailableAddresses E now r = (r0, Ok as)"
  shows "\<exists>r1. respawn_tick E now h run r = (r1, Ok True) \<and> reg_inv E r1 \<and>
    map_of (rgConns r1) = map_of (rgConns r) \<and>
    rgPending r \<subseteq> rgPending r1 \<and> rgPending r1 \<subseteq> rgPending r \<union> ap_addr ` set as \<and>
    (\<forall>ap \<in> set as. refuses (run ap) \<longrightarrow> ap_addr ap \<notin> rgPending r1 \<and>
       (\<forall>later r2 bs. TakeAvailableAddresses E later r1 = (r2, Ok bs) \<longrightarrow>
          (ap \<in> set bs \<longleftrightarrow> round_second (now + delay) \<le> later)))"
proof -
  from I obtain pm :: "u32 \<rightharpoonup> 'v rpeer" where R: "reg_rep E r pm" by (auto simp: reg_inv_def)
  from TakeAvailable_result [OF E R, of now] t obtain ws where
    ws: "r0 = r\<lparr>rgPending := rgPending r \<union> Addr4 ` taking pm now r\<rparr>" "as = map (\<lambda>w. AddressPort (the (pm w))) ws"
    "set ws = taking pm now r" "sorted_wrt (<) ws" by auto
  have R0: "reg_rep E r0 pm" using R by (simp add: ws(1))
  have av: "pm w \<noteq> None \<and> available now r (the (pm w)) \<and> ap_addr (AddressPort (the (pm w))) = Addr4 w"
    if "w \<in> set ws" for w using that stored_peer [OF R] by (auto simp: ws(3) taking_def stored_ok_def)
  have dist: "distinct ws" using ws(4) by (simp add: strict_sorted_iff)
  have free: "pm w \<noteq> None \<and> map_of (rgConns r0) (Addr4 w) = None" if "w \<in> set ws" for w
    using av [OF that] by (auto simp: available_def ws(1))
  have vs0: "rgVersions r0 \<noteq> []" using vs by (simp add: ws(1))
  from establishConnections_effect [where run = run, OF E run R0 vs0 dist free, of now h] obtain r1 pm1 where
    e: "establishConnections E now h run as r0 = (r1, Ok ())" "reg_rep E r1 pm1" "frame (set ws) r0 r1"
    "\<forall>w. w \<notin> set ws \<longrightarrow> pm1 w = pm w"
    "\<forall>w \<in> set ws. \<exists>p'. pm1 w = Some p' \<and> dialed now (refuses (run (AddressPort (the (pm w))))) w (the (pm w)) p' r1"
    unfolding ws(2) by blast
  have tick: "respawn_tick E now h run r = (r1, Ok True)"
    using t e(1) by (simp add: respawn_tick_def bind_act_def return_act_def)
  have again: "AddressPort (the (pm w)) \<in> set bs \<longleftrightarrow> round_second (now + delay) \<le> later"
    if w: "w \<in> set ws" and ref: "refuses (run (AddressPort (the (pm w))))"
      and b: "TakeAvailableAddresses E later r1 = (r2, Ok bs)" for w later r2 bs
  proof -
    from e(5) w ref obtain p' where p': "pm1 w = Some p'" "AddressPort p' = AddressPort (the (pm w))"
      "pState p' = pState (the (pm w))" "Addr4 w \<notin> rgPending r1" "NextAttempt p' = Some (round_second (now + delay))"
      by (auto simp: dialed_def)
    from TakeAvailable_result [OF E e(2), of later] b obtain vs where
      vs: "bs = map (\<lambda>w. AddressPort (the (pm1 w))) vs" "set vs = taking pm1 later r1" by auto
    have key: "ap_addr (AddressPort (the (pm1 v))) = Addr4 v" if "v \<in> set vs" for v
      using that stored_peer [OF e(2)] by (auto simp: vs(2) taking_def stored_ok_def)
    have "AddressPort p' \<in> set bs \<longleftrightarrow> w \<in> set vs"
    proof
      assume "AddressPort p' \<in> set bs"
      then obtain v where v: "v \<in> set vs" "AddressPort p' = AddressPort (the (pm1 v))" by (auto simp: vs(1))
      then have "Addr4 v = Addr4 w" using key [OF v(1)] p'(2) av [OF w] by simp
      with v(1) show "w \<in> set vs" by simp
    next
      assume "w \<in> set vs"
      then show "AddressPort p' \<in> set bs" using p'(1) by (force simp: vs(1))
    qed
    also have "w \<in> set vs \<longleftrightarrow> w \<in> taking pm1 later r1" by (simp only: vs(2))
    also have "\<dots> \<longleftrightarrow> round_second (now + delay) \<le> later"
    proof -
      have "available later r1 p' \<longleftrightarrow> round_second (now + delay) \<le> later"
      proof -
        have q: "Addr4 w \<noteq> rgDeclared r" "map_of (rgConns r) (Addr4 w) = None" "ap_addr (AddressPort p') = Addr4 w"
          "ap_port (AddressPort p') \<noteq> 0" "pState p' \<noteq> PeerHostile"
          using av [OF w] p'(2,3) unfolding available_def by metis+
        have "map_of (rgConns r1) (Addr4 w) = None" "rgDeclared r1 = rgDeclared r"
          using e(3) q(2) unfolding frame_def ws(1) by simp_all
        with q p'(4,5) show ?thesis by (simp add: available_def not_less)
      qed
      then show ?thesis using p'(1) by (simp add: taking_def)
    qed
    finally show ?thesis by (simp add: p'(2))
  qed
  have pend: "rgPending r1 \<subseteq> rgPending r \<union> ap_addr ` set as" "rgPending r \<subseteq> rgPending r1"
  proof -
    have "ap_addr ` set as = (\<lambda>w. ap_addr (AddressPort (the (pm w)))) ` set ws" by (simp add: ws(2) image_image)
    also have "\<dots> = Addr4 ` set ws" using av by (intro image_cong) simp_all
    finally have "ap_addr ` set as = Addr4 ` set ws" .
    then show "rgPending r1 \<subseteq> rgPending r \<union> ap_addr ` set as" using e(3) by (auto simp: frame_def ws(1,3))
    have "Addr4 w \<notin> rgPending r" if "w \<in> set ws" for w using av [OF that] by (auto simp: available_def)
    then show "rgPending r \<subseteq> rgPending r1" using e(3) by (auto simp: frame_def ws(1))
  qed
  have "reg_inv E r1" using e(2) unfolding reg_inv_def by blast
  moreover have "map_of (rgConns r1) = map_of (rgConns r)" using e(3) by (simp add: frame_def ws(1))
  moreover have "ap_addr ap \<notin> rgPending r1" if "ap \<in> set as" "refuses (run ap)" for ap
  proof -
    from that(1) obtain w where w: "w \<in> set ws" "ap = AddressPort (the (pm w))" by (auto simp: ws(2))
    with e(5) that(2) av [OF w(1)] show ?thesis by (auto simp: dialed_def)
  qed
  moreover have "ap \<in> set bs \<longleftrightarrow> round_second (now + delay) \<le> later"
    if "ap \<in> set as" "refuses (run ap)" "TakeAvailableAddresses E later r1 = (r2, Ok bs)" for ap later r2 bs
  proof -
    from that(1) obtain w where "w \<in> set ws" "ap = AddressPort (the (pm w))" by (auto simp: ws(2))
    with again [of w later r2 bs] that(2,3) show ?thesis by simp
  qed
  ultimately show ?thesis using tick pend by blast
qed

end
