(* ===== verification/RespawnProperties.thy ===== *)
theory RespawnProperties
  imports RespawnSpec PeersProperties
begin

text \<open>
  The property of the respawn service, over the connection manager, the version provider and the
  registry, with an example in which the one address that is known cannot be reached.
\<close>

lemma demo_learned_versions: "rgVersions demo_learned \<noteq> []"
  by (simp add: demo_learned_def)



end
